(* ===== verification/Prelude.thy ===== *)
theory Prelude
  imports Complex_Main "HOL-Library.Word" "HOL-Library.Sublist" "HOL-Library.Char_ord"
begin

text \<open>
  Shared vocabulary of the development: JavaScript strings (sequences of 16-bit
  code units), JavaScript numbers and values as they arrive from
  \<open>JSON.parse\<close>, the safe-integer tests the sources repeat, and the list lemmas
  several components use.
\<close>

section \<open>JavaScript strings\<close>

text \<open>
  A JavaScript string is a sequence of UTF-16 code units: \<open>length\<close>, indexing and
  \<open>slice\<close> all count units. \<open>js\<close> writes an ASCII literal.
\<close>

type_synonym cunit = "16 word"
type_synonym jstr = "cunit list"

definition js :: "string \<Rightarrow> jstr" where
  "js s = map of_char s"

lemma js_Nil [simp]: "js [] = []"
  by (simp add: js_def)

lemma js_Cons [simp]: "js (c # s) = of_char c # js s"
  by (simp add: js_def)

lemma length_js [simp]: "length (js s) = length s"
  by (simp add: js_def)

text \<open>\<open>Array.prototype.join\<close> and \<open>String.prototype.split\<close> with a one-unit separator.\<close>

fun join_units :: "'a \<Rightarrow> 'a list list \<Rightarrow> 'a list" where
  "join_units d [] = []"
| "join_units d [l] = l"
| "join_units d (l # ls) = l @ d # join_units d ls"

fun split_units :: "'a \<Rightarrow> 'a list \<Rightarrow> 'a list list" where
  "split_units d [] = [[]]"
| "split_units d (x # xs) =
     (if x = d then [] # split_units d xs
      else (case split_units d xs of [] \<Rightarrow> [[x]] | l # ls \<Rightarrow> (x # l) # ls))"

lemma split_units_not_Nil [simp]: "split_units d xs \<noteq> []"
  by (cases xs) (auto split: list.splits)

lemma join_split_units: "join_units d (split_units d xs) = xs"
proof (induction xs)
  case Nil
  then show ?case by simp
next
  case (Cons x xs)
  then show ?case
    by (cases "split_units d xs"; cases "tl (split_units d xs)") auto
qed

lemma split_units_append:
  "d \<notin> set l \<Longrightarrow> split_units d (l @ d # ys) = l # split_units d ys"
  by (induction l) auto

lemma split_units_no_sep: "d \<notin> set l \<Longrightarrow> split_units d l = [l]"
  by (induction l) auto

lemma split_join_units:
  "ls \<noteq> [] \<Longrightarrow> \<forall>l \<in> set ls. d \<notin> set l \<Longrightarrow> split_units d (join_units d ls) = ls"
  by (induction d ls rule: join_units.induct)
    (auto simp: split_units_append split_units_no_sep)

lemma split_units_no_sep_inside: "l \<in> set (split_units d xs) \<Longrightarrow> d \<notin> set l"
  by (induction xs arbitrary: l) (auto split: if_splits list.splits)

section \<open>JavaScript numbers\<close>

text \<open>
  A number is a rational, one of the infinities or NaN. Only comparisons and
  the integrality tests below are used on numbers that come from outside;
  indices and counts that the code computes itself are \<^typ>\<open>nat\<close> or \<^typ>\<open>int\<close>.
\<close>

datatype jnum = Fin rat | NaN | PosInf | NegInf

definition rat_is_int :: "rat \<Rightarrow> bool" where
  "rat_is_int q \<longleftrightarrow> snd (quotient_of q) = 1"

definition rat_to_int :: "rat \<Rightarrow> int" where
  "rat_to_int q = fst (quotient_of q)"

definition max_safe :: int where
  "max_safe = 9007199254740991"

fun is_finite_num :: "jnum \<Rightarrow> bool" where
  "is_finite_num (Fin _) = True"
| "is_finite_num _ = False"

fun is_integer_num :: "jnum \<Rightarrow> bool" where
  "is_integer_num (Fin q) = rat_is_int q"
| "is_integer_num _ = False"

fun is_safe_integer :: "jnum \<Rightarrow> bool" where
  "is_safe_integer (Fin q) = (rat_is_int q \<and> \<bar>rat_to_int q\<bar> \<le> max_safe)"
| "is_safe_integer _ = False"

fun num_int :: "jnum \<Rightarrow> int" where
  "num_int (Fin q) = rat_to_int q"
| "num_int _ = 0"

definition int_num :: "int \<Rightarrow> jnum" where
  "int_num i = Fin (of_int i)"

lemma rat_to_int_of_int [simp]: "rat_to_int (of_int i) = i"
  by (simp add: rat_to_int_def)

lemma rat_is_int_of_int [simp]: "rat_is_int (of_int i)"
  by (simp add: rat_is_int_def)

lemma rat_is_int_conv: "rat_is_int q \<Longrightarrow> q = of_int (rat_to_int q)"
proof -
  assume "rat_is_int q"
  then have "quotient_of q = (rat_to_int q, 1)"
    by (cases "quotient_of q") (simp add: rat_is_int_def rat_to_int_def)
  then have "q = of_int (rat_to_int q) / of_int 1"
    by (rule quotient_of_div)
  then show ?thesis by simp
qed

lemma num_int_int_num [simp]: "num_int (int_num i) = i"
  by (simp add: int_num_def)

lemma is_safe_integer_int_num [simp]:
  "is_safe_integer (int_num i) \<longleftrightarrow> \<bar>i\<bar> \<le> max_safe"
  by (simp add: int_num_def)

lemma is_integer_int_num [simp]: "is_integer_num (int_num i)"
  by (simp add: int_num_def)

lemma safe_integer_conv: "is_safe_integer n \<Longrightarrow> n = int_num (num_int n)"
  by (cases n) (auto simp: int_num_def dest: rat_is_int_conv)

text \<open>\<open>safe_count min n\<close>: the sources' \<open>Number.isSafeInteger(n) && n >= min\<close>.\<close>

definition safe_count :: "int \<Rightarrow> jnum \<Rightarrow> bool" where
  "safe_count lo n \<longleftrightarrow> is_safe_integer n \<and> lo \<le> num_int n"

lemma safe_count_int_num [simp]:
  "safe_count lo (int_num i) \<longleftrightarrow> \<bar>i\<bar> \<le> max_safe \<and> lo \<le> i"
  by (simp add: safe_count_def)

lemma is_safe_integer_bounds: "is_safe_integer n \<Longrightarrow> \<bar>num_int n\<bar> \<le> max_safe"
  by (cases n) auto

lemma safe_count_bounds: "safe_count lo n \<Longrightarrow> lo \<le> num_int n \<and> num_int n \<le> max_safe"
  using is_safe_integer_bounds[of n] by (auto simp: safe_count_def)

text \<open>The same test on integers the model keeps as \<^typ>\<open>int\<close>.\<close>

definition safe_int :: "int \<Rightarrow> bool" where
  "safe_int i \<longleftrightarrow> \<bar>i\<bar> \<le> max_safe"

definition safe_nonneg :: "int \<Rightarrow> bool" where
  "safe_nonneg i \<longleftrightarrow> 0 \<le> i \<and> i \<le> max_safe"

section \<open>Values from JSON.parse\<close>

text \<open>
  \<open>JUndef\<close> is what reading a missing property gives. The first binding of a key
  is the one an object holds.
\<close>

datatype jval =
    JUndef
  | JNull
  | JBool bool
  | JNum jnum
  | JStr jstr
  | JArr "jval list"
  | JObj "(string \<times> jval) list"

definition jget :: "(string \<times> jval) list \<Rightarrow> string \<Rightarrow> jval" where
  "jget ob k = (case map_of ob k of None \<Rightarrow> JUndef | Some v \<Rightarrow> v)"

definition jhas :: "(string \<times> jval) list \<Rightarrow> string \<Rightarrow> bool" where
  "jhas ob k \<longleftrightarrow> map_of ob k \<noteq> None"

lemma jget_Nil [simp]: "jget [] k = JUndef"
  by (simp add: jget_def)

lemma jget_Cons [simp]: "jget ((k', v) # ob) k = (if k = k' then v else jget ob k)"
  by (simp add: jget_def)

lemma jhas_Nil [simp]: "\<not> jhas [] k"
  by (simp add: jhas_def)

lemma jhas_Cons [simp]: "jhas ((k', v) # ob) k \<longleftrightarrow> k = k' \<or> jhas ob k"
  by (simp add: jhas_def)

section \<open>Calls of the host\<close>

text \<open>A call of the host: \<open>Inl\<close> the error it throws, or its value, and the state after it.\<close>

type_synonym ('s, 'a) host_call = "'s \<Rightarrow> (string + 'a) \<times> 's"

section \<open>Lists\<close>

lemma suffix_iff_drop:
  "suffix ys xs \<longleftrightarrow> length ys \<le> length xs \<and> drop (length xs - length ys) xs = ys"
  by (auto simp: suffix_def) (metis append_take_drop_id)

lemma suffix_same_length_eq:
  "suffix xs zs \<Longrightarrow> suffix ys zs \<Longrightarrow> length xs = length ys \<Longrightarrow> xs = ys"
  by (auto simp: suffix_iff_drop)

lemma suffix_shorter:
  "suffix xs zs \<Longrightarrow> suffix ys zs \<Longrightarrow> length xs \<le> length ys \<Longrightarrow> suffix xs ys"
  by (metis suffix_length_suffix)

section \<open>Checks in order\<close>

text \<open>
  A validator is a list of checks, each a condition with the error it raises when the condition fails;
  its result is the error of the first failing check.
\<close>

fun first_failure :: "(bool \<times> 'e) list \<Rightarrow> 'e option" where
  "first_failure [] = None"
| "first_failure ((ok, msg) # cs) = (if ok then first_failure cs else Some msg)"

lemma first_failure_append:
  "first_failure (cs @ ds) = (case first_failure cs of None \<Rightarrow> first_failure ds | Some msg \<Rightarrow> Some msg)"
  by (induction cs rule: first_failure.induct) auto

lemma first_failure_None [simp]: "first_failure cs = None \<longleftrightarrow> list_all fst cs"
  by (induction cs rule: first_failure.induct) auto

end
