(* ===== verification/Terminal_Scroll.thy ===== *)
theory Terminal_Scroll
  imports Prelude
begin

text \<open>
  \<open>core/src/terminal-scroll.ts\<close>: the overlap between two captures (a budgeted
  quadratic scan that falls back to Knuth-Morris-Pratt), the stable merge built on
  it, the reader anchor, and the splitting of a wheel remainder into whole lines.
\<close>

section \<open>The overlap as a specification\<close>

text \<open>
  \<open>overlaps prev next k\<close>: the last \<open>k\<close> rows of \<open>prev\<close> are the first \<open>k\<close> of \<open>next\<close>.
  \<open>is_max_overlap\<close> is what the doc comment of \<open>findLineOverlap\<close> promises.
\<close>

definition overlaps :: "'a list \<Rightarrow> 'a list \<Rightarrow> nat \<Rightarrow> bool" where
  "overlaps prev next k \<longleftrightarrow>
     k \<le> length prev \<and> k \<le> length next \<and> drop (length prev - k) prev = take k next"

definition is_max_overlap :: "'a list \<Rightarrow> 'a list \<Rightarrow> nat \<Rightarrow> bool" where
  "is_max_overlap prev next k \<longleftrightarrow>
     overlaps prev next k \<and> (\<forall>j. overlaps prev next j \<longrightarrow> j \<le> k)"

lemma overlaps_0 [simp]: "overlaps prev next 0"
  by (simp add: overlaps_def)

lemma overlaps_suffix:
  "overlaps prev next k \<longleftrightarrow> k \<le> length next \<and> suffix (take k next) prev"
  by (auto simp: overlaps_def suffix_iff_drop min_def)

lemma is_max_overlap_unique:
  "is_max_overlap prev next j \<Longrightarrow> is_max_overlap prev next k \<Longrightarrow> j = k"
  by (auto simp: is_max_overlap_def intro: le_antisym)

section \<open>The linear fallback\<close>

text \<open>
  \<open>idByLine\<close>: each distinct row of \<open>next\<close> gets the next free id, rows of \<open>prev\<close> that
  do not occur there get \<open>-1\<close>.
\<close>

fun intern_lines :: "'a list \<Rightarrow> ('a \<rightharpoonup> int) \<Rightarrow> int \<Rightarrow> int list \<times> ('a \<rightharpoonup> int)" where
  "intern_lines [] m nid = ([], m)"
| "intern_lines (l # ls) m nid =
     (case m l of
        Some i \<Rightarrow> (let (is, m') = intern_lines ls m nid in (i # is, m'))
      | None \<Rightarrow> (let (is, m') = intern_lines ls (m(l \<mapsto> nid)) (nid + 1) in (nid # is, m')))"

definition line_id :: "('a \<rightharpoonup> int) \<Rightarrow> 'a \<Rightarrow> int" where
  "line_id m l = (case m l of None \<Rightarrow> -1 | Some i \<Rightarrow> i)"

text \<open>The prefix-function loop over \<open>pattern\<close>; \<open>tbl\<close> is the typed array it fills.\<close>

partial_function (option) build_pi :: "int list \<Rightarrow> nat list \<Rightarrow> nat \<Rightarrow> nat \<Rightarrow> nat list option" where
  "build_pi p tbl i len =
     (if i < length p then
        (if p ! i = p ! len then build_pi p (tbl[i := Suc len]) (Suc i) (Suc len)
         else if 0 < len then build_pi p tbl i (tbl ! (len - 1))
         else build_pi p (tbl[i := 0]) (Suc i) len)
      else Some tbl)"

text \<open>\<open>while (state > 0 && pattern[state] !== id) state = tbl[state - 1]\<close>.\<close>

partial_function (option) kmp_fall :: "int list \<Rightarrow> nat list \<Rightarrow> int \<Rightarrow> nat \<Rightarrow> nat option" where
  "kmp_fall p tbl c st =
     (if 0 < st \<and> p ! st \<noteq> c then kmp_fall p tbl c (tbl ! (st - 1)) else Some st)"

definition kmp_step :: "int list \<Rightarrow> nat list \<Rightarrow> nat \<Rightarrow> int \<Rightarrow> nat option" where
  "kmp_step p tbl st c =
     (let st1 = (if st = length p then tbl ! (length p - 1) else st) in
      case kmp_fall p tbl c st1 of
        None \<Rightarrow> None
      | Some st2 \<Rightarrow> Some (if p ! st2 = c then Suc st2 else st2))"

fun kmp_run :: "int list \<Rightarrow> nat list \<Rightarrow> nat \<Rightarrow> int list \<Rightarrow> nat option" where
  "kmp_run p tbl st [] = Some st"
| "kmp_run p tbl st (c # cs) =
     (case kmp_step p tbl st c of None \<Rightarrow> None | Some st' \<Rightarrow> kmp_run p tbl st' cs)"

definition find_line_overlap_linear :: "'a list \<Rightarrow> 'a list \<Rightarrow> nat option" where
  "find_line_overlap_linear prev next =
     (if prev = [] \<or> next = [] then Some 0
      else let (pat, ids) = intern_lines next Map.empty 0 in
        case build_pi pat (replicate (length pat) 0) 1 0 of
          None \<Rightarrow> None
        | Some tbl \<Rightarrow> kmp_run pat tbl 0 (map (line_id ids) prev))"

section \<open>The budgeted scan\<close>

datatype scan_result = Exhausted | Differ int | Equal int

text \<open>The inner loop for one candidate; the budget is decremented before every comparison.\<close>

function compare_rows :: "'a list \<Rightarrow> 'a list \<Rightarrow> nat \<Rightarrow> nat \<Rightarrow> nat \<Rightarrow> int \<Rightarrow> scan_result" where
  "compare_rows prev next pstart overlap i budget =
     (if i < overlap then
        (if budget - 1 < 0 then Exhausted
         else if prev ! (pstart + i) \<noteq> next ! i then Differ (budget - 1)
         else compare_rows prev next pstart overlap (Suc i) (budget - 1))
      else Equal budget)"
  by pat_completeness auto
termination
  by (relation "measure (\<lambda>(prev, next, pstart, overlap, i, budget). overlap - i)") auto

declare compare_rows.simps [simp del]

fun scan_overlap :: "'a list \<Rightarrow> 'a list \<Rightarrow> nat \<Rightarrow> int \<Rightarrow> nat option" where
  "scan_overlap prev next 0 budget = Some 0"
| "scan_overlap prev next (Suc k) budget =
     (case compare_rows prev next (length prev - Suc k) (Suc k) 0 budget of
        Exhausted \<Rightarrow> find_line_overlap_linear prev next
      | Differ b \<Rightarrow> scan_overlap prev next k b
      | Equal b \<Rightarrow> Some (Suc k))"

definition scan_budget :: "'a list \<Rightarrow> 'a list \<Rightarrow> int" where
  "scan_budget prev next = 2 * (int (length prev) + int (length next)) + 64"

definition find_line_overlap :: "'a list \<Rightarrow> 'a list \<Rightarrow> nat option" where
  "find_line_overlap prev next =
     scan_overlap prev next (min (length prev) (length next)) (scan_budget prev next)"

section \<open>Interning keeps equality\<close>

lemma intern_lines_ids:
  assumes "intern_lines ls m nid = (is, m')" and "inj_on m (dom m)" and "\<forall>i \<in> ran m. 0 \<le> i \<and> i < nid"
    and "0 \<le> nid"
  shows "m \<subseteq>\<^sub>m m' \<and> inj_on m' (dom m') \<and> (\<forall>i \<in> ran m'. 0 \<le> i) \<and> set ls \<subseteq> dom m' \<and>
         is = map (line_id m') ls"
  using assms
proof (induction ls arbitrary: m nid "is" m')
  case Nil
  then show ?case by auto
next
  case (Cons l ls)
  show ?case
  proof (cases "m l")
    case (Some i)
    with Cons.prems(1) obtain "is'" where r: "intern_lines ls m nid = (is', m')" "is = i # is'"
      by (auto split: prod.splits)
    have ih: "m \<subseteq>\<^sub>m m'" and rest: "inj_on m' (dom m') \<and> (\<forall>i \<in> ran m'. 0 \<le> i) \<and>
        set ls \<subseteq> dom m' \<and> is' = map (line_id m') ls"
      using Cons.IH[OF r(1) Cons.prems(2,3,4)] by auto
    have "m' l = Some i"
      using ih Some by (metis domI map_le_def)
    with ih rest r(2) show ?thesis
      by (auto simp: line_id_def)
  next
    case None
    with Cons.prems(1) obtain "is'" where
      r: "intern_lines ls (m(l \<mapsto> nid)) (nid + 1) = (is', m')" "is = nid # is'"
      by (auto split: prod.splits)
    have inj: "inj_on (m(l \<mapsto> nid)) (dom (m(l \<mapsto> nid)))"
      using Cons.prems(2,3) None by (auto simp: inj_on_def ran_def)
    have rng: "\<forall>i \<in> ran (m(l \<mapsto> nid)). 0 \<le> i \<and> i < nid + 1"
      using Cons.prems(3,4) by (auto simp: ran_def)
    have ih: "m(l \<mapsto> nid) \<subseteq>\<^sub>m m' \<and> inj_on m' (dom m') \<and> (\<forall>i \<in> ran m'. 0 \<le> i) \<and>
        set ls \<subseteq> dom m' \<and> is' = map (line_id m') ls"
      by (rule Cons.IH[OF r(1) inj rng]) (use Cons.prems(4) in simp)
    then have "m' l = Some nid"
      by (metis domI dom_fun_upd fun_upd_same map_le_def insertCI)
    moreover have "m \<subseteq>\<^sub>m m'"
      using ih None by (auto simp: map_le_def) (metis domI option.distinct(1))
    ultimately show ?thesis
      using ih r(2) by (auto simp: line_id_def)
  qed
qed

lemma intern_lines_eq:
  assumes "intern_lines next Map.empty 0 = (pat, ids)"
  shows "pat = map (line_id ids) next"
    and "b \<in> set next \<Longrightarrow> line_id ids a = line_id ids b \<longleftrightarrow> a = b"
proof -
  have i: "inj_on ids (dom ids)" "\<forall>i \<in> ran ids. 0 \<le> i" "set next \<subseteq> dom ids"
    and p: "pat = map (line_id ids) next"
    using intern_lines_ids[OF assms] by auto
  show "pat = map (line_id ids) next" by (rule p)
  assume "b \<in> set next"
  then obtain ib where ib: "ids b = Some ib" "0 \<le> ib"
    using i(2,3) by (metis domD ranI subsetD)
  show "line_id ids a = line_id ids b \<longleftrightarrow> a = b"
    using i(1) ib by (auto simp: line_id_def inj_on_def split: option.splits) (metis domI)
qed

section \<open>The prefix function\<close>

text \<open>
  \<open>is_next p j k\<close>: \<open>k\<close> is the longest proper border of the first \<open>j\<close> ids of \<open>p\<close>.
\<close>

definition is_next :: "'a list \<Rightarrow> nat \<Rightarrow> nat \<Rightarrow> bool" where
  "is_next p j k \<longleftrightarrow> k < j \<and> overlaps (take j p) p k \<and>
     (\<forall>m. m < j \<longrightarrow> overlaps (take j p) p m \<longrightarrow> m \<le> k)"

definition pi_ok :: "'a list \<Rightarrow> nat list \<Rightarrow> nat \<Rightarrow> bool" where
  "pi_ok p tbl n \<longleftrightarrow> length tbl = length p \<and> n \<le> length p \<and>
     (\<forall>j. 0 < j \<longrightarrow> j \<le> n \<longrightarrow> is_next p j (tbl ! (j - 1)))"

lemma overlaps_snoc:
  "overlaps (t @ [c]) p (Suc m) \<longleftrightarrow> overlaps t p m \<and> m < length p \<and> p ! m = c"
  by (auto simp: overlaps_suffix take_Suc_conv_app_nth Suc_le_eq)

lemma overlaps_shorter:
  assumes "overlaps t p j" and "m \<le> j"
  shows "overlaps t p m \<longleftrightarrow> overlaps (take j p) p m"
  using assms by (auto simp: overlaps_suffix intro: suffix_shorter suffix_order.trans)

lemma is_next_fall:
  assumes "overlaps t p j" and "is_next p j k"
  shows "overlaps t p k" and "k < j" and "overlaps t p m \<Longrightarrow> m < j \<Longrightarrow> m \<le> k"
  using assms overlaps_shorter[OF assms(1)] by (auto simp: is_next_def)

text \<open>
  The loop invariant both loops share: \<open>st\<close> is a border of \<open>t\<close>, and no longer border
  below \<open>n\<close> can be extended by \<open>c\<close>.
\<close>

definition extendable_upto :: "'a list \<Rightarrow> 'a list \<Rightarrow> 'a \<Rightarrow> nat \<Rightarrow> nat \<Rightarrow> bool" where
  "extendable_upto p t c n st \<longleftrightarrow> overlaps t p st \<and> st < n \<and>
     (\<forall>m. overlaps t p m \<longrightarrow> st < m \<longrightarrow> m < n \<longrightarrow> p ! m \<noteq> c)"

lemma extendable_fall:
  assumes "extendable_upto p t c n st" and "p ! st \<noteq> c" and "is_next p st k"
  shows "extendable_upto p t c n k"
proof -
  have ov: "overlaps t p st"
    using assms(1) by (simp add: extendable_upto_def)
  note f = is_next_fall[OF ov assms(3)]
  show ?thesis
    using assms(1,2) f(1,2) f(3) unfolding extendable_upto_def
    by (metis linorder_neqE_nat not_less order.strict_trans)
qed

lemma build_pi_correct:
  assumes "pi_ok p tbl i" and "extendable_upto p (take i p) (p ! i) i len"
  shows "\<exists>tbl'. build_pi p tbl i len = Some tbl' \<and> pi_ok p tbl' (length p)"
  using assms
proof (induction "2 * (length p - i) + len" arbitrary: tbl i len rule: less_induct)
  case less
  have li: "len < i" and tl: "length tbl = length p" and il: "i \<le> length p"
    using less.prems by (auto simp: extendable_upto_def pi_ok_def)
  show ?case
  proof (cases "i < length p")
    case False
    with less.prems il show ?thesis by (subst build_pi.simps) (auto simp: pi_ok_def)
  next
    case True
    have tk: "take (Suc i) p = take i p @ [p ! i]"
      by (simp add: take_Suc_conv_app_nth True)
    have none: "overlaps (take i p) p m \<Longrightarrow> len < m \<Longrightarrow> m < i \<Longrightarrow> p ! m \<noteq> p ! i" for m
      using less.prems(2) by (simp add: extendable_upto_def)
    have upd: "pi_ok p (tbl[i := k]) (Suc i)" if "is_next p (Suc i) k" for k
      using that less.prems(1) True by (auto simp: pi_ok_def nth_list_update le_Suc_eq)
    have ext: "extendable_upto p (take (Suc i) p) (p ! Suc i) (Suc i) k" if "is_next p (Suc i) k" for k
      using that by (fastforce simp: is_next_def extendable_upto_def)
    consider (eq) "p ! i = p ! len" | (fall) "p ! i \<noteq> p ! len" "0 < len"
      | (zero) "p ! i \<noteq> p ! len" "len = 0" by blast
    then show ?thesis
    proof cases
      case eq
      have nx: "is_next p (Suc i) (Suc len)"
        unfolding is_next_def
      proof (intro conjI allI impI)
        show "Suc len < Suc i" using li by simp
        show "overlaps (take (Suc i) p) p (Suc len)"
          using less.prems(2) li True eq by (simp add: tk overlaps_snoc extendable_upto_def)
        fix m assume "m < Suc i" "overlaps (take (Suc i) p) p m"
        then show "m \<le> Suc len"
          using none by (cases m) (auto simp: tk overlaps_snoc, meson not_le)
      qed
      show ?thesis
        using less.hyps[OF _ upd[OF nx] ext[OF nx]] True eq by (subst build_pi.simps) simp
    next
      case fall
      have "is_next p len (tbl ! (len - 1))"
        using less.prems(1) fall li by (simp add: pi_ok_def)
      then have "extendable_upto p (take i p) (p ! i) i (tbl ! (len - 1))" and "tbl ! (len - 1) < len"
        using extendable_fall[OF less.prems(2)] fall(1) by (auto simp: is_next_def)
      with less.hyps[OF _ less.prems(1)] True fall show ?thesis
        by (subst build_pi.simps) simp
    next
      case zero
      have nx: "is_next p (Suc i) 0"
        unfolding is_next_def
      proof (intro conjI allI impI)
        fix m assume "m < Suc i" "overlaps (take (Suc i) p) p m"
        then show "m \<le> 0"
          using none zero by (cases m) (auto simp: tk overlaps_snoc, metis neq0_conv)
      qed simp_all
      show ?thesis
        using less.hyps[OF _ upd[OF nx] ext[OF nx]] True zero by (subst build_pi.simps) simp
    qed
  qed
qed

lemma kmp_fall_correct:
  assumes "pi_ok p tbl (length p)" and "extendable_upto p t c (length p) st"
  shows "\<exists>st'. kmp_fall p tbl c st = Some st' \<and> extendable_upto p t c (length p) st' \<and>
           (p ! st' = c \<or> st' = 0)"
  using assms
proof (induction st rule: less_induct)
  case (less st)
  show ?case
  proof (cases "0 < st \<and> p ! st \<noteq> c")
    case False
    with less.prems show ?thesis by (subst kmp_fall.simps) auto
  next
    case True
    have "is_next p st (tbl ! (st - 1))"
      using less.prems True by (auto simp: pi_ok_def extendable_upto_def)
    then have "extendable_upto p t c (length p) (tbl ! (st - 1))" and "tbl ! (st - 1) < st"
      using extendable_fall[OF less.prems(2)] True by (auto simp: is_next_def)
    with less.IH[OF _ less.prems(1)] True show ?thesis
      by (subst kmp_fall.simps) simp
  qed
qed

lemma kmp_step_correct:
  assumes tbl: "pi_ok p tbl (length p)" and ne: "p \<noteq> []" and mx: "is_max_overlap t p st"
  shows "\<exists>st'. kmp_step p tbl st c = Some st' \<and> is_max_overlap (t @ [c]) p st'"
proof -
  let ?st1 = "if st = length p then tbl ! (length p - 1) else st"
  have ov: "overlaps t p st" and big: "\<And>m. overlaps t p m \<Longrightarrow> m \<le> st"
    using mx by (auto simp: is_max_overlap_def)
  have nx: "is_next p (length p) (tbl ! (length p - 1))"
    using tbl ne by (simp add: pi_ok_def)
  have "extendable_upto p t c (length p) ?st1"
  proof (cases "st = length p")
    case True
    with ov have "overlaps t p (length p)" by simp
    from is_next_fall[OF this nx] True show ?thesis
      by (auto simp: extendable_upto_def dest: leD)
  next
    case False
    with ov big show ?thesis
      by (auto simp: extendable_upto_def overlaps_def dest: leD)
  qed
  then obtain st2 where f: "kmp_fall p tbl c ?st1 = Some st2"
    and e: "extendable_upto p t c (length p) st2" and z: "p ! st2 = c \<or> st2 = 0"
    using kmp_fall_correct[OF tbl] by blast
  have none: "overlaps t p m \<Longrightarrow> st2 < m \<Longrightarrow> m < length p \<Longrightarrow> p ! m \<noteq> c" for m
    using e by (simp add: extendable_upto_def)
  have "is_max_overlap (t @ [c]) p (if p ! st2 = c then Suc st2 else st2)"
    unfolding is_max_overlap_def
  proof (intro conjI allI impI)
    show "overlaps (t @ [c]) p (if p ! st2 = c then Suc st2 else st2)"
      using e z by (auto simp: overlaps_snoc extendable_upto_def)
    fix j assume j: "overlaps (t @ [c]) p j"
    show "j \<le> (if p ! st2 = c then Suc st2 else st2)"
    proof (cases j)
      case (Suc m)
      with j have m: "overlaps t p m" "m < length p" "p ! m = c"
        by (auto simp: overlaps_snoc)
      then have "\<not> st2 < m" using none by blast
      with m Suc z show ?thesis by (cases "m = st2") auto
    qed simp
  qed
  then show ?thesis
    by (simp add: kmp_step_def Let_def f)
qed

lemma kmp_run_correct:
  assumes "pi_ok p tbl (length p)" and "p \<noteq> []" and "is_max_overlap t p st"
  shows "\<exists>st'. kmp_run p tbl st cs = Some st' \<and> is_max_overlap (t @ cs) p st'"
  using assms(3)
proof (induction cs arbitrary: t st)
  case (Cons c cs)
  obtain st' where "kmp_step p tbl st c = Some st'" "is_max_overlap (t @ [c]) p st'"
    using kmp_step_correct[OF assms(1,2) Cons.prems] by blast
  with Cons.IH[of "t @ [c]" st'] show ?case by simp
qed simp

lemma overlaps_map_ids:
  assumes "\<And>a b. b \<in> set next \<Longrightarrow> f a = f b \<longleftrightarrow> a = b"
  shows "overlaps (map f prev) (map f next) k \<longleftrightarrow> overlaps prev next k"
proof -
  have "map f xs = map f ys \<longleftrightarrow> xs = ys" if "set ys \<subseteq> set next" for xs ys
    using that assms by (induction xs arbitrary: ys) (auto simp: Cons_eq_map_conv, metis+)
  then show ?thesis
    by (simp add: overlaps_def drop_map take_map set_take_subset)
qed

lemma find_line_overlap_linear_max:
  "\<exists>k. find_line_overlap_linear prev next = Some k \<and> is_max_overlap prev next k"
proof (cases "prev = [] \<or> next = []")
  case True
  then show ?thesis
    by (auto simp: find_line_overlap_linear_def is_max_overlap_def overlaps_def)
next
  case False
  obtain pat ids where r: "intern_lines next Map.empty 0 = (pat, ids)" by fastforce
  note pat = intern_lines_eq[OF r]
  have ne: "pat \<noteq> []" using pat(1) False by simp
  have "pi_ok pat (replicate (length pat) 0) 1"
    using ne by (auto simp: pi_ok_def is_next_def Suc_le_eq)
  moreover have "extendable_upto pat (take 1 pat) (pat ! 1) 1 0"
    by (simp add: extendable_upto_def)
  ultimately obtain tbl where t: "build_pi pat (replicate (length pat) 0) 1 0 = Some tbl"
    "pi_ok pat tbl (length pat)"
    using build_pi_correct by blast
  have "is_max_overlap [] pat 0"
    by (auto simp: is_max_overlap_def overlaps_def)
  then obtain k where k: "kmp_run pat tbl 0 (map (line_id ids) prev) = Some k"
    "is_max_overlap (map (line_id ids) prev) pat k"
    using kmp_run_correct[OF t(2) ne] by force
  have "is_max_overlap prev next k"
    using k(2) overlaps_map_ids[of "next" "line_id ids", OF pat(2)]
    by (simp add: is_max_overlap_def pat(1))
  with False r t k show ?thesis
    by (simp add: find_line_overlap_linear_def)
qed

section \<open>The budgeted scan\<close>

lemma compare_rows_Equal:
  "compare_rows prev next ps n i b = Equal b' \<Longrightarrow> i \<le> j \<Longrightarrow> j < n \<Longrightarrow> prev ! (ps + j) = next ! j"
proof (induction prev "next" ps n i b rule: compare_rows.induct)
  case (1 prev "next" ps n i b)
  then show ?case
    by (cases "i = j")
      (auto simp: compare_rows.simps[of prev "next" ps n i b] compare_rows.simps[of prev "next" ps n j b]
        split: if_splits)
qed

lemma compare_rows_Differ:
  "compare_rows prev next ps n i b = Differ b' \<Longrightarrow> \<exists>j. i \<le> j \<and> j < n \<and> prev ! (ps + j) \<noteq> next ! j"
proof (induction prev "next" ps n i b rule: compare_rows.induct)
  case (1 prev "next" ps n i b)
  show ?case
  proof (cases "i < n \<and> \<not> b - 1 < 0 \<and> prev ! (ps + i) = next ! i")
    case True
    with 1 obtain j where "Suc i \<le> j" "j < n" "prev ! (ps + j) \<noteq> next ! j"
      by (auto simp: compare_rows.simps[of prev "next" ps n i b])
    then show ?thesis by (auto intro!: exI[of _ j])
  next
    case False
    with "1.prems" show ?thesis
      by (auto simp: compare_rows.simps[of prev "next" ps n i b] split: if_splits)
  qed
qed

lemma overlaps_nth:
  "overlaps prev next k \<longleftrightarrow> k \<le> length prev \<and> k \<le> length next \<and>
     (\<forall>j < k. prev ! (length prev - k + j) = next ! j)"
  by (auto simp: overlaps_def list_eq_iff_nth_eq)

lemma scan_overlap_max:
  assumes "k \<le> length prev" and "k \<le> length next" and "\<And>j. overlaps prev next j \<Longrightarrow> j \<le> k"
  shows "\<exists>r. scan_overlap prev next k b = Some r \<and> is_max_overlap prev next r"
  using assms
proof (induction k arbitrary: b)
  case 0
  then show ?case by (auto simp: is_max_overlap_def)
next
  case (Suc k)
  show ?case
  proof (cases "compare_rows prev next (length prev - Suc k) (Suc k) 0 b")
    case Exhausted
    then show ?thesis using find_line_overlap_linear_max[of prev "next"] by simp
  next
    case (Differ b')
    have "\<not> overlaps prev next (Suc k)"
      using compare_rows_Differ[OF Differ] by (auto simp: overlaps_nth)
    then have "j \<le> k" if "overlaps prev next j" for j
      using Suc.prems(3)[OF that] that by (metis le_SucE)
    with Suc.IH[of b'] Suc.prems Differ show ?thesis by simp
  next
    case (Equal b')
    have "overlaps prev next (Suc k)"
      using compare_rows_Equal[OF Equal] Suc.prems by (auto simp: overlaps_nth)
    with Equal Suc.prems(3) show ?thesis by (auto simp: is_max_overlap_def)
  qed
qed

lemma find_line_overlap_max:
  "\<exists>k. find_line_overlap prev next = Some k \<and> is_max_overlap prev next k"
  unfolding find_line_overlap_def
  by (rule scan_overlap_max) (auto simp: overlaps_def)

section \<open>The stable merge, the reader anchor and the wheel\<close>

record 'a stable_capture_merge =
  sc_lines :: "'a list"
  sc_appended :: int
  sc_preserved :: bool

definition merge_captured_lines :: "'a list \<Rightarrow> 'a list \<Rightarrow> 'a stable_capture_merge option" where
  "merge_captured_lines prev next =
     (if prev = [] then
        Some \<lparr>sc_lines = next, sc_appended = int (length next), sc_preserved = False\<rparr>
      else case find_line_overlap prev next of
        None \<Rightarrow> None
      | Some overlap \<Rightarrow>
          (let minimum = min 8 (min (length prev) (length next)) in
           if minimum \<le> overlap then
             (let appended = drop overlap next in
              Some \<lparr>sc_lines = (if 0 < length appended then prev @ appended else prev),
                    sc_appended = int (length appended), sc_preserved = True\<rparr>)
           else Some \<lparr>sc_lines = next,
                      sc_appended = int (length next) - int (length prev), sc_preserved = False\<rparr>))"

text \<open>The common prefix of two row lists, counted by the loops of several components.\<close>

fun common_prefix :: "'a list \<Rightarrow> 'a list \<Rightarrow> nat" where
  "common_prefix (x # xs) (y # ys) = (if x = y then Suc (common_prefix xs ys) else 0)"
| "common_prefix _ _ = 0"

definition reader_anchor_line_delta :: "'a list \<Rightarrow> 'a list \<Rightarrow> rat \<Rightarrow> int" where
  "reader_anchor_line_delta prev next max_tail_rewrite =
     (let line_delta = int (length next) - int (length prev);
          min_length = min (length prev) (length next) in
      if line_delta = 0 \<or> min_length = 0 then 0
      else (let tolerated = max 0 \<lfloor>max_tail_rewrite\<rfloor>;
                required = max 1 (int min_length - tolerated) in
            if required \<le> int (common_prefix prev next) then line_delta else 0))"

lemma common_prefix_le: "common_prefix xs ys \<le> min (length xs) (length ys)"
  by (induction xs ys rule: common_prefix.induct) auto

lemma take_common_prefix: "take (common_prefix xs ys) xs = take (common_prefix xs ys) ys"
  by (induction xs ys rule: common_prefix.induct) auto

lemma common_prefix_maximal:
  "common_prefix xs ys < length xs \<Longrightarrow> common_prefix xs ys < length ys \<Longrightarrow>
     xs ! common_prefix xs ys \<noteq> ys ! common_prefix xs ys"
  by (induction xs ys rule: common_prefix.induct) auto

lemma common_prefix_longest:
  "take k xs = take k ys \<Longrightarrow> k \<le> length xs \<Longrightarrow> k \<le> length ys \<Longrightarrow> k \<le> common_prefix xs ys"
proof (induction xs ys arbitrary: k rule: common_prefix.induct)
  case (1 x xs y ys)
  then show ?case by (cases k) auto
qed auto

definition MAX_WHEEL_LINES_PER_FRAME :: int where
  "MAX_WHEEL_LINES_PER_FRAME = 12"

definition consume_whole_wheel_lines :: "rat \<Rightarrow> int \<times> rat" where
  "consume_whole_wheel_lines remainder =
     (let whole = (if 0 < remainder then \<lfloor>remainder\<rfloor> else \<lceil>remainder\<rceil>) in
      if whole = 0 then (0, remainder)
      else (let clamped = max (- MAX_WHEEL_LINES_PER_FRAME) (min MAX_WHEEL_LINES_PER_FRAME whole) in
            (clamped, remainder - of_int clamped)))"

text \<open>\<open>wheelDeltaToLines\<close>: non-finite deltas are ignored, the pixel mode is scaled.\<close>

definition wheel_delta_to_lines :: "jnum \<Rightarrow> int \<Rightarrow> rat \<Rightarrow> rat \<Rightarrow> rat \<Rightarrow> rat" where
  "wheel_delta_to_lines delta_y delta_mode line_height rows pixel_scale =
     (case delta_y of
        Fin d \<Rightarrow>
          (if d = 0 then 0
           else if delta_mode = 1 then d
           else if delta_mode = 2 then d * max 1 rows
           else (d / max 1 line_height) * pixel_scale)
      | _ \<Rightarrow> 0)"

section \<open>The overlap search as an interface\<close>

text \<open>
  The merge only relies on getting the greatest overlap. Stated once for any search with
  that contract, then read off for the code's search.
\<close>

locale overlap_search =
  fixes search :: "'a list \<Rightarrow> 'a list \<Rightarrow> nat option"
  assumes search_max: "\<exists>k. search prev next = Some k \<and> is_max_overlap prev next k"
begin

lemma search_total: "search prev next \<noteq> None"
  using search_max[of prev "next"] by auto

lemma search_unique:
  "search prev next = Some k \<longleftrightarrow> is_max_overlap prev next k"
  using search_max[of prev "next"] is_max_overlap_unique by auto

lemma search_overlap:
  "search prev next = Some k \<Longrightarrow> k \<le> length prev \<and> k \<le> length next \<and> take k next = drop (length prev - k) prev"
  by (simp add: search_unique is_max_overlap_def overlaps_def)

lemma merged_suffix:
  assumes "search prev next = Some k"
  shows "suffix next (prev @ drop k next)"
  using search_overlap[OF assms] append_take_drop_id[of "length prev - k" prev]
  by (metis append.assoc append_take_drop_id suffixI)

lemma search_whole_next:
  assumes "suffix next prev"
  shows "search prev next = Some (length next)"
  using assms by (auto simp: search_unique is_max_overlap_def overlaps_suffix)

end

interpretation line_overlap: overlap_search find_line_overlap
  by unfold_locales (rule find_line_overlap_max)

interpretation linear_overlap: overlap_search find_line_overlap_linear
  by unfold_locales (rule find_line_overlap_linear_max)

section \<open>Properties\<close>

text \<open>
  C17: The budgeted scan of \<open>findLineOverlap\<close> and its KMP fallback always return, they
  return the same number, and that number is the greatest \<open>k\<close> for which the last \<open>k\<close> rows
  of the previous capture are the first \<open>k\<close> rows of the next one.
\<close>

theorem find_line_overlap_correct:
  "\<exists>k. find_line_overlap prev next = Some k \<and> find_line_overlap_linear prev next = Some k \<and>
       is_max_overlap prev next k"
  using line_overlap.search_max[of prev "next"] linear_overlap.search_unique by blast

lemma merge_captured_total: "merge_captured_lines prev next \<noteq> None"
  using line_overlap.search_total[of prev "next"]
  by (auto simp: merge_captured_lines_def Let_def split: option.splits)

lemma merge_captured_cases:
  assumes "merge_captured_lines prev next = Some m"
  obtains (replaced) "sc_lines m = next" "\<not> sc_preserved m"
      "sc_appended m = int (length next) - int (length prev)"
    | (kept) k where "prev \<noteq> []" "find_line_overlap prev next = Some k"
      "min 8 (min (length prev) (length next)) \<le> k"
      "sc_lines m = prev @ drop k next" "sc_appended m = int (length next) - int k" "sc_preserved m"
proof (cases "prev = []")
  case True
  with assms replaced show ?thesis by (auto simp: merge_captured_lines_def)
next
  case False
  then obtain k where k: "find_line_overlap prev next = Some k"
    using line_overlap.search_total by blast
  note le = line_overlap.search_overlap[OF k]
  show ?thesis
  proof (cases "min 8 (min (length prev) (length next)) \<le> k")
    case True
    with False k assms le kept show ?thesis
      by (auto simp: merge_captured_lines_def Let_def of_nat_diff split: if_splits)
  next
    case no: False
    with False k assms replaced show ?thesis
      by (auto simp: merge_captured_lines_def Let_def)
  qed
qed

text \<open>
  C24: Merging a capture never loses a row of it: the merged rows end with the whole next
  capture, the reported count is exactly the growth, rows already shown stay a prefix
  whenever the merge says so, and feeding the same capture again appends nothing.
\<close>

theorem merge_captured_sound:
  assumes "merge_captured_lines prev next = Some m"
  shows "suffix next (sc_lines m) \<and>
    int (length (sc_lines m)) = int (length prev) + sc_appended m \<and>
    (sc_preserved m \<longrightarrow> prefix prev (sc_lines m)) \<and>
    (\<exists>m'. merge_captured_lines (sc_lines m) next = Some m' \<and>
          sc_lines m' = sc_lines m \<and> sc_appended m' = 0)"
proof (intro conjI)
  show suf: "suffix next (sc_lines m)"
    using assms by (cases rule: merge_captured_cases) (auto dest: line_overlap.merged_suffix)
  show "int (length (sc_lines m)) = int (length prev) + sc_appended m"
    using assms
    by (cases rule: merge_captured_cases) (auto dest: line_overlap.search_overlap simp: of_nat_diff)
  show "sc_preserved m \<longrightarrow> prefix prev (sc_lines m)"
    using assms by (cases rule: merge_captured_cases) auto
  show "\<exists>m'. merge_captured_lines (sc_lines m) next = Some m' \<and>
              sc_lines m' = sc_lines m \<and> sc_appended m' = 0"
    using suf line_overlap.search_whole_next[OF suf]
    by (auto simp: merge_captured_lines_def Let_def suffix_length_le)
qed

theorem merge_captured_sound_witness:
  "\<exists>m. merge_captured_lines [1, 2, 3] [2, 3, 4 :: nat] = Some m \<and>
       suffix [2, 3, 4] (sc_lines m)"
  using merge_captured_total[of "[1, 2, 3 :: nat]" "[2, 3, 4]"] merge_captured_sound by blast

text \<open>
  The reader anchor moves only by the whole growth, and only when every row but the
  tolerated tail is unchanged; a capture that differs from the previous one in at most the
  tolerated number of last rows always moves it.
\<close>

theorem reader_anchor_line_delta_spec:
  "reader_anchor_line_delta prev next t =
     (if prev \<noteq> [] \<and> next \<noteq> [] \<and>
         (let n = nat (max 1 (int (min (length prev) (length next)) - max 0 \<lfloor>t\<rfloor>))
          in take n prev = take n next)
      then int (length next) - int (length prev) else 0)"
proof -
  let ?mn = "min (length prev) (length next)"
  let ?n = "nat (max 1 (int ?mn - max 0 \<lfloor>t\<rfloor>))"
  have "?n \<le> common_prefix prev next \<longleftrightarrow> take ?n prev = take ?n next" if "?mn \<noteq> 0"
  proof
    assume le: "?n \<le> common_prefix prev next"
    then have "take ?n (take (common_prefix prev next) prev) = take ?n (take (common_prefix prev next) next)"
      by (simp only: take_common_prefix)
    with le show "take ?n prev = take ?n next" by (simp only: take_take min_absorb1)
  next
    assume "take ?n prev = take ?n next"
    then show "?n \<le> common_prefix prev next"
      by (rule common_prefix_longest) (use that in \<open>cases prev; cases "next"; auto simp: nat_le_iff\<close>)+
  qed
  moreover have "?mn = 0 \<longleftrightarrow> prev = [] \<or> next = []"
    by (auto simp: min_def)
  ultimately show ?thesis
    by (auto simp: reader_anchor_line_delta_def Let_def nat_le_iff)
qed

text \<open>
  Turning a wheel remainder into whole lines neither loses nor invents movement: lines
  plus remainder is the input, one frame moves at most twelve lines in the input's
  direction, and below the cap less than one line stays behind.
\<close>

theorem consume_whole_wheel_lines_conserves:
  assumes "consume_whole_wheel_lines r = (w, r')"
  shows "of_int w + r' = r \<and> \<bar>w\<bar> \<le> MAX_WHEEL_LINES_PER_FRAME \<and>
    (0 < w \<longrightarrow> 0 < r) \<and> (w < 0 \<longrightarrow> r < 0) \<and>
    (\<bar>w\<bar> < MAX_WHEEL_LINES_PER_FRAME \<longrightarrow> \<bar>r'\<bar> < 1)"
  using assms
  by (auto simp: consume_whole_wheel_lines_def Let_def MAX_WHEEL_LINES_PER_FRAME_def
      abs_if split: if_splits) linarith+

theorem consume_whole_wheel_lines_conserves_witness:
  "consume_whole_wheel_lines 13 = (12, 1) \<and> of_int 12 + (1 :: rat) = 13"
  using consume_whole_wheel_lines_conserves[of 13 12 1]
  by (simp add: consume_whole_wheel_lines_def MAX_WHEEL_LINES_PER_FRAME_def Let_def)

end
