(* ===== verification/Text_Codec.thy ===== *)
theory Text_Codec
  imports Prelude
begin

text \<open>
  Text as the sources use it: iteration of a string by code point, \<open>TextEncoder\<close>,
  decimal and hexadecimal numerals, and \<open>JSON.stringify\<close> of the values the wire
  protocol sends. \<open>utf8ByteLength\<close> (\<open>core/src/paste.ts\<close>) and \<open>fnv1a32\<close>
  (\<open>core/src/protocol.ts\<close>) are modelled here because several components use them.
\<close>

unbundle bit_operations_syntax

section \<open>Code points\<close>

definition is_high_surrogate :: "cunit \<Rightarrow> bool" where
  "is_high_surrogate u \<longleftrightarrow> 0xD800 \<le> u \<and> u \<le> 0xDBFF"

definition is_low_surrogate :: "cunit \<Rightarrow> bool" where
  "is_low_surrogate u \<longleftrightarrow> 0xDC00 \<le> u \<and> u \<le> 0xDFFF"

text \<open>\<open>for (const ch of text)\<close>: one or two code units at a time.\<close>

fun js_chars :: "jstr \<Rightarrow> jstr list" where
  "js_chars [] = []"
| "js_chars [u] = [[u]]"
| "js_chars (u # v # us) =
     (if is_high_surrogate u \<and> is_low_surrogate v then [u, v] # js_chars us
      else [u] # js_chars (v # us))"

text \<open>\<open>ch.codePointAt(0)\<close> of such a piece.\<close>

fun char_cp :: "jstr \<Rightarrow> nat" where
  "char_cp [] = 0"
| "char_cp [u] = unat u"
| "char_cp (u # v # us) =
     (if is_high_surrogate u \<and> is_low_surrogate v
      then 0x10000 + (unat u - 0xD800) * 0x400 + (unat v - 0xDC00) else unat u)"

definition code_points :: "jstr \<Rightarrow> nat list" where
  "code_points s = map char_cp (js_chars s)"

lemma concat_js_chars [simp]: "concat (js_chars s) = s"
  by (induction s rule: js_chars.induct) auto

lemma js_chars_pieces: "c \<in> set (js_chars s) \<Longrightarrow> length c = 1 \<or> length c = 2"
  by (induction s rule: js_chars.induct) (auto split: if_splits)

lemma js_chars_not_Nil: "c \<in> set (js_chars s) \<Longrightarrow> c \<noteq> []"
  using js_chars_pieces[of c s] by auto

lemma js_chars_eq_Nil [simp]: "js_chars s = [] \<longleftrightarrow> s = []"
  by (cases s rule: js_chars.cases) auto

section \<open>UTF-8\<close>

type_synonym byte = "8 word"

definition utf8_cp :: "nat \<Rightarrow> byte list" where
  "utf8_cp cp =
     (if cp \<le> 0x7f then [of_nat cp]
      else if cp \<le> 0x7ff then [of_nat (0xc0 + cp div 64), of_nat (0x80 + cp mod 64)]
      else if 0xd800 \<le> cp \<and> cp \<le> 0xdfff then [0xef, 0xbf, 0xbd]
      else if cp \<le> 0xffff then
        [of_nat (0xe0 + cp div 4096), of_nat (0x80 + cp div 64 mod 64), of_nat (0x80 + cp mod 64)]
      else [of_nat (0xf0 + cp div 262144), of_nat (0x80 + cp div 4096 mod 64),
            of_nat (0x80 + cp div 64 mod 64), of_nat (0x80 + cp mod 64)])"

text \<open>\<open>new TextEncoder().encode(value)\<close>: lone surrogates become U+FFFD.\<close>

definition utf8_encode :: "jstr \<Rightarrow> byte list" where
  "utf8_encode s = concat (map utf8_cp (code_points s))"

text \<open>The loop \<open>utf8ByteLength\<close> falls back to where there is no \<open>TextEncoder\<close>.\<close>

definition utf8_cp_length :: "nat \<Rightarrow> nat" where
  "utf8_cp_length cp = (if cp \<le> 0x7f then 1 else if cp \<le> 0x7ff then 2 else if cp \<le> 0xffff then 3 else 4)"

fun utf8_length_loop :: "nat list \<Rightarrow> nat \<Rightarrow> nat" where
  "utf8_length_loop [] bytes = bytes"
| "utf8_length_loop (cp # cps) bytes = utf8_length_loop cps (bytes + utf8_cp_length cp)"

definition utf8_byte_length :: "bool \<Rightarrow> jstr \<Rightarrow> nat" where
  "utf8_byte_length has_encoder text =
     (if has_encoder then length (utf8_encode text) else utf8_length_loop (code_points text) 0)"

lemma length_utf8_cp: "length (utf8_cp cp) = utf8_cp_length cp"
  by (simp add: utf8_cp_def utf8_cp_length_def)

lemma utf8_length_loop_sum: "utf8_length_loop cps n = n + sum_list (map utf8_cp_length cps)"
  by (induction cps arbitrary: n) auto

lemma length_utf8_encode: "length (utf8_encode s) = sum_list (map utf8_cp_length (code_points s))"
  by (simp add: utf8_encode_def length_concat comp_def length_utf8_cp)

lemma utf8_cp_length_bounds: "1 \<le> utf8_cp_length cp" "utf8_cp_length cp \<le> 4"
  by (auto simp: utf8_cp_length_def)

text \<open>
  The fallback loop of \<open>utf8ByteLength\<close> counts exactly the bytes \<open>TextEncoder\<close>
  produces, on every string, lone surrogates included.
\<close>

theorem utf8_byte_length_fallback:
  "utf8_byte_length False text = utf8_byte_length True text"
  by (simp add: utf8_byte_length_def utf8_length_loop_sum length_utf8_encode)

section \<open>Numerals\<close>

fun dec_nat :: "nat \<Rightarrow> jstr" where
  "dec_nat n = (if n < 10 then [of_nat (48 + n)] else dec_nat (n div 10) @ [of_nat (48 + n mod 10)])"

declare dec_nat.simps [simp del]

definition dec_int :: "int \<Rightarrow> jstr" where
  "dec_int i = (if i < 0 then 45 # dec_nat (nat (- i)) else dec_nat (nat i))"

lemma digit_unit_value: "m < 10 \<Longrightarrow> unat (of_nat (48 + m) :: cunit) = 48 + m"
  by (simp only: unat_of_nat take_bit_nat_def) simp

lemma dec_nat_digits: "c \<in> set (dec_nat n) \<Longrightarrow> 48 \<le> unat c \<and> unat c \<le> 57"
proof (induction n rule: dec_nat.induct)
  case (1 n)
  note digit = digit_unit_value
  show ?case
  proof (cases "n < 10")
    case True
    then have "c = of_nat (48 + n)" using "1.prems" by (subst (asm) dec_nat.simps) simp
    then show ?thesis using digit[OF True] True by simp
  next
    case False
    then have "c \<in> set (dec_nat (n div 10)) \<or> c = of_nat (48 + n mod 10)"
      using "1.prems" by (subst (asm) dec_nat.simps) auto
    then show ?thesis using "1.IH"[OF False] digit[of "n mod 10"] by auto
  qed
qed

lemma dec_nat_no_comma: "44 \<notin> set (dec_nat n)"
  using dec_nat_digits[of 44 n] by auto

definition dec_read :: "jstr \<Rightarrow> nat" where
  "dec_read s = foldl (\<lambda>v c. 10 * v + (unat c - 48)) 0 s"

lemma dec_read_dec_nat: "dec_read (dec_nat n) = n"
proof (induction n rule: dec_nat.induct)
  case (1 n)
  note digit = digit_unit_value
  show ?case
  proof (cases "n < 10")
    case True
    then show ?thesis using digit[OF True] by (subst dec_nat.simps) (simp add: dec_read_def)
  next
    case False
    then have "dec_read (dec_nat n) = 10 * dec_read (dec_nat (n div 10)) + (unat (of_nat (48 + n mod 10) :: cunit) - 48)"
      by (subst dec_nat.simps) (simp add: dec_read_def)
    then show ?thesis using "1.IH"[OF False] digit[of "n mod 10"] by simp
  qed
qed

lemma dec_nat_inject [simp]: "dec_nat m = dec_nat n \<longleftrightarrow> m = n"
  by (metis dec_read_dec_nat)

definition hex_digit :: "nat \<Rightarrow> cunit" where
  "hex_digit n = (if n < 10 then of_nat (48 + n) else of_nat (87 + n))"

text \<open>\<open>n.toString(16).padStart(k, "0")\<close> for \<open>n < 16 ^ k\<close>.\<close>

fun hex_pad :: "nat \<Rightarrow> nat \<Rightarrow> jstr" where
  "hex_pad 0 n = []"
| "hex_pad (Suc k) n = hex_pad k (n div 16) @ [hex_digit (n mod 16)]"

lemma length_hex_pad [simp]: "length (hex_pad k n) = k"
  by (induction k arbitrary: n) auto

section \<open>FNV-1a\<close>

definition fnv_step :: "32 word \<Rightarrow> byte \<Rightarrow> 32 word" where
  "fnv_step h b = (h XOR ucast b) * 0x01000193"

definition fnv_hash :: "byte list \<Rightarrow> 32 word" where
  "fnv_hash bs = foldl fnv_step 0x811c9dc5 bs"

definition fnv1a32 :: "jstr \<Rightarrow> jstr" where
  "fnv1a32 value = hex_pad 8 (unat (fnv_hash (utf8_encode value)))"

lemma length_fnv1a32 [simp]: "length (fnv1a32 s) = 8"
  by (simp add: fnv1a32_def)

section \<open>JSON text\<close>

text \<open>
  What the protocol serializes: strings, integers, booleans, null, arrays and objects
  with ASCII keys.
\<close>

datatype wire =
    WNull
  | WBool bool
  | WInt int
  | WStr jstr
  | WArr "wire list"
  | WObj "(string \<times> wire) list"

definition json_unit :: "cunit \<Rightarrow> jstr" where
  "json_unit u =
     (if u = 0x22 then [0x5c, 0x22]
      else if u = 0x5c then [0x5c, 0x5c]
      else if u = 8 then js [CHR 0x5c, CHR ''b'']
      else if u = 9 then js [CHR 0x5c, CHR ''t'']
      else if u = 10 then js [CHR 0x5c, CHR ''n'']
      else if u = 12 then js [CHR 0x5c, CHR ''f'']
      else if u = 13 then js [CHR 0x5c, CHR ''r'']
      else if u < 0x20 \<or> is_high_surrogate u \<or> is_low_surrogate u
        then js [CHR 0x5c, CHR ''u''] @ hex_pad 4 (unat u)
      else [u])"

fun json_piece :: "jstr \<Rightarrow> jstr" where
  "json_piece [u] = json_unit u"
| "json_piece us = us"

definition json_string :: "jstr \<Rightarrow> jstr" where
  "json_string s = 0x22 # concat (map json_piece (js_chars s)) @ [0x22]"

fun json_text :: "wire \<Rightarrow> jstr" where
  "json_text WNull = js ''null''"
| "json_text (WBool b) = (if b then js ''true'' else js ''false'')"
| "json_text (WInt i) = dec_int i"
| "json_text (WStr s) = json_string s"
| "json_text (WArr vs) = js ''['' @ join_units (of_char CHR '','') (map json_text vs) @ js '']''"
| "json_text (WObj kvs) =
     js ''{'' @ join_units (of_char CHR '','')
       (map (\<lambda>(k, v). json_string (js k) @ js '':'' @ json_text v) kvs) @ js ''}''"

definition utf8_size :: "jstr \<Rightarrow> nat" where
  "utf8_size s = length (utf8_encode s)"

text \<open>What \<open>JSON.parse\<close> makes of that text.\<close>

fun wire_val :: "wire \<Rightarrow> jval" where
  "wire_val WNull = JNull"
| "wire_val (WBool b) = JBool b"
| "wire_val (WInt i) = JNum (int_num i)"
| "wire_val (WStr s) = JStr s"
| "wire_val (WArr vs) = JArr (map wire_val vs)"
| "wire_val (WObj kvs) = JObj (map (\<lambda>(k, v). (k, wire_val v)) kvs)"

lemma jget_map_wire:
  "jget (map (\<lambda>(k, v). (k, wire_val v)) kvs) k =
     (case map_of kvs k of None \<Rightarrow> JUndef | Some w \<Rightarrow> wire_val w)"
  by (induction kvs) auto

lemma jhas_map_wire:
  "jhas (map (\<lambda>(k, v). (k, wire_val v)) kvs) k \<longleftrightarrow> map_of kvs k \<noteq> None"
  by (induction kvs) auto

end
