(* ===== verification/Mux_Protocol.thy ===== *)
theory Mux_Protocol
  imports Text_Codec Terminal_Scroll
begin

text \<open>
  The live part of \<open>core/src/protocol.ts\<close>: output frames, line deltas and their
  validation, the archive/live seam carried by frames, and the choice between a full
  frame and a delta. Values that come off the wire are \<^typ>\<open>jval\<close>; what the server
  builds is a record, and \<open>*_wire\<close> is its JSON.
\<close>

section \<open>Cursor, screen and seam\<close>

record mux_cursor =
  mc_row :: int
  mc_col :: int

datatype preview_state = PLive | POrphaned | PEnded | PUnavailable

record pane_screen =
  ps_preview_state :: "preview_state option"
  ps_preview_has_frame :: "bool option"
  ps_preview_at :: "int option"
  ps_alt :: bool
  ps_mouse_sgr :: bool
  ps_mouse_any :: bool

record history_boundary =
  hb_generation :: jstr
  hb_live_start :: int
  hb_wal_sequence :: jstr
  hb_wal_offset :: int

datatype boundary_transition = Same | Advance | Regression | GenerationMismatch

text \<open>\<open>isMuxCursor\<close> and \<open>isMuxPaneScreen\<close>: type guards over an unknown value.\<close>

definition num_field :: "jval \<Rightarrow> jnum option" where
  "num_field v = (case v of JNum n \<Rightarrow> Some n | _ \<Rightarrow> None)"

definition obj_fields :: "jval \<Rightarrow> (string \<times> jval) list" where
  "obj_fields v = (case v of JObj kvs \<Rightarrow> kvs | _ \<Rightarrow> [])"

definition is_object :: "jval \<Rightarrow> bool" where
  "is_object v \<longleftrightarrow> (case v of JObj _ \<Rightarrow> True | JArr _ \<Rightarrow> True | _ \<Rightarrow> False)"

definition is_integer_val :: "jval \<Rightarrow> bool" where
  "is_integer_val v = (case v of JNum n \<Rightarrow> is_integer_num n | _ \<Rightarrow> False)"

definition is_bool_val :: "jval \<Rightarrow> bool" where
  "is_bool_val v = (case v of JBool _ \<Rightarrow> True | _ \<Rightarrow> False)"

definition val_int :: "jval \<Rightarrow> int" where
  "val_int v = (case v of JNum n \<Rightarrow> num_int n | _ \<Rightarrow> 0)"

definition is_mux_cursor :: "jval \<Rightarrow> bool" where
  "is_mux_cursor v =
     (if v = JNull then True
      else if \<not> is_object v then False
      else (let c = obj_fields v in
            is_integer_val (jget c ''row'') \<and> is_integer_val (jget c ''col'') \<and>
            0 \<le> val_int (jget c ''col'')))"

fun nonneg_finite :: "jval \<Rightarrow> bool" where
  "nonneg_finite (JNum (Fin q)) = (0 \<le> q)"
| "nonneg_finite _ = False"

definition is_mux_pane_screen :: "jval \<Rightarrow> bool" where
  "is_mux_pane_screen v =
     (if v = JNull then True
      else if \<not> is_object v then False
      else (let s = obj_fields v; lastok = jget s ''previewLastSuccessfulAt'' in
            is_bool_val (jget s ''alt'') \<and> is_bool_val (jget s ''mouseSgr'') \<and>
            is_bool_val (jget s ''mouseAny'') \<and> (lastok = JUndef \<or> nonneg_finite lastok)))"

section \<open>The archive/live seam\<close>

definition digit_unit :: "cunit \<Rightarrow> bool" where
  "digit_unit u \<longleftrightarrow> 48 \<le> u \<and> u \<le> 57"

text \<open>\<open>/^(0|[1-9][0-9]{0,19})$/\<close>.\<close>

fun wal_sequence_ok :: "jstr \<Rightarrow> bool" where
  "wal_sequence_ok [] = False"
| "wal_sequence_ok (u # us) =
     (u = 48 \<and> us = [] \<or> 49 \<le> u \<and> u \<le> 57 \<and> length us \<le> 19 \<and> list_all digit_unit us)"

definition safe_count_val :: "int \<Rightarrow> jval \<Rightarrow> bool" where
  "safe_count_val lo v = (case v of JNum n \<Rightarrow> safe_count lo n | _ \<Rightarrow> False)"

definition str_val :: "jval \<Rightarrow> jstr option" where
  "str_val v = (case v of JStr s \<Rightarrow> Some s | _ \<Rightarrow> None)"

definition validate_mux_history_boundary :: "jval \<Rightarrow> history_boundary option" where
  "validate_mux_history_boundary v =
     (case v of
        JObj b \<Rightarrow>
          (case (str_val (jget b ''generation''), str_val (jget b ''walSequence'')) of
             (Some g, Some w) \<Rightarrow>
               (if g \<noteq> [] \<and> length g \<le> 256 \<and> safe_count_val 0 (jget b ''liveStartLine'') \<and>
                   wal_sequence_ok w \<and> safe_count_val 0 (jget b ''walOffset'')
                then Some \<lparr>hb_generation = g, hb_live_start = val_int (jget b ''liveStartLine''),
                           hb_wal_sequence = w, hb_wal_offset = val_int (jget b ''walOffset'')\<rparr>
                else None)
           | _ \<Rightarrow> None)
      | _ \<Rightarrow> None)"

definition valid_boundary :: "history_boundary \<Rightarrow> bool" where
  "valid_boundary b \<longleftrightarrow> hb_generation b \<noteq> [] \<and> length (hb_generation b) \<le> 256 \<and>
     safe_nonneg (hb_live_start b) \<and> wal_sequence_ok (hb_wal_sequence b) \<and> safe_nonneg (hb_wal_offset b)"

definition boundary_wire :: "history_boundary \<Rightarrow> wire" where
  "boundary_wire b = WObj
     [(''generation'', WStr (hb_generation b)), (''liveStartLine'', WInt (hb_live_start b)),
      (''walSequence'', WStr (hb_wal_sequence b)), (''walOffset'', WInt (hb_wal_offset b))]"

text \<open>Strings compare by code unit.\<close>

fun jstr_less :: "jstr \<Rightarrow> jstr \<Rightarrow> bool" where
  "jstr_less _ [] = False"
| "jstr_less [] (v # vs) = True"
| "jstr_less (u # us) (v # vs) = (u < v \<or> u = v \<and> jstr_less us vs)"

definition compare_decimal_strings :: "jstr \<Rightarrow> jstr \<Rightarrow> int" where
  "compare_decimal_strings left right =
     (if length left \<noteq> length right then (if length left < length right then -1 else 1)
      else if left = right then 0
      else if jstr_less left right then -1 else 1)"

definition mux_history_boundary_transition ::
  "history_boundary \<Rightarrow> history_boundary \<Rightarrow> boundary_transition" where
  "mux_history_boundary_transition previous next =
     (if hb_generation previous \<noteq> hb_generation next then GenerationMismatch
      else
        (let sequence_order = compare_decimal_strings (hb_wal_sequence previous) (hb_wal_sequence next);
             offset_order = sgn (hb_wal_offset next - hb_wal_offset previous) in
         if hb_live_start next < hb_live_start previous \<or> 0 < sequence_order \<or> offset_order < 0 \<or>
            (sequence_order = 0) \<noteq> (offset_order = 0) \<or>
            hb_live_start previous < hb_live_start next \<and> sequence_order = 0
         then Regression
         else if hb_live_start next = hb_live_start previous \<and> sequence_order = 0 \<and>
                 hb_wal_offset next = hb_wal_offset previous
         then Same
         else Advance))"

subsection \<open>Decimal strings order like the numbers they write\<close>

definition dec_value :: "jstr \<Rightarrow> nat" where
  "dec_value s = foldl (\<lambda>n u. 10 * n + (unat u - 48)) 0 s"

lemma dec_value_foldl: "foldl (\<lambda>n u. 10 * n + (unat u - 48)) n s = n * 10 ^ length s + dec_value s"
  unfolding dec_value_def
proof (induction s arbitrary: n)
  case (Cons u s)
  show ?case
    using Cons.IH[of "10 * n + (unat u - 48)"] Cons.IH[of "unat u - 48"] by (simp add: algebra_simps)
qed simp

lemma dec_value_Nil [simp]: "dec_value [] = 0"
  by (simp add: dec_value_def)

lemma dec_value_Cons: "dec_value (u # s) = (unat u - 48) * 10 ^ length s + dec_value s"
  using dec_value_foldl[of "unat u - 48" s] by (simp add: dec_value_def)

lemma digit_unit_unat: "digit_unit u \<longleftrightarrow> 48 \<le> unat u \<and> unat u \<le> 57"
  by (auto simp: digit_unit_def word_le_nat_alt)

lemma dec_value_bound: "list_all digit_unit s \<Longrightarrow> dec_value s < 10 ^ length s"
proof (induction s)
  case (Cons u s)
  then have "dec_value s < 10 ^ length s" and "unat u - 48 \<le> 9"
    by (auto simp: digit_unit_unat)
  then have "(unat u - 48) * 10 ^ length s + dec_value s < 9 * 10 ^ length s + 10 ^ length s"
    by (intro add_le_less_mono mult_right_mono) auto
  then show ?case by (simp add: dec_value_Cons)
qed simp

lemma dec_less_iff:
  assumes "list_all digit_unit s" and "list_all digit_unit t" and "length s = length t"
  shows "(jstr_less s t \<longleftrightarrow> dec_value s < dec_value t) \<and> (s = t \<longleftrightarrow> dec_value s = dec_value t)"
  using assms(3,1,2)
proof (induction s t rule: list_induct2)
  case (Cons u s v t)
  let ?B = "10 ^ length t"
  have b: "dec_value s < ?B" "dec_value t < ?B"
    using Cons.prems Cons.hyps dec_value_bound[of s] dec_value_bound[of t] by auto
  have ih: "jstr_less s t \<longleftrightarrow> dec_value s < dec_value t" "s = t \<longleftrightarrow> dec_value s = dec_value t"
    using Cons by auto
  obtain a c where a: "unat u = 48 + a" and c: "unat v = 48 + c"
    using Cons.prems by (auto simp: digit_unit_unat dest!: le_Suc_ex)
  have uv: "u < v \<longleftrightarrow> a < c" "u = v \<longleftrightarrow> a = c"
    using a c by (auto simp: word_less_nat_alt word_unat_eq_iff)
  have lt: "a < c \<Longrightarrow> a * ?B + dec_value s < c * ?B + dec_value t" for a c
  proof -
    assume "a < c"
    then have "Suc a * ?B \<le> c * ?B" by (intro mult_right_mono) auto
    with b(1) show ?thesis by simp
  qed
  have "a * ?B + dec_value s < c * ?B + dec_value t \<longleftrightarrow> a < c \<or> a = c \<and> dec_value s < dec_value t"
  proof (cases a c rule: linorder_cases)
    case greater
    then have "Suc c * ?B \<le> a * ?B" by (intro mult_right_mono) auto
    with b(2) greater show ?thesis by auto
  qed (use lt in auto)
  moreover have "a * ?B + dec_value s = c * ?B + dec_value t \<longleftrightarrow> a = c \<and> dec_value s = dec_value t"
  proof (cases a c rule: linorder_cases)
    case less
    with lt[OF this] show ?thesis by auto
  next
    case greater
    then have "Suc c * ?B \<le> a * ?B" by (intro mult_right_mono) auto
    with b(2) greater show ?thesis by auto
  qed auto
  ultimately show ?case
    using Cons.hyps ih uv by (simp add: dec_value_Cons a c)
qed simp

lemma wal_sequence_digits: "wal_sequence_ok s \<Longrightarrow> list_all digit_unit s"
  by (cases s) (auto simp: digit_unit_def word_le_nat_alt)

lemma wal_sequence_lead:
  assumes "wal_sequence_ok s" and "1 < length s"
  shows "10 ^ (length s - 1) \<le> dec_value s"
proof (cases s)
  case (Cons u us)
  then have "49 \<le> unat u"
    using assms by (auto simp: word_le_nat_alt)
  then obtain a where "unat u = 49 + a" by (auto dest: le_Suc_ex)
  then show ?thesis by (simp add: Cons dec_value_Cons)
qed (use assms in auto)

lemma wal_sequence_shorter:
  assumes "wal_sequence_ok s" and "wal_sequence_ok t" and "length s < length t"
  shows "dec_value s < dec_value t"
proof -
  have "0 < length s" using assms(1) by (cases s) auto
  then have "10 ^ length s \<le> (10::nat) ^ (length t - 1)"
    using assms(3) by (intro power_increasing) auto
  then show ?thesis
    using dec_value_bound[OF wal_sequence_digits[OF assms(1)]] wal_sequence_lead[OF assms(2)]
      assms(3) \<open>0 < length s\<close> by linarith
qed

lemma compare_decimal_value:
  assumes "wal_sequence_ok s" and "wal_sequence_ok t"
  shows "compare_decimal_strings s t = sgn (int (dec_value s) - int (dec_value t))"
proof (cases "length s = length t")
  case True
  with dec_less_iff[OF wal_sequence_digits[OF assms(1)] wal_sequence_digits[OF assms(2)]]
  show ?thesis by (auto simp: compare_decimal_strings_def sgn_if)
next
  case False
  then consider "length s < length t" | "length t < length s" by linarith
  then show ?thesis
    using wal_sequence_shorter[OF assms] wal_sequence_shorter[OF assms(2,1)]
    by cases (auto simp: compare_decimal_strings_def sgn_if)
qed

section \<open>The seam as an ordering\<close>

text \<open>
  What a seam means: a generation and three coordinates, the WAL sequence read as the
  number it writes. \<open>advances\<close> is the strict order frames have to follow.
\<close>

record seam =
  sm_generation :: jstr
  sm_start :: int
  sm_sequence :: nat
  sm_offset :: int

definition seam_of :: "history_boundary \<Rightarrow> seam" where
  "seam_of b = \<lparr>sm_generation = hb_generation b, sm_start = hb_live_start b,
     sm_sequence = dec_value (hb_wal_sequence b), sm_offset = hb_wal_offset b\<rparr>"

definition advances :: "seam \<Rightarrow> seam \<Rightarrow> bool" where
  "advances p n \<longleftrightarrow> sm_generation p = sm_generation n \<and> sm_start p \<le> sm_start n \<and>
     sm_sequence p < sm_sequence n \<and> sm_offset p < sm_offset n"

definition classify_seam :: "seam \<Rightarrow> seam \<Rightarrow> boundary_transition" where
  "classify_seam p n =
     (if sm_generation p \<noteq> sm_generation n then GenerationMismatch
      else if p = n then Same
      else if advances p n then Advance
      else Regression)"

lemma advances_trans: "advances a b \<Longrightarrow> advances b c \<Longrightarrow> advances a c"
  by (auto simp: advances_def)

lemma advances_irrefl: "\<not> advances a a"
  by (simp add: advances_def)

text \<open>
  C25: On validated seams \<open>muxHistoryBoundaryTransition\<close> is exactly the abstract
  classification: equal coordinates are "same", a seam is an advance only when sequence
  and byte offset both grow and the live start does not go back, everything else of the
  same generation is a regression.
\<close>

theorem boundary_transition_refines:
  assumes "valid_boundary p" and "valid_boundary n"
  shows "mux_history_boundary_transition p n = classify_seam (seam_of p) (seam_of n)"
proof -
  have "compare_decimal_strings (hb_wal_sequence p) (hb_wal_sequence n) =
      sgn (int (dec_value (hb_wal_sequence p)) - int (dec_value (hb_wal_sequence n)))"
    using assms by (auto simp: valid_boundary_def intro: compare_decimal_value)
  then show ?thesis
    by (auto simp: mux_history_boundary_transition_def classify_seam_def advances_def seam_of_def
        Let_def sgn_if)
qed

definition example_boundary :: "int \<Rightarrow> string \<Rightarrow> int \<Rightarrow> history_boundary" where
  "example_boundary start sq off =
     \<lparr>hb_generation = js ''g'', hb_live_start = start, hb_wal_sequence = js sq, hb_wal_offset = off\<rparr>"

lemma example_boundary_valid:
  "valid_boundary (example_boundary 5 ''9'' 40)" "valid_boundary (example_boundary 7 ''10'' 90)"
  by (simp_all add: valid_boundary_def example_boundary_def safe_nonneg_def max_safe_def digit_unit_def)

theorem boundary_transition_refines_witness:
  "mux_history_boundary_transition (example_boundary 5 ''9'' 40) (example_boundary 7 ''10'' 90) = Advance"
  unfolding boundary_transition_refines[OF example_boundary_valid]
  by (simp add: classify_seam_def seam_of_def advances_def example_boundary_def dec_value_def)

lemma wire_boundary_fields:
  assumes "valid_boundary b"
  shows "validate_mux_history_boundary (wire_val (boundary_wire b)) = Some b"
  using assms
  by (simp add: validate_mux_history_boundary_def boundary_wire_def valid_boundary_def str_val_def
      safe_count_val_def val_int_def safe_nonneg_def)

lemma safe_count_val_bounds: "safe_count_val lo v \<Longrightarrow> lo \<le> val_int v \<and> val_int v \<le> max_safe"
  by (cases v) (auto simp: safe_count_val_def val_int_def dest: safe_count_bounds)

lemma validated_boundary_valid:
  assumes "validate_mux_history_boundary v = Some b"
  shows "valid_boundary b"
proof -
  from assms obtain o' g w where v: "v = JObj o'" "str_val (jget o' ''generation'') = Some g"
    "str_val (jget o' ''walSequence'') = Some w"
    by (auto simp: validate_mux_history_boundary_def split: jval.splits option.splits)
  with assms show ?thesis
    by (auto simp: validate_mux_history_boundary_def valid_boundary_def safe_nonneg_def
        split: if_splits dest: safe_count_val_bounds)
qed

section \<open>Projection metadata of a frame\<close>

record pane_key =
  pk_server :: jstr
  pk_pane :: jstr
  pk_birth :: int

record frame_marker =
  fm_line :: "int option"
  fm_kind :: jstr
  fm_reason :: "jstr option"
  fm_missing :: "int option"

datatype display_source = FromPipe | TmuxCalibrated

record frame_meta =
  nm_pane :: pane_key
  nm_source_epoch :: int
  nm_geometry_generation :: int
  nm_route_generation :: int
  nm_metadata_revision :: "int option"
  nm_cols :: int
  nm_rows :: int
  nm_revision :: int
  nm_durable_revision :: int
  nm_next_line :: int
  nm_live_start :: int
  nm_source :: display_source
  nm_degraded :: bool
  nm_markers :: "frame_marker list"

definition NEWARCH_MARKER_LIMIT :: nat where
  "NEWARCH_MARKER_LIMIT = 16"

definition HISTORY_PAGE_MARKER_LIMIT :: nat where
  "HISTORY_PAGE_MARKER_LIMIT = 64"

text \<open>\<open>x === null || count(x)\<close>, and the value it stands for.\<close>

definition null_or_count :: "jval \<Rightarrow> bool" where
  "null_or_count v \<longleftrightarrow> v = JNull \<or> safe_count_val 0 v"

definition null_or_int :: "jval \<Rightarrow> int option" where
  "null_or_int v = (if v = JNull then None else Some (val_int v))"

definition bounded_text :: "nat \<Rightarrow> jval \<Rightarrow> bool" where
  "bounded_text n v = (case v of JStr s \<Rightarrow> s \<noteq> [] \<and> length s \<le> n | _ \<Rightarrow> False)"

definition val_str :: "jval \<Rightarrow> jstr" where
  "val_str v = (case v of JStr s \<Rightarrow> s | _ \<Rightarrow> [])"

definition parse_frame_marker :: "jval \<Rightarrow> frame_marker option" where
  "parse_frame_marker raw =
     (if \<not> is_object raw then None
      else (let m = obj_fields raw in
            if null_or_count (jget m ''lineId'') \<and> bounded_text 64 (jget m ''kind'') \<and>
               null_or_count (jget m ''missingCount'')
            then Some \<lparr>fm_line = null_or_int (jget m ''lineId''), fm_kind = val_str (jget m ''kind''),
                       fm_reason = None, fm_missing = null_or_int (jget m ''missingCount'')\<rparr>
            else None))"

definition parse_page_marker :: "jval \<Rightarrow> frame_marker option" where
  "parse_page_marker raw =
     (case raw of
        JObj m \<Rightarrow>
          (let reason = jget m ''reason'' in
           if null_or_count (jget m ''lineId'') \<and> bounded_text 64 (jget m ''kind'') \<and>
              null_or_count (jget m ''missingCount'') \<and>
              (reason = JUndef \<or> (case reason of JStr r \<Rightarrow> length r \<le> 512 | _ \<Rightarrow> False))
           then Some \<lparr>fm_line = null_or_int (jget m ''lineId''), fm_kind = val_str (jget m ''kind''),
                      fm_reason = (if reason = JUndef then None else Some (val_str reason)),
                      fm_missing = null_or_int (jget m ''missingCount'')\<rparr>
           else None)
      | _ \<Rightarrow> None)"

definition validate_history_page_markers :: "jval \<Rightarrow> frame_marker list option" where
  "validate_history_page_markers v =
     (case v of
        JUndef \<Rightarrow> Some []
      | JArr raws \<Rightarrow> (if HISTORY_PAGE_MARKER_LIMIT < length raws then None
                       else those (map parse_page_marker raws))
      | _ \<Rightarrow> None)"

definition display_source_of :: "jval \<Rightarrow> display_source option" where
  "display_source_of v =
     (if v = JStr (js ''pipe'') then Some FromPipe
      else if v = JStr (js ''tmux-calibrated'') then Some TmuxCalibrated else None)"

definition val_bool :: "jval \<Rightarrow> bool" where
  "val_bool v = (case v of JBool b \<Rightarrow> b | _ \<Rightarrow> False)"

definition validate_newarch_frame_meta :: "jval \<Rightarrow> frame_meta option" where
  "validate_newarch_frame_meta v =
     (case v of
        JObj m \<Rightarrow>
          (let key = obj_fields (jget m ''paneKey'');
               n = (\<lambda>k. val_int (jget m k));
               count = (\<lambda>k. safe_count_val 0 (jget m k)) in
           if jget m ''v'' = JStr (js ''newarch-frame-v1'') \<and> is_object (jget m ''paneKey'') \<and>
              bounded_text 512 (jget key ''serverIdentity'') \<and> bounded_text 64 (jget key ''paneId'') \<and>
              safe_count_val 0 (jget key ''birthGeneration'') \<and>
              count ''sourceEpoch'' \<and> count ''geometryGeneration'' \<and> count ''routeGeneration'' \<and>
              (jget m ''metadataRevision'' = JUndef \<or> count ''metadataRevision'') \<and>
              safe_count_val 1 (jget m ''cols'') \<and> safe_count_val 1 (jget m ''rows'') \<and>
              count ''revision'' \<and> count ''durableRevision'' \<and> count ''nextLineId'' \<and>
              count ''liveStartLine'' \<and>
              n ''durableRevision'' \<le> n ''revision'' \<and> n ''liveStartLine'' \<le> n ''nextLineId'' \<and>
              is_bool_val (jget m ''degraded'')
           then (case (display_source_of (jget m ''displaySource''), jget m ''markers'') of
                   (Some src, JArr raws) \<Rightarrow>
                     (if NEWARCH_MARKER_LIMIT < length raws then None
                      else case those (map parse_frame_marker raws) of
                        None \<Rightarrow> None
                      | Some markers \<Rightarrow> Some
                          \<lparr>nm_pane = \<lparr>pk_server = val_str (jget key ''serverIdentity''),
                                      pk_pane = val_str (jget key ''paneId''),
                                      pk_birth = val_int (jget key ''birthGeneration'')\<rparr>,
                           nm_source_epoch = n ''sourceEpoch'',
                           nm_geometry_generation = n ''geometryGeneration'',
                           nm_route_generation = n ''routeGeneration'',
                           nm_metadata_revision =
                             (if jget m ''metadataRevision'' = JUndef then None else Some (n ''metadataRevision'')),
                           nm_cols = n ''cols'', nm_rows = n ''rows'',
                           nm_revision = n ''revision'', nm_durable_revision = n ''durableRevision'',
                           nm_next_line = n ''nextLineId'', nm_live_start = n ''liveStartLine'',
                           nm_source = src, nm_degraded = val_bool (jget m ''degraded''),
                           nm_markers = markers\<rparr>)
                 | _ \<Rightarrow> None)
           else None)
      | _ \<Rightarrow> None)"

definition metadata_revision :: "frame_meta \<Rightarrow> int" where
  "metadata_revision m = (case nm_metadata_revision m of None \<Rightarrow> 0 | Some r \<Rightarrow> r)"

definition newarch_delta_continues :: "frame_meta \<Rightarrow> frame_meta \<Rightarrow> bool" where
  "newarch_delta_continues base next \<longleftrightarrow>
     nm_pane base = nm_pane next \<and>
     nm_source_epoch base = nm_source_epoch next \<and>
     nm_geometry_generation base = nm_geometry_generation next \<and>
     nm_route_generation base = nm_route_generation next \<and>
     metadata_revision base \<le> metadata_revision next \<and>
     nm_live_start base = nm_live_start next \<and>
     nm_revision base \<le> nm_revision next \<and>
     nm_next_line base \<le> nm_next_line next"

text \<open>What the rest of the client may rely on once a descriptor was accepted.\<close>

definition marker_wf :: "frame_marker \<Rightarrow> bool" where
  "marker_wf k \<longleftrightarrow> pred_option safe_nonneg (fm_line k) \<and> pred_option safe_nonneg (fm_missing k) \<and>
     fm_kind k \<noteq> [] \<and> length (fm_kind k) \<le> 64 \<and> pred_option (\<lambda>r. length r \<le> 512) (fm_reason k)"

definition pane_key_wf :: "pane_key \<Rightarrow> bool" where
  "pane_key_wf k \<longleftrightarrow> pk_server k \<noteq> [] \<and> length (pk_server k) \<le> 512 \<and>
     pk_pane k \<noteq> [] \<and> length (pk_pane k) \<le> 64 \<and> safe_nonneg (pk_birth k)"

definition frame_meta_wf :: "frame_meta \<Rightarrow> bool" where
  "frame_meta_wf m \<longleftrightarrow> pane_key_wf (nm_pane m) \<and>
     list_all safe_nonneg [nm_source_epoch m, nm_geometry_generation m, nm_route_generation m,
       metadata_revision m, nm_revision m, nm_durable_revision m, nm_next_line m, nm_live_start m] \<and>
     1 \<le> nm_cols m \<and> nm_cols m \<le> max_safe \<and> 1 \<le> nm_rows m \<and> nm_rows m \<le> max_safe \<and>
     nm_durable_revision m \<le> nm_revision m \<and> nm_live_start m \<le> nm_next_line m \<and>
     length (nm_markers m) \<le> NEWARCH_MARKER_LIMIT \<and>
     list_all (\<lambda>k. marker_wf k \<and> fm_reason k = None) (nm_markers m)"

lemma safe_count_val_nonneg: "safe_count_val 0 v \<Longrightarrow> safe_nonneg (val_int v)"
  by (auto simp: safe_nonneg_def dest: safe_count_val_bounds)

lemma null_or_count_wf: "null_or_count v \<Longrightarrow> pred_option safe_nonneg (null_or_int v)"
  by (auto simp: null_or_count_def null_or_int_def safe_count_val_nonneg)

lemma bounded_text_val: "bounded_text n v \<Longrightarrow> val_str v \<noteq> [] \<and> length (val_str v) \<le> n"
  by (cases v) (auto simp: bounded_text_def val_str_def)

lemma those_list_all:
  "those (map f xs) = Some ys \<Longrightarrow> (\<And>x y. f x = Some y \<Longrightarrow> P y) \<Longrightarrow> list_all P ys \<and> length ys = length xs"
  by (induction xs arbitrary: ys) (auto split: option.splits)

lemma parse_frame_marker_wf: "parse_frame_marker raw = Some k \<Longrightarrow> marker_wf k \<and> fm_reason k = None"
  by (auto simp: parse_frame_marker_def marker_wf_def Let_def null_or_count_wf
      dest: bounded_text_val split: if_splits)

lemma parse_page_marker_wf: "parse_page_marker raw = Some k \<Longrightarrow> marker_wf k"
  by (auto simp: parse_page_marker_def marker_wf_def Let_def null_or_count_wf val_str_def
      dest: bounded_text_val split: if_splits jval.splits)

text \<open>
  C26: Whatever value a peer sends as frame metadata, what \<open>validateNewarchFrameMeta\<close>
  accepts is in range: a named pane, safe non-negative counters, at least one column and
  row, a durable revision not ahead of the revision, a live start not past the next line,
  and at most sixteen bounded markers.
\<close>

theorem validated_frame_meta_wf:
  assumes "validate_newarch_frame_meta v = Some m"
  shows "frame_meta_wf m"
proof -
  obtain o' src raws where v: "v = JObj o'" "display_source_of (jget o' ''displaySource'') = Some src"
    "jget o' ''markers'' = JArr raws"
    using assms
    by (auto simp: validate_newarch_frame_meta_def Let_def split: jval.splits option.splits if_splits)
  then obtain ms where ms: "those (map parse_frame_marker raws) = Some ms" and len: "length raws \<le> NEWARCH_MARKER_LIMIT"
    using assms by (auto simp: validate_newarch_frame_meta_def Let_def split: option.splits if_splits)
  have wf: "list_all (\<lambda>k. marker_wf k \<and> fm_reason k = None) ms \<and> length ms = length raws"
    by (rule those_list_all[OF ms]) (rule parse_frame_marker_wf)
  let ?key = "obj_fields (jget o' ''paneKey'')"
  let ?c = "\<lambda>k. safe_count_val 0 (jget o' k)"
  have texts: "bounded_text 512 (jget ?key ''serverIdentity'')" "bounded_text 64 (jget ?key ''paneId'')"
    "safe_count_val 0 (jget ?key ''birthGeneration'')"
    and counts: "?c ''sourceEpoch''" "?c ''geometryGeneration''" "?c ''routeGeneration''"
      "?c ''revision''" "?c ''durableRevision''" "?c ''nextLineId''" "?c ''liveStartLine''"
      "jget o' ''metadataRevision'' = JUndef \<or> ?c ''metadataRevision''"
    and size: "safe_count_val 1 (jget o' ''cols'')" "safe_count_val 1 (jget o' ''rows'')"
    and order: "val_int (jget o' ''durableRevision'') \<le> val_int (jget o' ''revision'')"
      "val_int (jget o' ''liveStartLine'') \<le> val_int (jget o' ''nextLineId'')"
    using assms v by (simp_all add: validate_newarch_frame_meta_def Let_def split: if_splits)
  have rev: "jget o' ''metadataRevision'' \<noteq> JUndef \<Longrightarrow> safe_nonneg (val_int (jget o' ''metadataRevision''))"
    using counts(8) safe_count_val_nonneg by blast
  have "m = \<lparr>nm_pane = \<lparr>pk_server = val_str (jget ?key ''serverIdentity''),
        pk_pane = val_str (jget ?key ''paneId''), pk_birth = val_int (jget ?key ''birthGeneration'')\<rparr>,
      nm_source_epoch = val_int (jget o' ''sourceEpoch''),
      nm_geometry_generation = val_int (jget o' ''geometryGeneration''),
      nm_route_generation = val_int (jget o' ''routeGeneration''),
      nm_metadata_revision = (if jget o' ''metadataRevision'' = JUndef then None
        else Some (val_int (jget o' ''metadataRevision''))),
      nm_cols = val_int (jget o' ''cols''), nm_rows = val_int (jget o' ''rows''),
      nm_revision = val_int (jget o' ''revision''), nm_durable_revision = val_int (jget o' ''durableRevision''),
      nm_next_line = val_int (jget o' ''nextLineId''), nm_live_start = val_int (jget o' ''liveStartLine''),
      nm_source = src, nm_degraded = val_bool (jget o' ''degraded''), nm_markers = ms\<rparr>"
    using assms v ms len by (simp add: validate_newarch_frame_meta_def Let_def split: if_splits)
  then show ?thesis
    using texts(1,2)[THEN bounded_text_val] texts(3)[THEN safe_count_val_nonneg]
      counts(1-7)[THEN safe_count_val_nonneg] rev
      size[THEN safe_count_val_bounds] order wf len
    by (simp add: frame_meta_wf_def pane_key_wf_def metadata_revision_def)
      (simp add: safe_nonneg_def)?
qed

definition example_meta_fields :: "(string \<times> jval) list" where
  "example_meta_fields =
     [(''v'', JStr (js ''newarch-frame-v1'')),
      (''paneKey'', JObj [(''serverIdentity'', JStr (js ''s'')), (''paneId'', JStr [37, 49]),
        (''birthGeneration'', JNum (int_num 1))]),
      (''sourceEpoch'', JNum (int_num 2)), (''geometryGeneration'', JNum (int_num 0)),
      (''routeGeneration'', JNum (int_num 0)), (''cols'', JNum (int_num 80)), (''rows'', JNum (int_num 24)),
      (''revision'', JNum (int_num 9)), (''durableRevision'', JNum (int_num 7)),
      (''nextLineId'', JNum (int_num 30)), (''liveStartLine'', JNum (int_num 6)),
      (''displaySource'', JStr (js ''pipe'')), (''degraded'', JBool False), (''markers'', JArr [])]"

lemma example_meta_accepted: "validate_newarch_frame_meta (JObj example_meta_fields) \<noteq> None"
  by code_simp

theorem validated_frame_meta_wf_witness:
  "\<exists>m. validate_newarch_frame_meta (JObj example_meta_fields) = Some m \<and> frame_meta_wf m"
  using example_meta_accepted validated_frame_meta_wf by blast

lemma validated_page_markers_wf:
  assumes "validate_history_page_markers v = Some ms"
  shows "list_all marker_wf ms \<and> length ms \<le> HISTORY_PAGE_MARKER_LIMIT"
  using assms those_list_all[of parse_page_marker _ ms marker_wf] parse_page_marker_wf
  by (auto simp: validate_history_page_markers_def split: jval.splits if_splits)

lemma newarch_delta_continues_refl: "newarch_delta_continues m m"
  by (simp add: newarch_delta_continues_def)

lemma newarch_delta_continues_trans:
  "newarch_delta_continues a b \<Longrightarrow> newarch_delta_continues b c \<Longrightarrow> newarch_delta_continues a c"
  by (auto simp: newarch_delta_continues_def)

section \<open>Output frames and deltas\<close>

datatype reset_kind = ResetResize | ResetResync

text \<open>An optional field that may also be null: outer \<open>None\<close> is "absent".\<close>

record full_frame =
  ff_channel :: jstr
  ff_data :: jstr
  ff_cursor :: "mux_cursor option option"
  ff_screen :: "pane_screen option option"
  ff_boundary :: "history_boundary option"
  ff_reset :: "reset_kind option"
  ff_newarch :: "frame_meta option"

record delta_frame =
  df_channel :: jstr
  df_base_length :: nat
  df_prefix :: nat
  df_prefix_hash :: jstr
  df_lines :: "jstr list"
  df_cursor :: "mux_cursor option option"
  df_screen :: "pane_screen option option"
  df_boundary :: "history_boundary option"
  df_newarch :: "frame_meta option"

datatype output_frame = Full full_frame | Delta delta_frame

definition split_mux_output_data :: "jstr \<Rightarrow> jstr list" where
  "split_mux_output_data data = split_units 10 data"

definition mux_prefix_hash :: "jstr list \<Rightarrow> jstr" where
  "mux_prefix_hash lines = fnv1a32 (json_text (WArr (map WStr lines)))"

definition mux_common_prefix_length :: "jstr list \<Rightarrow> jstr list \<Rightarrow> nat" where
  "mux_common_prefix_length base next = common_prefix base next"

definition create_mux_delta_frame ::
  "jstr \<Rightarrow> jstr list \<Rightarrow> jstr list \<Rightarrow> mux_cursor option option \<Rightarrow> delta_frame" where
  "create_mux_delta_frame channel base next cursor =
     (let prefix = mux_common_prefix_length base next in
      \<lparr>df_channel = channel, df_base_length = length base, df_prefix = prefix,
       df_prefix_hash = mux_prefix_hash (take prefix base), df_lines = drop prefix next,
       df_cursor = cursor, df_screen = None, df_boundary = None, df_newarch = None\<rparr>)"

subsection \<open>Frames as JSON\<close>

text \<open>\<open>JSON.stringify\<close> leaves absent fields out.\<close>

definition opt_field :: "string \<Rightarrow> ('a \<Rightarrow> wire) \<Rightarrow> 'a option \<Rightarrow> (string \<times> wire) list" where
  "opt_field k f v = (case v of None \<Rightarrow> [] | Some x \<Rightarrow> [(k, f x)])"

definition nullable :: "('a \<Rightarrow> wire) \<Rightarrow> 'a option \<Rightarrow> wire" where
  "nullable f v = (case v of None \<Rightarrow> WNull | Some x \<Rightarrow> f x)"

definition cursor_wire :: "mux_cursor \<Rightarrow> wire" where
  "cursor_wire c = WObj [(''row'', WInt (mc_row c)), (''col'', WInt (mc_col c))]"

fun preview_wire :: "preview_state \<Rightarrow> wire" where
  "preview_wire PLive = WStr (js ''live'')"
| "preview_wire POrphaned = WStr (js ''orphaned'')"
| "preview_wire PEnded = WStr (js ''ended'')"
| "preview_wire PUnavailable = WStr (js ''unavailable'')"

definition screen_wire :: "pane_screen \<Rightarrow> wire" where
  "screen_wire s = WObj
     (opt_field ''previewState'' preview_wire (ps_preview_state s) @
      opt_field ''previewHasFrame'' WBool (ps_preview_has_frame s) @
      opt_field ''previewLastSuccessfulAt'' WInt (ps_preview_at s) @
      [(''alt'', WBool (ps_alt s)), (''mouseSgr'', WBool (ps_mouse_sgr s)),
       (''mouseAny'', WBool (ps_mouse_any s))])"

definition marker_wire :: "frame_marker \<Rightarrow> wire" where
  "marker_wire k = WObj
     ([(''lineId'', nullable WInt (fm_line k)), (''kind'', WStr (fm_kind k))] @
      opt_field ''reason'' WStr (fm_reason k) @ [(''missingCount'', nullable WInt (fm_missing k))])"

definition pane_key_wire :: "pane_key \<Rightarrow> wire" where
  "pane_key_wire k = WObj [(''serverIdentity'', WStr (pk_server k)), (''paneId'', WStr (pk_pane k)),
     (''birthGeneration'', WInt (pk_birth k))]"

definition source_text :: "display_source \<Rightarrow> jstr" where
  "source_text src = (case src of FromPipe \<Rightarrow> js ''pipe'' | TmuxCalibrated \<Rightarrow> js ''tmux-calibrated'')"

definition meta_wire :: "frame_meta \<Rightarrow> wire" where
  "meta_wire m = WObj
     ([(''v'', WStr (js ''newarch-frame-v1'')), (''paneKey'', pane_key_wire (nm_pane m)),
       (''sourceEpoch'', WInt (nm_source_epoch m)),
       (''geometryGeneration'', WInt (nm_geometry_generation m)),
       (''routeGeneration'', WInt (nm_route_generation m))] @
      opt_field ''metadataRevision'' WInt (nm_metadata_revision m) @
      [(''cols'', WInt (nm_cols m)), (''rows'', WInt (nm_rows m)), (''revision'', WInt (nm_revision m)),
       (''durableRevision'', WInt (nm_durable_revision m)), (''nextLineId'', WInt (nm_next_line m)),
       (''liveStartLine'', WInt (nm_live_start m)), (''displaySource'', WStr (source_text (nm_source m))),
       (''degraded'', WBool (nm_degraded m)), (''markers'', WArr (map marker_wire (nm_markers m)))])"

definition reset_wire :: "reset_kind \<Rightarrow> wire" where
  "reset_wire r = WStr (case r of ResetResize \<Rightarrow> js ''resize'' | ResetResync \<Rightarrow> js ''resync'')"

definition full_wire :: "full_frame \<Rightarrow> wire" where
  "full_wire f = WObj
     ([(''channel'', WStr (ff_channel f)), (''type'', WStr (js ''output'')), (''data'', WStr (ff_data f))] @
      opt_field ''cursor'' (nullable cursor_wire) (ff_cursor f) @
      opt_field ''screen'' (nullable screen_wire) (ff_screen f) @
      opt_field ''boundary'' boundary_wire (ff_boundary f) @
      opt_field ''reset'' reset_wire (ff_reset f) @
      opt_field ''newarch'' meta_wire (ff_newarch f))"

definition delta_wire :: "delta_frame \<Rightarrow> wire" where
  "delta_wire d = WObj
     ([(''channel'', WStr (df_channel d)), (''type'', WStr (js ''delta'')),
       (''baseLength'', WInt (int (df_base_length d))), (''prefix'', WInt (int (df_prefix d))),
       (''prefixHash'', WStr (df_prefix_hash d)), (''lines'', WArr (map WStr (df_lines d)))] @
      opt_field ''cursor'' (nullable cursor_wire) (df_cursor d) @
      opt_field ''screen'' (nullable screen_wire) (df_screen d) @
      opt_field ''boundary'' boundary_wire (df_boundary d) @
      opt_field ''newarch'' meta_wire (df_newarch d))"

definition serialized_mux_frame_size :: "output_frame \<Rightarrow> nat" where
  "serialized_mux_frame_size frame =
     utf8_size (json_text (case frame of Full f \<Rightarrow> full_wire f | Delta d \<Rightarrow> delta_wire d))"

definition should_use_mux_delta :: "full_frame \<Rightarrow> delta_frame \<Rightarrow> bool" where
  "should_use_mux_delta full delta \<longleftrightarrow>
     ff_reset full = None \<and> 0 < df_prefix delta \<and>
     serialized_mux_frame_size (Delta delta) < serialized_mux_frame_size (Full full)"

definition choose_mux_output_frame :: "full_frame \<Rightarrow> jstr list \<Rightarrow> output_frame" where
  "choose_mux_output_frame full base =
     (let delta0 = create_mux_delta_frame (ff_channel full) base
                     (split_mux_output_data (ff_data full)) (ff_cursor full);
          delta = delta0\<lparr>df_screen := ff_screen full, df_boundary := ff_boundary full,
                         df_newarch := ff_newarch full\<rparr> in
      if should_use_mux_delta full delta then Delta delta else Full full)"

subsection \<open>Receiving a delta\<close>

definition str_list_val :: "jval \<Rightarrow> jstr list option" where
  "str_list_val v = (case v of JArr vs \<Rightarrow> those (map str_val vs) | _ \<Rightarrow> None)"

text \<open>\<open>validateMuxDeltaFrame\<close>: the candidate's prefix and lines when every check holds.\<close>

definition validate_mux_delta_frame :: "jval \<Rightarrow> jstr list \<Rightarrow> (nat \<times> jstr list) option" where
  "validate_mux_delta_frame frame base =
     (if \<not> is_object frame then None
      else
        (let c = obj_fields frame; bl = jget c ''baseLength''; px = jget c ''prefix'' in
         if str_val (jget c ''channel'') = None then None
         else if jget c ''type'' \<noteq> JStr (js ''delta'') then None
         else if \<not> is_integer_val bl \<or> val_int bl \<noteq> int (length base) then None
         else if \<not> is_integer_val px \<or> val_int px < 0 \<or> int (length base) < val_int px then None
         else if jget c ''prefixHash'' \<noteq> JStr (mux_prefix_hash (take (nat (val_int px)) base)) then None
         else
           (case str_list_val (jget c ''lines'') of
              None \<Rightarrow> None
            | Some lines \<Rightarrow>
                if jhas c ''cursor'' \<and> \<not> is_mux_cursor (jget c ''cursor'') then None
                else if jhas c ''screen'' \<and> \<not> is_mux_pane_screen (jget c ''screen'') then None
                else if jhas c ''boundary'' \<and> validate_mux_history_boundary (jget c ''boundary'') = None then None
                else Some (nat (val_int px), lines))))"

definition apply_mux_delta :: "jstr list \<Rightarrow> jval \<Rightarrow> jstr list option" where
  "apply_mux_delta base frame =
     (case validate_mux_delta_frame frame base of
        None \<Rightarrow> None
      | Some (px, lines) \<Rightarrow> Some (take px base @ lines))"

section \<open>Deltas reconstruct\<close>

definition cursor_ok :: "mux_cursor option option \<Rightarrow> bool" where
  "cursor_ok c \<longleftrightarrow> pred_option (pred_option (\<lambda>c. 0 \<le> mc_col c)) c"

definition screen_ok :: "pane_screen option option \<Rightarrow> bool" where
  "screen_ok s \<longleftrightarrow> pred_option (pred_option (\<lambda>s. pred_option (\<lambda>t. 0 \<le> t) (ps_preview_at s))) s"

lemma map_of_opt_field: "map_of (opt_field k f v) k' = (if k' = k then map_option f v else None)"
  by (simp add: opt_field_def split: option.splits)

lemmas wire_lookup = jget_map_wire jhas_map_wire map_of_opt_field map_add_def

lemma is_mux_cursor_wire:
  "is_mux_cursor (wire_val (nullable cursor_wire c)) \<longleftrightarrow> pred_option (\<lambda>c. 0 \<le> mc_col c) c"
  by (cases c) (auto simp: nullable_def cursor_wire_def is_mux_cursor_def is_object_def obj_fields_def
      is_integer_val_def val_int_def)

lemma nonneg_finite_int [simp]: "nonneg_finite (JNum (int_num i)) \<longleftrightarrow> 0 \<le> i"
  by (simp add: int_num_def)

lemma obj_get_wire:
  "jget (obj_fields (wire_val (WObj kvs))) k = (case map_of kvs k of None \<Rightarrow> JUndef | Some w \<Rightarrow> wire_val w)"
  by (simp add: obj_fields_def jget_map_wire)

lemma obj_has_wire: "jhas (obj_fields (wire_val (WObj kvs))) k \<longleftrightarrow> map_of kvs k \<noteq> None"
  by (simp add: obj_fields_def jhas_map_wire)

lemma is_mux_pane_screen_wire:
  "is_mux_pane_screen (wire_val (nullable screen_wire s)) \<longleftrightarrow>
     pred_option (\<lambda>s. pred_option (\<lambda>t. 0 \<le> t) (ps_preview_at s)) s"
proof (cases s)
  case (Some v)
  let ?f = "obj_fields (wire_val (screen_wire v))"
  have "jget ?f ''alt'' = JBool (ps_alt v)" "jget ?f ''mouseSgr'' = JBool (ps_mouse_sgr v)"
    "jget ?f ''mouseAny'' = JBool (ps_mouse_any v)"
    "jget ?f ''previewLastSuccessfulAt'' =
       (case ps_preview_at v of None \<Rightarrow> JUndef | Some t \<Rightarrow> JNum (int_num t))"
    unfolding screen_wire_def obj_get_wire
    by (simp_all add: map_of_opt_field map_add_def split: option.splits)
  then show ?thesis
    using Some unfolding is_mux_pane_screen_def Let_def nullable_def
    by (cases "ps_preview_at v") (simp_all add: is_bool_val_def is_object_def screen_wire_def)
qed (simp add: nullable_def is_mux_pane_screen_def)

lemma str_list_val_wire: "str_list_val (JArr (map (\<lambda>x. wire_val (WStr x)) ls)) = Some ls"
proof -
  have "those (map (\<lambda>x. str_val (JStr x)) ls) = Some ls"
    by (induction ls) (auto simp: str_val_def)
  then show ?thesis by (simp add: str_list_val_def comp_def)
qed

lemma validate_delta_wire:
  assumes "pred_option valid_boundary (df_boundary d)"
  shows "validate_mux_delta_frame (wire_val (delta_wire d)) base =
     (if df_base_length d = length base \<and> df_prefix d \<le> length base \<and>
         df_prefix_hash d = mux_prefix_hash (take (df_prefix d) base) \<and>
         cursor_ok (df_cursor d) \<and> screen_ok (df_screen d)
      then Some (df_prefix d, df_lines d) else None)"
proof -
  let ?kvs = "case delta_wire d of WObj kvs \<Rightarrow> kvs | _ \<Rightarrow> []"
  have obj: "wire_val (delta_wire d) = JObj (map (\<lambda>(k, v). (k, wire_val v)) ?kvs)"
    unfolding delta_wire_def by simp
  have get: "jget (obj_fields (wire_val (delta_wire d))) k =
      (case map_of ?kvs k of None \<Rightarrow> JUndef | Some w \<Rightarrow> wire_val w)" for k
    by (simp only: obj obj_fields_def jget_map_wire jval.case)
  have has: "jhas (obj_fields (wire_val (delta_wire d))) k \<longleftrightarrow> map_of ?kvs k \<noteq> None" for k
    by (simp only: obj obj_fields_def jhas_map_wire jval.case)
  have lookup:
    "map_of ?kvs ''channel'' = Some (WStr (df_channel d))"
    "map_of ?kvs ''type'' = Some (WStr (js ''delta''))"
    "map_of ?kvs ''baseLength'' = Some (WInt (int (df_base_length d)))"
    "map_of ?kvs ''prefix'' = Some (WInt (int (df_prefix d)))"
    "map_of ?kvs ''prefixHash'' = Some (WStr (df_prefix_hash d))"
    "map_of ?kvs ''lines'' = Some (WArr (map WStr (df_lines d)))"
    "map_of ?kvs ''cursor'' = map_option (nullable cursor_wire) (df_cursor d)"
    "map_of ?kvs ''screen'' = map_option (nullable screen_wire) (df_screen d)"
    "map_of ?kvs ''boundary'' = map_option boundary_wire (df_boundary d)"
    by (simp_all add: delta_wire_def map_of_opt_field map_add_def split: option.splits)
  have lines: "str_list_val (wire_val (WArr (map WStr (df_lines d)))) = Some (df_lines d)"
    using str_list_val_wire by (simp add: comp_def)
  have bnd: "df_boundary d = Some b \<Longrightarrow> validate_mux_history_boundary (wire_val (boundary_wire b)) = Some b" for b
    using assms by (simp add: wire_boundary_fields)
  show ?thesis
    unfolding validate_mux_delta_frame_def get has lookup Let_def
    using bnd
    by (auto simp: obj is_object_def is_integer_val_def val_int_def str_val_def lines[simplified]
        is_mux_cursor_wire is_mux_pane_screen_wire cursor_ok_def screen_ok_def
        split: option.splits)
qed

lemma take_common_prefix_append: "take (common_prefix xs ys) xs @ drop (common_prefix xs ys) ys = ys"
  using append_take_drop_id[of "common_prefix xs ys" ys] take_common_prefix[of xs ys] by simp

text \<open>
  C27: Round trip of a delta over the wire: built against the base the receiver holds and
  sent as JSON, it is accepted and rebuilds the sender's rows exactly.
\<close>

theorem mux_delta_roundtrip:
  assumes "cursor_ok cursor"
  shows "apply_mux_delta base (wire_val (delta_wire (create_mux_delta_frame channel base next cursor)))
     = Some next"
  using assms common_prefix_le[of base "next"]
  by (simp add: apply_mux_delta_def validate_delta_wire create_mux_delta_frame_def Let_def
      mux_common_prefix_length_def screen_ok_def take_common_prefix_append)

theorem mux_delta_roundtrip_witness:
  "apply_mux_delta [js ''a'', js ''b''] (wire_val (delta_wire (create_mux_delta_frame (js ''s'')
     [js ''a'', js ''b''] [js ''a'', js ''c'', js ''d''] (Some (Some \<lparr>mc_row = -1, mc_col = 0\<rparr>)))))
   = Some [js ''a'', js ''c'', js ''d'']"
  by (rule mux_delta_roundtrip) (simp add: cursor_ok_def)

text \<open>
  A delta never silently corrupts a stale view. A receiver whose base is not the
  sender's base either refuses the frame, or rebuilds the sender's rows, or the two
  different prefixes collide under the 32-bit hash.
\<close>

theorem mux_delta_stale_base_safe:
  assumes "apply_mux_delta mine (wire_val (delta_wire (create_mux_delta_frame channel base next cursor)))
     = Some got"
  shows "length mine = length base \<and>
     (let p = mux_common_prefix_length base next in
      got = take p mine @ drop p next \<and>
      mux_prefix_hash (take p mine) = mux_prefix_hash (take p base) \<and>
      (take p mine = take p base \<longrightarrow> got = next))"
  using assms
  by (auto simp: apply_mux_delta_def validate_delta_wire create_mux_delta_frame_def Let_def
      mux_common_prefix_length_def take_common_prefix_append split: if_splits)

theorem mux_delta_stale_base_safe_witness:
  "apply_mux_delta [js ''a'', js ''z''] (wire_val (delta_wire (create_mux_delta_frame (js ''s'')
     [js ''a'', js ''b''] [js ''a'', js ''c''] None))) = Some [js ''a'', js ''c''] \<and>
   length [js ''a'', js ''z''] = length [js ''a'', js ''b'']"
proof -
  have "apply_mux_delta [js ''a'', js ''z''] (wire_val (delta_wire (create_mux_delta_frame (js ''s'')
     [js ''a'', js ''b''] [js ''a'', js ''c''] None))) = Some [js ''a'', js ''c'']"
    by (simp add: apply_mux_delta_def validate_delta_wire create_mux_delta_frame_def Let_def
        mux_common_prefix_length_def cursor_ok_def screen_ok_def)
  with mux_delta_stale_base_safe[OF this] show ?thesis by simp
qed

text \<open>
  Choosing a representation never changes what the receiver sees. A chosen full frame
  is the given one; a chosen delta is strictly smaller on the wire, never replaces a reset,
  carries the full frame's cursor, screen, seam and projection metadata, and rebuilds
  exactly the rows of the full frame on the base it was made for.
\<close>

theorem choose_mux_output_frame_sound:
  assumes "cursor_ok (ff_cursor full)" and "screen_ok (ff_screen full)"
    and "pred_option valid_boundary (ff_boundary full)"
  shows "case choose_mux_output_frame full base of
     Full f \<Rightarrow> f = full
   | Delta d \<Rightarrow> ff_reset full = None \<and>
       serialized_mux_frame_size (Delta d) < serialized_mux_frame_size (Full full) \<and>
       df_channel d = ff_channel full \<and> df_cursor d = ff_cursor full \<and> df_screen d = ff_screen full \<and>
       df_boundary d = ff_boundary full \<and> df_newarch d = ff_newarch full \<and>
       apply_mux_delta base (wire_val (delta_wire d)) = Some (split_mux_output_data (ff_data full))"
  using assms common_prefix_le[of base "split_mux_output_data (ff_data full)"]
  by (auto simp: choose_mux_output_frame_def Let_def should_use_mux_delta_def create_mux_delta_frame_def
      apply_mux_delta_def validate_delta_wire mux_common_prefix_length_def take_common_prefix_append)

definition example_full :: full_frame where
  "example_full = \<lparr>ff_channel = js ''s'', ff_data = js ''first row'' @ 10 # js ''x'',
     ff_cursor = Some (Some \<lparr>mc_row = 0, mc_col = 1\<rparr>), ff_screen = None,
     ff_boundary = Some (example_boundary 5 ''9'' 40), ff_reset = None, ff_newarch = None\<rparr>"

theorem choose_mux_output_frame_sound_witness:
  "case choose_mux_output_frame example_full [js ''first row'', js ''y''] of
     Full f \<Rightarrow> f = example_full
   | Delta d \<Rightarrow> df_boundary d = Some (example_boundary 5 ''9'' 40) \<and>
       apply_mux_delta [js ''first row'', js ''y''] (wire_val (delta_wire d)) =
         Some [js ''first row'', js ''x'']"
proof -
  have "cursor_ok (ff_cursor example_full)" "screen_ok (ff_screen example_full)"
    "pred_option valid_boundary (ff_boundary example_full)"
    using example_boundary_valid by (simp_all add: example_full_def cursor_ok_def screen_ok_def)
  note choose_mux_output_frame_sound[OF this, of "[js ''first row'', js ''y'']"]
  then show ?thesis
    by (simp add: example_full_def split_mux_output_data_def split: output_frame.splits)
qed

end
