(* ===== verification/Content_Gate.thy ===== *)
theory Content_Gate
  imports Mux_Protocol
begin

text \<open>
  \<open>svelte/src/content-update-gate.ts\<close> holds content back while a gesture or a selection
  is active, and \<open>svelte/src/live-boundary-admission.ts\<close> refuses output frames whose seam
  goes backwards. Both are small state machines: one operation per event, each returning
  the next state.
\<close>

section \<open>The content update gate\<close>

datatype update_source = SrcFull | SrcDelta

datatype lines_source = LiveLines | ReplacedLines

record content_update =
  cu_data :: jstr
  cu_cursor :: "mux_cursor option option"
  cu_source :: update_source
  cu_replace :: bool
  cu_lines_source :: "lines_source option"

record content_gate =
  cg_pending :: "content_update option"

record content_block =
  cb_busy :: bool
  cb_selection :: bool

definition create_content_update_gate :: content_gate where
  "create_content_update_gate = \<lparr>cg_pending = None\<rparr>"

definition content_lines_change_source :: "content_update \<Rightarrow> lines_source" where
  "content_lines_change_source u =
     (case cu_lines_source u of
        Some src \<Rightarrow> src
      | None \<Rightarrow> if cu_source u = SrcDelta then LiveLines
                else if cu_replace u then ReplacedLines else LiveLines)"

definition coalesce_delivery :: "content_update option \<Rightarrow> content_update \<Rightarrow> content_update" where
  "coalesce_delivery pending delivery =
     (let pending_source = map_option content_lines_change_source pending;
          incoming_source = content_lines_change_source delivery;
          next = (case pending_source of
                    None \<Rightarrow> delivery
                  | Some ps \<Rightarrow> delivery\<lparr>cu_lines_source :=
                      Some (if ps = LiveLines \<or> incoming_source = LiveLines then LiveLines else ReplacedLines)\<rparr>)
      in case pending of
           Some p \<Rightarrow> if cu_replace p then next\<lparr>cu_replace := True\<rparr> else next
         | None \<Rightarrow> next)"

definition is_blocked :: "content_block \<Rightarrow> bool" where
  "is_blocked b \<longleftrightarrow> cb_busy b \<or> cb_selection b"

definition receive_content_update ::
  "content_gate \<Rightarrow> content_update \<Rightarrow> content_block \<Rightarrow> content_gate \<times> content_update option" where
  "receive_content_update gate delivery block =
     (let next = coalesce_delivery (cg_pending gate) delivery in
      if is_blocked block then (\<lparr>cg_pending = Some next\<rparr>, None)
      else (\<lparr>cg_pending = None\<rparr>, Some next))"

definition update_pending_content_cursor :: "content_gate \<Rightarrow> mux_cursor option \<Rightarrow> content_gate" where
  "update_pending_content_cursor gate cursor =
     (case cg_pending gate of
        None \<Rightarrow> gate
      | Some p \<Rightarrow> \<lparr>cg_pending = Some (p\<lparr>cu_cursor := Some cursor\<rparr>)\<rparr>)"

definition flush_content_update ::
  "content_gate \<Rightarrow> content_block \<Rightarrow> content_gate \<times> content_update option" where
  "flush_content_update gate block =
     (if is_blocked block \<or> cg_pending gate = None then (gate, None)
      else (\<lparr>cg_pending = None\<rparr>, cg_pending gate))"

section \<open>Runs of the gate\<close>

datatype gate_event =
    Receive content_update content_block
  | CursorOnly "mux_cursor option"
  | Flush content_block

fun gate_step :: "content_gate \<Rightarrow> gate_event \<Rightarrow> content_gate \<times> content_update option" where
  "gate_step g (Receive u b) = receive_content_update g u b"
| "gate_step g (CursorOnly c) = (update_pending_content_cursor g c, None)"
| "gate_step g (Flush b) = flush_content_update g b"

text \<open>
  What the view owes its host since the last delivery: the updates received and the
  cursor moves seen after the first of them.
\<close>

datatype held = HeldUpdate content_update | HeldCursor "mux_cursor option"

fun held_updates :: "held list \<Rightarrow> content_update list" where
  "held_updates [] = []"
| "held_updates (HeldUpdate u # hs) = u # held_updates hs"
| "held_updates (HeldCursor c # hs) = held_updates hs"

fun held_cursor :: "mux_cursor option option \<Rightarrow> held list \<Rightarrow> mux_cursor option option" where
  "held_cursor c [] = c"
| "held_cursor c (HeldUpdate u # hs) = held_cursor (cu_cursor u) hs"
| "held_cursor c (HeldCursor d # hs) = held_cursor (Some d) hs"

text \<open>
  The abstract promise: newest data, newest cursor, replace if any held update had to
  replace, live if any held update was live.
\<close>

definition summarizes :: "held list \<Rightarrow> content_update \<Rightarrow> bool" where
  "summarizes hs u \<longleftrightarrow>
     held_updates hs \<noteq> [] \<and>
     cu_data u = cu_data (last (held_updates hs)) \<and>
     cu_source u = cu_source (last (held_updates hs)) \<and>
     cu_cursor u = held_cursor None hs \<and>
     cu_replace u = list_ex cu_replace (held_updates hs) \<and>
     content_lines_change_source u =
       (if list_ex (\<lambda>v. content_lines_change_source v = LiveLines) (held_updates hs)
        then LiveLines else ReplacedLines)"

inductive gate_reach :: "content_gate \<Rightarrow> held list \<Rightarrow> bool" where
  gate_start: "gate_reach create_content_update_gate []"
| gate_hold: "gate_reach g hs \<Longrightarrow> is_blocked b \<Longrightarrow>
     gate_reach (fst (gate_step g (Receive u b))) (hs @ [HeldUpdate u])"
| gate_pass: "gate_reach g hs \<Longrightarrow> \<not> is_blocked b \<Longrightarrow> gate_reach (fst (gate_step g (Receive u b))) []"
| gate_cursor: "gate_reach g hs \<Longrightarrow>
     gate_reach (fst (gate_step g (CursorOnly c))) (if hs = [] then [] else hs @ [HeldCursor c])"
| gate_keep: "gate_reach g hs \<Longrightarrow> is_blocked b \<Longrightarrow> gate_reach (fst (gate_step g (Flush b))) hs"
| gate_flush: "gate_reach g hs \<Longrightarrow> \<not> is_blocked b \<Longrightarrow> gate_reach (fst (gate_step g (Flush b))) []"

definition gate_inv :: "content_gate \<Rightarrow> held list \<Rightarrow> bool" where
  "gate_inv g hs \<longleftrightarrow>
     (case cg_pending g of None \<Rightarrow> hs = [] | Some p \<Rightarrow> summarizes hs p)"

lemma held_updates_append [simp]: "held_updates (xs @ ys) = held_updates xs @ held_updates ys"
  by (induction xs rule: held_updates.induct) auto

lemma held_cursor_append [simp]: "held_cursor c (xs @ ys) = held_cursor (held_cursor c xs) ys"
  by (induction c xs rule: held_cursor.induct) auto

lemma lines_source_not_live: "x \<noteq> LiveLines \<longleftrightarrow> x = ReplacedLines"
  by (cases x) auto

lemma content_lines_change_source_explicit [simp]:
  "cu_lines_source u = Some src \<Longrightarrow> content_lines_change_source u = src"
  by (simp add: content_lines_change_source_def)

lemma content_lines_change_source_cursor [simp]:
  "content_lines_change_source (p\<lparr>cu_cursor := c\<rparr>) = content_lines_change_source p"
  by (simp add: content_lines_change_source_def)

lemma summarizes_first: "summarizes [HeldUpdate u] u"
  by (auto simp: summarizes_def lines_source_not_live)

lemma summarizes_coalesce:
  assumes "summarizes hs p"
  shows "summarizes (hs @ [HeldUpdate u]) (coalesce_delivery (Some p) u)"
  using assms by (auto simp: summarizes_def coalesce_delivery_def Let_def lines_source_not_live)

lemma summarizes_cursor:
  assumes "summarizes hs p"
  shows "summarizes (hs @ [HeldCursor c]) (p\<lparr>cu_cursor := Some c\<rparr>)"
  using assms by (auto simp: summarizes_def)

lemma gate_inv_coalesce:
  "gate_inv g hs \<Longrightarrow> summarizes (hs @ [HeldUpdate u]) (coalesce_delivery (cg_pending g) u)"
proof (cases "cg_pending g")
  case None
  moreover assume "gate_inv g hs"
  ultimately show ?thesis
    by (simp add: gate_inv_def coalesce_delivery_def summarizes_first)
next
  case (Some p)
  moreover assume "gate_inv g hs"
  ultimately show ?thesis by (simp add: gate_inv_def summarizes_coalesce)
qed

lemma gate_reach_inv: "gate_reach g hs \<Longrightarrow> gate_inv g hs"
proof (induction rule: gate_reach.induct)
  case gate_start
  then show ?case by (simp add: gate_inv_def create_content_update_gate_def)
next
  case (gate_hold g hs b u)
  with gate_inv_coalesce[OF gate_hold.IH, of u] show ?case
    by (simp add: gate_inv_def receive_content_update_def Let_def)
next
  case (gate_cursor g hs c)
  then show ?case
    by (auto simp: gate_inv_def update_pending_content_cursor_def summarizes_cursor
        summarizes_def split: option.splits)
next
  case (gate_flush g hs b)
  then show ?case by (auto simp: gate_inv_def flush_content_update_def split: option.splits)
qed (auto simp: gate_inv_def receive_content_update_def flush_content_update_def Let_def)

text \<open>
  C12: From any reachable gate, whatever is delivered - by a receive that finds the view
  free or by a flush - summarizes everything held since the last delivery: the newest
  snapshot, the newest cursor, a replacement if any held frame demanded one, and "live" if
  any held frame carried unseen live output. While blocked nothing is delivered, and a
  free flush of a non-empty interval always delivers.
\<close>

theorem gate_delivers_summary:
  assumes "gate_reach g hs"
  shows "(case snd (gate_step g (Receive u b)) of
            Some d \<Rightarrow> \<not> is_blocked b \<and> summarizes (hs @ [HeldUpdate u]) d
          | None \<Rightarrow> is_blocked b) \<and>
         (case snd (gate_step g (Flush b)) of
            Some d \<Rightarrow> \<not> is_blocked b \<and> summarizes hs d
          | None \<Rightarrow> is_blocked b \<or> hs = [])"
  using gate_inv_coalesce[OF gate_reach_inv[OF assms], of u] gate_reach_inv[OF assms]
  by (auto simp: receive_content_update_def flush_content_update_def Let_def gate_inv_def
      split: option.splits)

definition example_update :: "string \<Rightarrow> bool \<Rightarrow> content_update" where
  "example_update s r = \<lparr>cu_data = js s, cu_cursor = Some None, cu_source = SrcFull,
     cu_replace = r, cu_lines_source = None\<rparr>"

definition busy :: content_block where
  "busy = \<lparr>cb_busy = True, cb_selection = False\<rparr>"

definition idle :: content_block where
  "idle = \<lparr>cb_busy = False, cb_selection = False\<rparr>"

theorem gate_delivers_summary_witness:
  "\<exists>g. gate_reach g [HeldUpdate (example_update ''old'' True), HeldUpdate (example_update ''new'' False)] \<and>
     (case snd (gate_step g (Flush idle)) of
        Some d \<Rightarrow> cu_data d = js ''new'' \<and> cu_replace d \<and> content_lines_change_source d = LiveLines
      | None \<Rightarrow> False)"
proof -
  let ?g1 = "fst (gate_step create_content_update_gate (Receive (example_update ''old'' True) busy))"
  let ?g2 = "fst (gate_step ?g1 (Receive (example_update ''new'' False) busy))"
  have b: "is_blocked busy" "\<not> is_blocked idle"
    by (simp_all add: busy_def idle_def is_blocked_def)
  have r: "gate_reach ?g2 [HeldUpdate (example_update ''old'' True), HeldUpdate (example_update ''new'' False)]"
    using gate_hold[OF gate_hold[OF gate_start b(1)] b(1)] by simp
  have "case snd (gate_step ?g2 (Flush idle)) of
      Some d \<Rightarrow> cu_data d = js ''new'' \<and> cu_replace d \<and> content_lines_change_source d = LiveLines
    | None \<Rightarrow> False"
    using gate_delivers_summary[OF r, where b = idle and u = "example_update ''new'' False"] b(2)
    by (auto simp: summarizes_def example_update_def content_lines_change_source_def
        simp del: gate_step.simps split: option.splits)
  with r show ?thesis by blast
qed

section \<open>Admission of live seams\<close>

record live_admission =
  la_high_water :: "history_boundary option"

definition create_live_boundary_admission :: live_admission where
  "create_live_boundary_admission = \<lparr>la_high_water = None\<rparr>"

definition admit_live_boundary ::
  "live_admission \<Rightarrow> history_boundary option \<Rightarrow> history_boundary \<Rightarrow> live_admission \<times> bool" where
  "admit_live_boundary admission applied incoming =
     (let previous = (case la_high_water admission of Some h \<Rightarrow> Some h | None \<Rightarrow> applied) in
      case previous of
        Some p \<Rightarrow> if mux_history_boundary_transition p incoming = Regression then (admission, False)
                  else (\<lparr>la_high_water = Some incoming\<rparr>, True)
      | None \<Rightarrow> (\<lparr>la_high_water = Some incoming\<rparr>, True))"

text \<open>
  A run: each frame comes with the seam the view has applied by then, which may lag. The
  result is the frames let through.
\<close>

fun admit_run :: "live_admission \<Rightarrow> (history_boundary option \<times> history_boundary) list \<Rightarrow> history_boundary list" where
  "admit_run adm [] = []"
| "admit_run adm ((applied, incoming) # fs) =
     (let (adm', ok) = admit_live_boundary adm applied incoming in
      if ok then incoming # admit_run adm' fs else admit_run adm' fs)"

definition not_behind :: "history_boundary \<Rightarrow> history_boundary \<Rightarrow> bool" where
  "not_behind a b \<longleftrightarrow> seam_of a = seam_of b \<or> advances (seam_of a) (seam_of b)"

lemma not_behind_trans: "not_behind a b \<Longrightarrow> not_behind b c \<Longrightarrow> not_behind a c"
  by (auto simp: not_behind_def dest: advances_trans)

lemma transition_not_behind:
  assumes "valid_boundary a" "valid_boundary b" "hb_generation a = hb_generation b"
  shows "mux_history_boundary_transition a b \<noteq> Regression \<longleftrightarrow> not_behind a b"
  using boundary_transition_refines[OF assms(1,2)] assms(3)
  by (auto simp: classify_seam_def not_behind_def seam_of_def)

lemma admit_run_above:
  assumes "\<forall>(ap, b) \<in> set fs. valid_boundary b \<and> hb_generation b = gen"
    and "valid_boundary h" "hb_generation h = gen"
  shows "\<forall>b \<in> set (admit_run \<lparr>la_high_water = Some h\<rparr> fs). not_behind h b"
  using assms
proof (induction fs arbitrary: h)
  case (Cons f fs)
  obtain ap b where f: "f = (ap, b)" by (cases f)
  with Cons.prems have b: "valid_boundary b" "hb_generation b = gen" by auto
  show ?case
  proof (cases "mux_history_boundary_transition h b = Regression")
    case True
    then show ?thesis
      using Cons.IH[of h] Cons.prems by (auto simp: f admit_live_boundary_def Let_def)
  next
    case False
    then have "not_behind h b"
      using transition_not_behind[OF Cons.prems(2) b(1)] Cons.prems(3) b(2) by simp
    then show ?thesis
      using Cons.IH[of b] Cons.prems b False
      by (auto simp: f admit_live_boundary_def Let_def intro: not_behind_trans)
  qed
qed simp

text \<open>
  Inside one WAL generation the frames that \<open>admitLiveBoundary\<close> lets through never go
  back: each is equal to or strictly ahead of every frame admitted before it, however far
  the applied seam lags behind.
\<close>

theorem admitted_seams_monotone:
  assumes "\<forall>(ap, b) \<in> set fs. valid_boundary b \<and> hb_generation b = gen"
  shows "sorted_wrt not_behind (admit_run adm fs)"
  using assms
proof (induction fs arbitrary: adm)
  case (Cons f fs)
  obtain ap b where f: "f = (ap, b)" by (cases f)
  with Cons.prems have b: "valid_boundary b" "hb_generation b = gen"
    and fs: "\<forall>(ap, b) \<in> set fs. valid_boundary b \<and> hb_generation b = gen" by auto
  obtain adm' ok where a: "admit_live_boundary adm ap b = (adm', ok)" by fastforce
  have "ok \<Longrightarrow> adm' = \<lparr>la_high_water = Some b\<rparr>"
    using a by (auto simp: admit_live_boundary_def Let_def split: option.splits if_splits)
  with Cons.IH[OF fs, of adm'] admit_run_above[OF fs b] a show ?case
    by (auto simp: f)
qed simp

theorem admitted_seams_monotone_witness:
  "admit_run create_live_boundary_admission
     [(None, example_boundary 5 ''9'' 40), (None, example_boundary 7 ''10'' 90),
      (None, example_boundary 5 ''9'' 40)] =
     [example_boundary 5 ''9'' 40, example_boundary 7 ''10'' 90] \<and>
   sorted_wrt not_behind [example_boundary 5 ''9'' 40, example_boundary 7 ''10'' 90]"
proof -
  have run: "admit_run create_live_boundary_admission
      [(None, example_boundary 5 ''9'' 40), (None, example_boundary 7 ''10'' 90),
       (None, example_boundary 5 ''9'' 40)] =
      [example_boundary 5 ''9'' 40, example_boundary 7 ''10'' 90]"
    by (simp add: create_live_boundary_admission_def admit_live_boundary_def
        mux_history_boundary_transition_def compare_decimal_strings_def example_boundary_def)
  have "\<forall>(ap, b) \<in> set [(None :: history_boundary option, example_boundary 5 ''9'' 40),
      (None, example_boundary 7 ''10'' 90), (None, example_boundary 5 ''9'' 40)].
      valid_boundary b \<and> hb_generation b = js ''g''"
    using example_boundary_valid by (simp add: example_boundary_def)
  from admitted_seams_monotone[OF this, of create_live_boundary_admission] run show ?thesis by simp
qed

end
