(* ===== verification/History_Window.thy ===== *)
theory History_Window
  imports Prelude
begin

text \<open>
  The bounded archive window of \<open>svelte/src/history-window.ts\<close>: absolute line ranges,
  retained rows, row and byte budgets, paging cursors and the reader anchor. Line numbers,
  byte counts and budgets are \<^typ>\<open>int\<close> with the code's safe-integer tests written out;
  a thrown \<open>RangeError\<close> is \<open>Inl\<close>.
\<close>

section \<open>State, pages and results\<close>

definition HISTORY_WINDOW_MAX_ROWS :: int where
  "HISTORY_WINDOW_MAX_ROWS = 10000"

definition HISTORY_WINDOW_MAX_BYTES :: int where
  "HISTORY_WINDOW_MAX_BYTES = 8 * 1024 * 1024"

definition HISTORY_WINDOW_ROW_OVERHEAD_BYTES :: int where
  "HISTORY_WINDOW_ROW_OVERHEAD_BYTES = 64"

datatype direction = Before | After

record window_limits =
  wl_max_rows :: int
  wl_max_bytes :: int
  wl_overhead :: int

record window_range =
  wr_start :: int
  wr_end :: int

record range_stats =
  rs_start :: int
  rs_end :: int
  rs_rows :: int
  rs_bytes :: int

record window =
  hw_start :: int
  hw_lines :: "jstr list"
  hw_line_bytes :: "int list"
  hw_bytes :: int
  hw_older :: bool
  hw_newer :: bool
  hw_limits :: window_limits
  hw_cursor_before :: "jstr option"
  hw_cursor_after :: "jstr option"

record window_anchor =
  wa_line :: int
  wa_offset :: jnum

record anchor_commit =
  ac_line :: int
  ac_offset :: jnum
  ac_previous :: int
  ac_next :: int
  ac_delta :: int

datatype continuation = ContEnd | ContMore | ContBlocked

record window_page =
  pg_direction :: direction
  pg_anchor_line :: int
  pg_start :: "int option"
  pg_lines :: "jstr list"
  pg_line_bytes :: "int list option"
  pg_has_more :: bool
  pg_continuation :: "continuation option"
  pg_flag_cursor :: "(int \<times> jstr) option"

datatype apply_kind = Committed | Boundary | Blocked

record apply_success =
  as_kind :: apply_kind
  as_state :: window
  as_anchor :: anchor_commit
  as_accepted :: "range_stats option"
  as_evicted :: "range_stats option"
  as_discarded :: "range_stats option"

datatype reject_reason =
    InvalidState | InvalidAnchor | InvalidProtectedRange | InvalidPage | StaleCursor
  | NonContiguousPage | EmptyPageWithMore | BudgetCannotPreserveAnchor

datatype apply_result = Applied apply_success | Rejected reject_reason

datatype window_error = RangeError string

section \<open>Checks and estimates\<close>

definition positive_integer :: "int \<Rightarrow> bool" where
  "positive_integer v \<longleftrightarrow> safe_int v \<and> 0 < v"

definition non_negative_integer :: "int \<Rightarrow> bool" where
  "non_negative_integer v \<longleftrightarrow> safe_int v \<and> 0 \<le> v"

definition valid_absolute_line :: "int \<Rightarrow> bool" where
  "valid_absolute_line v \<longleftrightarrow> safe_int v \<and> 0 \<le> v"

definition add_safe :: "int \<Rightarrow> int \<Rightarrow> int option" where
  "add_safe l r = (if safe_int (l + r) then Some (l + r) else None)"

record partial_limits =
  pl_max_rows :: "int option"
  pl_max_bytes :: "int option"
  pl_overhead :: "int option"

definition or_else :: "'a option \<Rightarrow> 'a \<Rightarrow> 'a" where
  "or_else v d = (case v of None \<Rightarrow> d | Some x \<Rightarrow> x)"

definition resolved_limits :: "partial_limits \<Rightarrow> window_error + window_limits" where
  "resolved_limits p =
     (let l = \<lparr>wl_max_rows = or_else (pl_max_rows p) HISTORY_WINDOW_MAX_ROWS,
               wl_max_bytes = or_else (pl_max_bytes p) HISTORY_WINDOW_MAX_BYTES,
               wl_overhead = or_else (pl_overhead p) HISTORY_WINDOW_ROW_OVERHEAD_BYTES\<rparr> in
      if \<not> positive_integer (wl_max_rows l) then Inl (RangeError ''maxRows'')
      else if \<not> positive_integer (wl_max_bytes l) then Inl (RangeError ''maxBytes'')
      else if \<not> non_negative_integer (wl_overhead l) then Inl (RangeError ''rowOverheadBytes'')
      else Inr l)"

definition estimate_line_bytes :: "jstr \<Rightarrow> int \<Rightarrow> window_error + int" where
  "estimate_line_bytes line overhead =
     (if \<not> non_negative_integer overhead then Inl (RangeError ''rowOverheadBytes'')
      else (let estimated = overhead + 2 * int (length line) in
            if \<not> safe_int estimated then Inl (RangeError ''estimate'') else Inr estimated))"

text \<open>
  \<open>resolveLineBytes\<close>: the supplied figures, or one estimate per row; \<open>Inr None\<close> is the
  source's \<open>null\<close>.
\<close>

fun estimate_all :: "jstr list \<Rightarrow> int \<Rightarrow> window_error + int list" where
  "estimate_all [] ov = Inr []"
| "estimate_all (l # ls) ov =
     (case estimate_line_bytes l ov of
        Inl e \<Rightarrow> Inl e
      | Inr b \<Rightarrow> (case estimate_all ls ov of Inl e \<Rightarrow> Inl e | Inr bs \<Rightarrow> Inr (b # bs)))"

definition resolve_line_bytes :: "jstr list \<Rightarrow> int list option \<Rightarrow> int \<Rightarrow> window_error + int list option" where
  "resolve_line_bytes lines supplied ov =
     (case supplied of
        Some bs \<Rightarrow>
          Inr (if length bs \<noteq> length lines then None
               else if list_all non_negative_integer bs then Some bs else None)
      | None \<Rightarrow>
          (case estimate_all lines ov of
             Inl e \<Rightarrow> Inl e
           | Inr bs \<Rightarrow> Inr (if list_all non_negative_integer bs then Some bs else None)))"

fun sum_bytes_from :: "int \<Rightarrow> int list \<Rightarrow> int option" where
  "sum_bytes_from acc [] = Some acc"
| "sum_bytes_from acc (b # bs) =
     (if safe_int (acc + b) then sum_bytes_from (acc + b) bs else None)"

definition sum_bytes :: "int list \<Rightarrow> nat \<Rightarrow> nat \<Rightarrow> int option" where
  "sum_bytes values start end' = sum_bytes_from 0 (drop start (take end' values))"

definition sum_all_bytes :: "int list \<Rightarrow> int option" where
  "sum_all_bytes values = sum_bytes values 0 (length values)"

definition state_error :: "window \<Rightarrow> string option" where
  "state_error s =
     (if \<not> valid_absolute_line (hw_start s) then Some ''startLine''
      else if hw_lines s = [] then Some ''empty''
      else if length (hw_line_bytes s) \<noteq> length (hw_lines s) then Some ''lineBytes align''
      else if \<not> list_all non_negative_integer (hw_line_bytes s) then Some ''lineBytes''
      else if add_safe (hw_start s) (int (length (hw_lines s))) = None then Some ''range''
      else if sum_all_bytes (hw_line_bytes s) \<noteq> Some (hw_bytes s) then Some ''estimatedBytes''
      else if \<not> positive_integer (wl_max_rows (hw_limits s)) \<or> \<not> positive_integer (wl_max_bytes (hw_limits s))
        then Some ''limits''
      else if \<not> non_negative_integer (wl_overhead (hw_limits s)) then Some ''rowOverheadBytes''
      else if wl_max_rows (hw_limits s) < int (length (hw_lines s)) then Some ''row budget''
      else if wl_max_bytes (hw_limits s) < hw_bytes s then Some ''byte budget''
      else None)"

section \<open>Construction and queries\<close>

record create_options =
  co_start :: int
  co_lines :: "jstr list"
  co_line_bytes :: "int list option"
  co_older :: "bool option"
  co_newer :: "bool option"
  co_limits :: partial_limits

definition create_history_window :: "create_options \<Rightarrow> window_error + window" where
  "create_history_window opts =
     (case resolved_limits (co_limits opts) of
        Inl e \<Rightarrow> Inl e
      | Inr limits \<Rightarrow>
          if \<not> valid_absolute_line (co_start opts) then Inl (RangeError ''startLine'')
          else if co_lines opts = [] then Inl (RangeError ''empty'')
          else if add_safe (co_start opts) (int (length (co_lines opts))) = None
            then Inl (RangeError ''range'')
          else (case resolve_line_bytes (co_lines opts) (co_line_bytes opts) (wl_overhead limits) of
                  Inl e \<Rightarrow> Inl e
                | Inr None \<Rightarrow> Inl (RangeError ''lineBytes'')
                | Inr (Some bs) \<Rightarrow>
                    (case sum_all_bytes bs of
                       None \<Rightarrow> Inl (RangeError ''overflow'')
                     | Some tot \<Rightarrow>
                         if wl_max_rows limits < int (length (co_lines opts)) then Inl (RangeError ''rows'')
                         else if wl_max_bytes limits < tot then Inl (RangeError ''bytes'')
                         else Inr \<lparr>hw_start = co_start opts, hw_lines = co_lines opts, hw_line_bytes = bs,
                                   hw_bytes = tot, hw_older = or_else (co_older opts) (0 < co_start opts),
                                   hw_newer = or_else (co_newer opts) False, hw_limits = limits,
                                   hw_cursor_before = None, hw_cursor_after = None\<rparr>)))"

definition window_end_line :: "window \<Rightarrow> int" where
  "window_end_line s = hw_start s + int (length (hw_lines s))"

definition history_window_range :: "window \<Rightarrow> window_range" where
  "history_window_range s = \<lparr>wr_start = hw_start s, wr_end = window_end_line s\<rparr>"

definition window_contains :: "window \<Rightarrow> int \<Rightarrow> bool" where
  "window_contains s line \<longleftrightarrow> valid_absolute_line line \<and> hw_start s \<le> line \<and> line < window_end_line s"

record request_cursor =
  rc_direction :: direction
  rc_line :: int
  rc_flag :: "jstr option"

definition window_request_cursor :: "window \<Rightarrow> direction \<Rightarrow> request_cursor option" where
  "window_request_cursor s d =
     (case d of
        Before \<Rightarrow> if \<not> hw_older s then None
                  else Some \<lparr>rc_direction = Before, rc_line = hw_start s, rc_flag = hw_cursor_before s\<rparr>
      | After \<Rightarrow> if \<not> hw_newer s then None
                 else Some \<lparr>rc_direction = After, rc_line = window_end_line s - 1, rc_flag = hw_cursor_after s\<rparr>)"

datatype flag_copy = NoFlag | Flag jstr | BadFlag

definition copy_flag_cursor :: "(int \<times> jstr) option \<Rightarrow> flag_copy" where
  "copy_flag_cursor v =
     (case v of
        None \<Rightarrow> NoFlag
      | Some (version, token) \<Rightarrow> if version \<noteq> 1 \<or> token = [] then BadFlag else Flag token)"

definition flag_token :: "flag_copy \<Rightarrow> jstr option" where
  "flag_token f = (case f of Flag t \<Rightarrow> Some t | _ \<Rightarrow> None)"

definition attach_flag_cursor :: "window \<Rightarrow> window \<Rightarrow> direction \<Rightarrow> jstr option \<Rightarrow> window" where
  "attach_flag_cursor next s d cursor =
     (let before = (if d = Before \<and> cursor \<noteq> None then cursor else hw_cursor_before s);
          after = (if d = After \<and> cursor \<noteq> None then cursor else hw_cursor_after s);
          next1 = (if before \<noteq> None then next\<lparr>hw_cursor_before := before\<rparr> else next)
      in if after \<noteq> None then next1\<lparr>hw_cursor_after := after\<rparr> else next1)"

definition range_stats_of :: "int \<Rightarrow> int list \<Rightarrow> nat \<Rightarrow> nat \<Rightarrow> range_stats option" where
  "range_stats_of absolute_start bytes from_index to_index =
     (if to_index \<le> from_index then None
      else (case sum_bytes bytes from_index to_index of
              None \<Rightarrow> None
            | Some est \<Rightarrow> Some \<lparr>rs_start = absolute_start + int from_index,
                                rs_end = absolute_start + int to_index,
                                rs_rows = int to_index - int from_index, rs_bytes = est\<rparr>))"

definition anchor_commit_of :: "window \<Rightarrow> window \<Rightarrow> window_anchor \<Rightarrow> anchor_commit" where
  "anchor_commit_of s next anchor =
     (let previous = wa_line anchor - hw_start s; nxt = wa_line anchor - hw_start next in
      \<lparr>ac_line = wa_line anchor, ac_offset = wa_offset anchor, ac_previous = previous,
       ac_next = nxt, ac_delta = nxt - previous\<rparr>)"

definition valid_range :: "window_range \<Rightarrow> bool" where
  "valid_range r \<longleftrightarrow> valid_absolute_line (wr_start r) \<and> valid_absolute_line (wr_end r) \<and> wr_start r < wr_end r"

section \<open>Applying a page\<close>

definition over_budget :: "window_limits \<Rightarrow> nat \<Rightarrow> nat \<Rightarrow> int \<Rightarrow> bool" where
  "over_budget l ks ke retained \<longleftrightarrow>
     wl_max_rows l < int ke - int ks \<or> wl_max_bytes l < retained"

text \<open>The four eviction loops: one from the end down to a floor, one from the start up to a ceiling.\<close>

function trim_end :: "window_limits \<Rightarrow> int list \<Rightarrow> nat \<Rightarrow> nat \<Rightarrow> nat \<Rightarrow> int \<Rightarrow> nat \<times> int" where
  "trim_end l bytes lo ks ke retained =
     (if over_budget l ks ke retained \<and> lo < ke
      then trim_end l bytes lo ks (ke - 1) (retained - bytes ! (ke - 1))
      else (ke, retained))"
  by pat_completeness auto
termination
  by (relation "measure (\<lambda>(l, bytes, lo, ks, ke, retained). ke)") auto

function trim_start :: "window_limits \<Rightarrow> int list \<Rightarrow> nat \<Rightarrow> nat \<Rightarrow> nat \<Rightarrow> int \<Rightarrow> nat \<times> int" where
  "trim_start l bytes hi ks ke retained =
     (if over_budget l ks ke retained \<and> ks < hi
      then trim_start l bytes hi (Suc ks) ke (retained - bytes ! ks)
      else (ks, retained))"
  by pat_completeness auto
termination
  by (relation "measure (\<lambda>(l, bytes, hi, ks, ke, retained). hi - ks)") auto

declare trim_end.simps [simp del] trim_start.simps [simp del]

definition window_trim ::
  "direction \<Rightarrow> window_limits \<Rightarrow> int list \<Rightarrow> nat \<Rightarrow> nat \<Rightarrow> nat \<Rightarrow> nat \<Rightarrow> int \<Rightarrow> nat \<times> nat \<times> int" where
  "window_trim d l bytes page_count old_count prot_start prot_end tot =
     (let n = page_count + old_count in
      case d of
        Before \<Rightarrow>
          (let (ke, r1) = trim_end l bytes prot_end 0 n tot;
               (ks, r2) = trim_start l bytes (min page_count prot_start) 0 ke r1
           in (ks, ke, r2))
      | After \<Rightarrow>
          (let (ks, r1) = trim_start l bytes prot_start 0 n tot;
               (ke, r2) = trim_end l bytes (max old_count prot_end) ks n r1
           in (ks, ke, r2)))"

definition committed_window ::
  "window \<Rightarrow> window_page \<Rightarrow> int \<Rightarrow> jstr list \<Rightarrow> int list \<Rightarrow> nat \<Rightarrow> nat \<Rightarrow> int \<Rightarrow> range_stats option \<Rightarrow>
   range_stats option \<Rightarrow> window" where
  "committed_window s page combined_start lines bytes ks ke retained evicted discarded =
     \<lparr>hw_start = combined_start + int ks,
      hw_lines = drop ks (take ke lines),
      hw_line_bytes = drop ks (take ke bytes),
      hw_bytes = retained,
      hw_older = (if pg_direction page = Before then pg_has_more page \<or> discarded \<noteq> None
                  else hw_older s \<or> evicted \<noteq> None),
      hw_newer = (if pg_direction page = After then pg_has_more page \<or> discarded \<noteq> None
                  else hw_newer s \<or> evicted \<noteq> None),
      hw_limits = hw_limits s,
      hw_cursor_before = None, hw_cursor_after = None\<rparr>"

definition commit_page ::
  "window \<Rightarrow> window_page \<Rightarrow> int list \<Rightarrow> jstr option \<Rightarrow> window_anchor \<Rightarrow> window_range \<Rightarrow> int \<Rightarrow> apply_result" where
  "commit_page s page page_bytes flag anchor prot page_start =
     (let d = pg_direction page;
          page_count = length (pg_lines page);
          old_count = length (hw_lines s);
          combined_start = (if d = Before then page_start else hw_start s);
          lines = (if d = Before then pg_lines page @ hw_lines s else hw_lines s @ pg_lines page);
          bytes = (if d = Before then page_bytes @ hw_line_bytes s else hw_line_bytes s @ page_bytes)
      in case sum_all_bytes bytes of
           None \<Rightarrow> Rejected InvalidPage
         | Some tot \<Rightarrow>
             (let (ks, ke, retained) = window_trim d (hw_limits s) bytes page_count old_count
                     (nat (wr_start prot - combined_start)) (nat (wr_end prot - combined_start)) tot
              in if over_budget (hw_limits s) ks ke retained then Rejected BudgetCannotPreserveAnchor
                 else
                   (let accepted_from = (if d = Before then ks else max old_count ks);
                        accepted_to = (if d = Before then min page_count ke else ke)
                    in case range_stats_of combined_start bytes accepted_from accepted_to of
                         None \<Rightarrow> Rejected BudgetCannotPreserveAnchor
                       | Some accepted \<Rightarrow>
                           (let evicted =
                                  (if d = Before
                                   then range_stats_of combined_start bytes (max ke page_count) (page_count + old_count)
                                   else range_stats_of combined_start bytes 0 (min ks old_count));
                                discarded =
                                  (if d = Before
                                   then range_stats_of combined_start bytes 0 (min ks page_count)
                                   else range_stats_of combined_start bytes (max ke old_count) (old_count + page_count));
                                next = committed_window s page combined_start lines bytes ks ke retained evicted discarded
                            in if state_error next \<noteq> None then Rejected InvalidState
                               else if \<not> window_contains next (wa_line anchor) then Rejected BudgetCannotPreserveAnchor
                               else Applied \<lparr>as_kind = Committed,
                                      as_state = attach_flag_cursor next s d flag,
                                      as_anchor = anchor_commit_of s next anchor,
                                      as_accepted = Some accepted, as_evicted = evicted,
                                      as_discarded = discarded\<rparr>))))"

text \<open>An empty page only moves the continuation flag of its own edge.\<close>

definition edge_page :: "apply_kind \<Rightarrow> bool \<Rightarrow> window \<Rightarrow> window_page \<Rightarrow> jstr option \<Rightarrow> window_anchor \<Rightarrow> apply_result" where
  "edge_page kind open_edge s page flag anchor =
     (let d = pg_direction page;
          next = s\<lparr>hw_older := (if d = Before then open_edge else hw_older s),
                   hw_newer := (if d = After then open_edge else hw_newer s)\<rparr>
      in Applied \<lparr>as_kind = kind, as_state = attach_flag_cursor next s d flag,
                  as_anchor = anchor_commit_of s next anchor,
                  as_accepted = None, as_evicted = None, as_discarded = None\<rparr>)"

definition apply_history_window_page ::
  "window \<Rightarrow> window_page \<Rightarrow> window_anchor \<Rightarrow> window_range option \<Rightarrow> window_error + apply_result" where
  "apply_history_window_page s page anchor protected =
     (if state_error s \<noteq> None then Inr (Rejected InvalidState)
      else if \<not> valid_absolute_line (wa_line anchor) \<or> \<not> is_finite_num (wa_offset anchor) \<or>
              \<not> window_contains s (wa_line anchor)
        then Inr (Rejected InvalidAnchor)
      else
        (let old_end = window_end_line s;
             prot = or_else protected \<lparr>wr_start = wa_line anchor, wr_end = wa_line anchor + 1\<rparr>;
             d = pg_direction page;
             expected = (if d = Before then hw_start s else old_end - 1)
         in if \<not> valid_range prot \<or> wr_start prot < hw_start s \<or> old_end < wr_end prot \<or>
               wa_line anchor < wr_start prot \<or> wr_end prot \<le> wa_line anchor
            then Inr (Rejected InvalidProtectedRange)
            else if \<not> valid_absolute_line (pg_anchor_line page) \<or> pg_anchor_line page \<noteq> expected
            then Inr (Rejected StaleCursor)
            else if (case pg_start page of None \<Rightarrow> False | Some ps \<Rightarrow> \<not> valid_absolute_line ps)
            then Inr (Rejected InvalidPage)
            else (case resolve_line_bytes (pg_lines page) (pg_line_bytes page) (wl_overhead (hw_limits s)) of
                    Inl e \<Rightarrow> Inl e
                  | Inr None \<Rightarrow> Inr (Rejected InvalidPage)
                  | Inr (Some page_bytes) \<Rightarrow>
                      if pg_continuation page \<noteq> None \<and>
                         (pg_continuation page = Some ContEnd) = pg_has_more page
                      then Inr (Rejected InvalidPage)
                      else if copy_flag_cursor (pg_flag_cursor page) = BadFlag then Inr (Rejected InvalidPage)
                      else
                        (let flag = flag_token (copy_flag_cursor (pg_flag_cursor page)) in
                         if pg_lines page = [] \<and> pg_continuation page = Some ContBlocked
                         then Inr (edge_page Blocked True s page flag anchor)
                         else if pg_lines page = [] then
                           (if pg_has_more page then Inr (Rejected EmptyPageWithMore)
                            else Inr (edge_page Boundary False s page flag anchor))
                         else (case pg_start page of
                                 None \<Rightarrow> Inr (Rejected InvalidPage)
                               | Some page_start \<Rightarrow>
                                   if add_safe page_start (int (length (pg_lines page))) = None
                                   then Inr (Rejected InvalidPage)
                                   else if d = Before \<and> page_start + int (length (pg_lines page)) \<noteq> hw_start s \<or>
                                           d = After \<and> page_start \<noteq> old_end
                                   then Inr (Rejected NonContiguousPage)
                                   else Inr (commit_page s page page_bytes flag anchor prot page_start))))))"

section \<open>Valid windows\<close>

lemmas window_number_defs =
  valid_absolute_line_def non_negative_integer_def positive_integer_def safe_int_def add_safe_def

lemma non_negative_integer_list:
  "list_all non_negative_integer bs \<Longrightarrow> x \<in> set bs \<Longrightarrow> 0 \<le> x \<and> x \<le> max_safe"
  by (auto simp: list_all_iff window_number_defs)

lemma sum_list_bytes_nonneg: "list_all non_negative_integer bs \<Longrightarrow> 0 \<le> sum_list bs"
  by (rule sum_list_nonneg) (auto dest: non_negative_integer_list)

lemma sum_bytes_from_eq:
  "list_all non_negative_integer bs \<Longrightarrow> 0 \<le> acc \<Longrightarrow> acc \<le> max_safe \<Longrightarrow>
   sum_bytes_from acc bs = (if acc + sum_list bs \<le> max_safe then Some (acc + sum_list bs) else None)"
proof (induction bs arbitrary: acc)
  case (Cons b bs)
  from Cons.prems have bs: "list_all non_negative_integer bs" by simp
  from Cons.prems have b: "0 \<le> b" "0 \<le> sum_list bs"
    using sum_list_bytes_nonneg[OF bs] by (auto simp: window_number_defs)
  then show ?case
    using Cons.IH[of "acc + b"] Cons.prems by (auto simp: safe_int_def)
qed simp

lemma sum_bytes_eq:
  "list_all non_negative_integer bs \<Longrightarrow>
   sum_bytes bs i j = (let t = sum_list (drop i (take j bs)) in if t \<le> max_safe then Some t else None)"
proof -
  assume "list_all non_negative_integer bs"
  then have "list_all non_negative_integer (drop i (take j bs))"
    by (auto simp: list_all_iff dest!: in_set_dropD in_set_takeD)
  then show ?thesis using sum_bytes_from_eq[of "drop i (take j bs)" 0]
    by (simp add: sum_bytes_def Let_def max_safe_def)
qed

lemma sum_all_bytes_eq:
  "list_all non_negative_integer bs \<Longrightarrow>
   sum_all_bytes bs = (if sum_list bs \<le> max_safe then Some (sum_list bs) else None)"
  by (simp add: sum_all_bytes_def sum_bytes_eq Let_def)

text \<open>The state check as a predicate: what a resident window must satisfy.\<close>

definition limits_ok :: "window_limits \<Rightarrow> bool" where
  "limits_ok l \<longleftrightarrow> positive_integer (wl_max_rows l) \<and> positive_integer (wl_max_bytes l) \<and>
     non_negative_integer (wl_overhead l)"

definition window_ok :: "window \<Rightarrow> bool" where
  "window_ok s \<longleftrightarrow>
     0 \<le> hw_start s \<and> window_end_line s \<le> max_safe \<and> hw_lines s \<noteq> [] \<and>
     length (hw_line_bytes s) = length (hw_lines s) \<and>
     list_all non_negative_integer (hw_line_bytes s) \<and>
     hw_bytes s = sum_list (hw_line_bytes s) \<and> limits_ok (hw_limits s) \<and>
     int (length (hw_lines s)) \<le> wl_max_rows (hw_limits s) \<and> hw_bytes s \<le> wl_max_bytes (hw_limits s)"

lemma state_error_none: "state_error s = None \<longleftrightarrow> window_ok s"
proof (cases "list_all non_negative_integer (hw_line_bytes s)")
  case True
  note t = this sum_all_bytes_eq[OF this] sum_list_bytes_nonneg[OF this]
  show ?thesis
    using t by (auto simp: state_error_def window_ok_def limits_ok_def window_number_defs window_end_line_def)
next
  case False
  then show ?thesis by (auto simp: state_error_def window_ok_def)
qed

lemma window_okD:
  assumes "window_ok s"
  shows "0 \<le> hw_start s" "window_end_line s \<le> max_safe" "hw_lines s \<noteq> []"
    "length (hw_line_bytes s) = length (hw_lines s)" "list_all non_negative_integer (hw_line_bytes s)"
    "hw_bytes s = sum_list (hw_line_bytes s)" "limits_ok (hw_limits s)"
    "int (length (hw_lines s)) \<le> wl_max_rows (hw_limits s)" "hw_bytes s \<le> wl_max_bytes (hw_limits s)"
  using assms by (auto simp: window_ok_def)

section \<open>Eviction\<close>

definition kept_bytes :: "int list \<Rightarrow> nat \<Rightarrow> nat \<Rightarrow> int" where
  "kept_bytes bs ks ke = sum_list (drop ks (take ke bs))"

lemma kept_bytes_drop_last:
  assumes "ks < ke" "ke \<le> length bs"
  shows "kept_bytes bs ks (ke - 1) = kept_bytes bs ks ke - bs ! (ke - 1)"
proof -
  obtain k where k: "ke = Suc k" using assms by (cases ke) auto
  then have "take ke bs = take k bs @ [bs ! k]" using assms by (simp add: take_Suc_conv_app_nth)
  then show ?thesis using assms k by (simp add: kept_bytes_def)
qed

lemma kept_bytes_drop_first:
  assumes "ks < ke" "ke \<le> length bs"
  shows "kept_bytes bs (Suc ks) ke = kept_bytes bs ks ke - bs ! ks"
proof -
  have "drop ks (take ke bs) = bs ! ks # drop (Suc ks) (take ke bs)"
    using assms Cons_nth_drop_Suc[of ks "take ke bs", symmetric] by simp
  then show ?thesis by (simp add: kept_bytes_def)
qed

lemma trim_end_spec:
  assumes "trim_end l bs lo ks ke r = (ke', r')" "r = kept_bytes bs ks ke" "ke \<le> length bs" "ks \<le> lo" "lo \<le> ke"
  shows "lo \<le> ke' \<and> ke' \<le> ke \<and> r' = kept_bytes bs ks ke' \<and>
         (over_budget l ks ke' r' \<longrightarrow> ke' = lo) \<and>
         (ke' < ke \<longrightarrow> over_budget l ks (Suc ke') (kept_bytes bs ks (Suc ke')))"
  using assms
proof (induction l bs lo ks ke r rule: trim_end.induct)
  case (1 l bs lo ks ke r)
  show ?case
  proof (cases "over_budget l ks ke r \<and> lo < ke")
    case True
    then have step: "trim_end l bs lo ks (ke - 1) (r - bs ! (ke - 1)) = (ke', r')"
      using "1.prems"(1) by (subst (asm) trim_end.simps) simp
    have "r - bs ! (ke - 1) = kept_bytes bs ks (ke - 1)"
      using kept_bytes_drop_last[of ks ke bs] True "1.prems" by simp
    from "1.IH"[OF True step this] "1.prems" True
    have ih: "lo \<le> ke' \<and> ke' \<le> ke - 1 \<and> r' = kept_bytes bs ks ke' \<and>
         (over_budget l ks ke' r' \<longrightarrow> ke' = lo) \<and>
         (ke' < ke - 1 \<longrightarrow> over_budget l ks (Suc ke') (kept_bytes bs ks (Suc ke')))"
      by auto
    moreover have "ke' = ke - 1 \<Longrightarrow> over_budget l ks (Suc ke') (kept_bytes bs ks (Suc ke'))"
      using True "1.prems"(2) by simp
    ultimately show ?thesis by (cases "ke' = ke - 1") auto
  next
    case False
    then have "ke' = ke" "r' = r" using "1.prems"(1) by (subst (asm) trim_end.simps, auto split: if_splits)+
    then show ?thesis using False "1.prems" by auto
  qed
qed

lemma trim_start_spec:
  assumes "trim_start l bs hi ks ke r = (ks', r')" "r = kept_bytes bs ks ke" "ke \<le> length bs" "hi \<le> ke" "ks \<le> hi"
  shows "ks \<le> ks' \<and> ks' \<le> hi \<and> r' = kept_bytes bs ks' ke \<and>
         (over_budget l ks' ke r' \<longrightarrow> ks' = hi) \<and>
         (ks < ks' \<longrightarrow> over_budget l (ks' - 1) ke (kept_bytes bs (ks' - 1) ke))"
  using assms
proof (induction l bs hi ks ke r rule: trim_start.induct)
  case (1 l bs hi ks ke r)
  show ?case
  proof (cases "over_budget l ks ke r \<and> ks < hi")
    case True
    then have step: "trim_start l bs hi (Suc ks) ke (r - bs ! ks) = (ks', r')"
      using "1.prems"(1) by (subst (asm) trim_start.simps) simp
    have "r - bs ! ks = kept_bytes bs (Suc ks) ke"
      using kept_bytes_drop_first[of ks ke bs] True "1.prems" by simp
    from "1.IH"[OF True step this] "1.prems" True
    have ih: "Suc ks \<le> ks' \<and> ks' \<le> hi \<and> r' = kept_bytes bs ks' ke \<and>
         (over_budget l ks' ke r' \<longrightarrow> ks' = hi) \<and>
         (Suc ks < ks' \<longrightarrow> over_budget l (ks' - 1) ke (kept_bytes bs (ks' - 1) ke))"
      by auto
    moreover have "ks' = Suc ks \<Longrightarrow> over_budget l (ks' - 1) ke (kept_bytes bs (ks' - 1) ke)"
      using True "1.prems"(2) by simp
    ultimately show ?thesis by (cases "ks' = Suc ks") auto
  next
    case False
    then have "ks' = ks" "r' = r" using "1.prems"(1) by (subst (asm) trim_start.simps, auto split: if_splits)+
    then show ?thesis using False "1.prems" by auto
  qed
qed

text \<open>
  What the two eviction loops leave: the protected rows and every row of the middle are kept,
  the opposite side goes first, and the incoming side is touched only when the opposite side is
  already cut back to the protected range.
\<close>

definition trim_ok :: "direction \<Rightarrow> window_limits \<Rightarrow> int list \<Rightarrow> nat \<Rightarrow> nat \<Rightarrow> nat \<Rightarrow> nat \<Rightarrow> nat \<times> nat \<times> int \<Rightarrow> bool" where
  "trim_ok d l bs pc oc ps pe res \<longleftrightarrow>
     (case res of (ks, ke, r) \<Rightarrow>
        ks \<le> ps \<and> pe \<le> ke \<and> ke \<le> pc + oc \<and> r = kept_bytes bs ks ke \<and>
        (case d of Before \<Rightarrow> ks \<le> pc \<and> (0 < ks \<longrightarrow> ke = pe)
                 | After \<Rightarrow> oc \<le> ke \<and> (ke < pc + oc \<longrightarrow> ks = ps)) \<and>
        (\<not> over_budget l 0 (pc + oc) (sum_list bs) \<longrightarrow> ks = 0 \<and> ke = pc + oc))"

lemma window_trim_ok:
  assumes "length bs = pc + oc" "ps < pe" "pe \<le> pc + oc"
    and "d = Before \<Longrightarrow> pc \<le> ps" "d = After \<Longrightarrow> pe \<le> oc"
  shows "trim_ok d l bs pc oc ps pe (window_trim d l bs pc oc ps pe (sum_list bs))"
proof (cases d)
  case Before
  obtain ke r1 where e: "trim_end l bs pe 0 (pc + oc) (sum_list bs) = (ke, r1)" by fastforce
  obtain ks r2 where s: "trim_start l bs (min pc ps) 0 ke r1 = (ks, r2)" by fastforce
  have E: "pe \<le> ke \<and> ke \<le> pc + oc \<and> r1 = kept_bytes bs 0 ke \<and> (over_budget l 0 ke r1 \<longrightarrow> ke = pe) \<and>
      (ke < pc + oc \<longrightarrow> over_budget l 0 (Suc ke) (kept_bytes bs 0 (Suc ke)))"
    using trim_end_spec[OF e] assms by (simp add: kept_bytes_def)
  have S: "ks \<le> min pc ps \<and> r2 = kept_bytes bs ks ke \<and>
      (0 < ks \<longrightarrow> over_budget l (ks - 1) ke (kept_bytes bs (ks - 1) ke))"
    using trim_start_spec[OF s] E assms Before by auto
  have full: "\<not> over_budget l 0 (pc + oc) (sum_list bs) \<Longrightarrow> ke = pc + oc \<and> r1 = sum_list bs"
    using e by (subst (asm) trim_end.simps) auto
  have noev: "\<not> over_budget l 0 ke r1 \<Longrightarrow> ks = 0"
    using s by (subst (asm) trim_start.simps) auto
  have res: "window_trim d l bs pc oc ps pe (sum_list bs) = (ks, ke, r2)"
    by (simp add: window_trim_def Let_def Before e s)
  show ?thesis
    unfolding trim_ok_def res using E S noev full assms Before by auto
next
  case After
  obtain ks r1 where s: "trim_start l bs ps 0 (pc + oc) (sum_list bs) = (ks, r1)" by fastforce
  obtain ke r2 where e: "trim_end l bs (max oc pe) ks (pc + oc) r1 = (ke, r2)" by fastforce
  have S: "ks \<le> ps \<and> r1 = kept_bytes bs ks (pc + oc) \<and> (over_budget l ks (pc + oc) r1 \<longrightarrow> ks = ps)"
    using trim_start_spec[OF s] assms by (simp add: kept_bytes_def)
  have mx: "max oc pe = oc" using assms After by simp
  have E: "oc \<le> ke \<and> ke \<le> pc + oc \<and> r2 = kept_bytes bs ks ke"
    using trim_end_spec[OF e] S assms After mx by auto
  have full: "\<not> over_budget l 0 (pc + oc) (sum_list bs) \<Longrightarrow> ks = 0 \<and> r1 = sum_list bs"
    using s by (subst (asm) trim_start.simps) auto
  have noev: "\<not> over_budget l ks (pc + oc) r1 \<Longrightarrow> ke = pc + oc"
    using e by (subst (asm) trim_end.simps) auto
  have res: "window_trim d l bs pc oc ps pe (sum_list bs) = (ks, ke, r2)"
    using e by (simp add: window_trim_def Let_def After s)
  show ?thesis
    unfolding trim_ok_def res using S E noev full assms After by auto
qed


lemma trim_okD:
  assumes "trim_ok d l bs pc oc ps pe (ks, ke, r)"
  shows "ks \<le> ps" "pe \<le> ke" "ke \<le> pc + oc" "r = kept_bytes bs ks ke"
    "d = Before \<Longrightarrow> ks \<le> pc" "d = Before \<Longrightarrow> 0 < ks \<Longrightarrow> ke = pe"
    "d = After \<Longrightarrow> oc \<le> ke" "d = After \<Longrightarrow> ke < pc + oc \<Longrightarrow> ks = ps"
    "\<not> over_budget l 0 (pc + oc) (sum_list bs) \<Longrightarrow> ks = 0 \<and> ke = pc + oc"
  using assms by (auto simp: trim_ok_def split: direction.splits)

section \<open>Committed pages\<close>

definition joined :: "direction \<Rightarrow> 'a list \<Rightarrow> 'a list \<Rightarrow> 'a list" where
  "joined d page old = (if d = Before then page @ old else old @ page)"

lemma length_joined [simp]: "length (joined d page old) = length page + length old"
  by (simp add: joined_def)

lemma list_all_joined [simp]: "list_all P (joined d page old) \<longleftrightarrow> list_all P page \<and> list_all P old"
  by (auto simp: joined_def)

definition joined_start :: "direction \<Rightarrow> int \<Rightarrow> window \<Rightarrow> int" where
  "joined_start d page_start s = (if d = Before then page_start else hw_start s)"

text \<open>A page that has passed every check before the merge.\<close>

definition page_ready :: "window \<Rightarrow> window_page \<Rightarrow> int list \<Rightarrow> window_anchor \<Rightarrow> window_range \<Rightarrow> int \<Rightarrow> bool" where
  "page_ready s page bs anchor prot ps \<longleftrightarrow>
     window_ok s \<and> pg_lines page \<noteq> [] \<and> length bs = length (pg_lines page) \<and>
     list_all non_negative_integer bs \<and> 0 \<le> ps \<and> ps + int (length (pg_lines page)) \<le> max_safe \<and>
     (if pg_direction page = Before then ps + int (length (pg_lines page)) = hw_start s
      else ps = window_end_line s) \<and>
     hw_start s \<le> wr_start prot \<and> wr_end prot \<le> window_end_line s \<and>
     wr_start prot \<le> wa_line anchor \<and> wa_line anchor < wr_end prot"

text \<open>The committed result in terms of the kept index range \<open>[ks, ke)\<close> of the joined rows.\<close>

definition commit_ok ::
  "window \<Rightarrow> window_page \<Rightarrow> int list \<Rightarrow> window_anchor \<Rightarrow> window_range \<Rightarrow> int \<Rightarrow> nat \<Rightarrow> nat \<Rightarrow> apply_success \<Rightarrow> bool" where
  "commit_ok s page bs anchor prot ps ks ke r \<longleftrightarrow>
     (let d = pg_direction page; next = as_state r; oc = length (hw_lines s); pc = length (pg_lines page);
          cs = joined_start d ps s; lines = joined d (pg_lines page) (hw_lines s);
          all = joined d bs (hw_line_bytes s);
          lo = nat (wr_start prot - cs); hi = nat (wr_end prot - cs)
      in trim_ok d (hw_limits s) all pc oc lo hi (ks, ke, kept_bytes all ks ke) \<and>
         \<not> over_budget (hw_limits s) ks ke (kept_bytes all ks ke) \<and>
         (if d = Before then ks < min pc ke else max oc ks < ke) \<and>
         lo < hi \<and> (if d = Before then pc \<le> lo else hi \<le> oc) \<and> hi \<le> pc + oc \<and>
         sum_list all \<le> max_safe \<and> as_kind r = Committed \<and>
         hw_start next = cs + int ks \<and> hw_lines next = drop ks (take ke lines) \<and>
         hw_line_bytes next = drop ks (take ke all) \<and> hw_bytes next = kept_bytes all ks ke \<and>
         hw_limits next = hw_limits s \<and>
         as_anchor r = anchor_commit_of s next anchor \<and>
         as_accepted r = (if d = Before then range_stats_of cs all ks (min pc ke)
                          else range_stats_of cs all (max oc ks) ke) \<and>
         as_evicted r = (if d = Before then range_stats_of cs all (max ke pc) (pc + oc)
                         else range_stats_of cs all 0 (min ks oc)) \<and>
         as_discarded r = (if d = Before then range_stats_of cs all 0 (min ks pc)
                           else range_stats_of cs all (max ke oc) (pc + oc)) \<and>
         hw_older next = (if d = Before then pg_has_more page \<or> as_discarded r \<noteq> None
                          else hw_older s \<or> as_evicted r \<noteq> None) \<and>
         hw_newer next = (if d = After then pg_has_more page \<or> as_discarded r \<noteq> None
                          else hw_newer s \<or> as_evicted r \<noteq> None))"

lemma attach_flag_cursor_sel [simp]:
  "hw_start (attach_flag_cursor next s d c) = hw_start next"
  "hw_lines (attach_flag_cursor next s d c) = hw_lines next"
  "hw_line_bytes (attach_flag_cursor next s d c) = hw_line_bytes next"
  "hw_bytes (attach_flag_cursor next s d c) = hw_bytes next"
  "hw_older (attach_flag_cursor next s d c) = hw_older next"
  "hw_newer (attach_flag_cursor next s d c) = hw_newer next"
  "hw_limits (attach_flag_cursor next s d c) = hw_limits next"
  by (simp_all add: attach_flag_cursor_def Let_def)

lemma window_ok_attach [simp]: "window_ok (attach_flag_cursor next s d c) = window_ok next"
  by (simp add: window_ok_def window_end_line_def)

lemma window_contains_attach [simp]:
  "window_contains (attach_flag_cursor next s d c) l = window_contains next l"
  by (simp add: window_contains_def window_end_line_def)

lemma anchor_commit_of_attach [simp]:
  "anchor_commit_of s (attach_flag_cursor next s' d c) a = anchor_commit_of s next a"
  by (simp add: anchor_commit_of_def)

lemma kept_bytes_le:
  assumes "list_all non_negative_integer bs"
  shows "kept_bytes bs i j \<le> sum_list bs"
proof -
  have "take j bs = take i (take j bs) @ drop i (take j bs)" by (rule append_take_drop_id [symmetric])
  then have "sum_list (take j bs) = sum_list (take i (take j bs)) + kept_bytes bs i j"
    unfolding kept_bytes_def by (metis sum_list_append)
  moreover have "sum_list bs = sum_list (take j bs) + sum_list (drop j bs)"
    by (metis append_take_drop_id sum_list_append)
  moreover have "0 \<le> sum_list (take i (take j bs))" "0 \<le> sum_list (drop j bs)"
    using assms by (auto intro!: sum_list_bytes_nonneg simp: list_all_iff dest!: in_set_takeD in_set_dropD)
  ultimately show ?thesis by simp
qed

lemma range_stats_of_eq:
  assumes "list_all non_negative_integer bs" "sum_list bs \<le> max_safe"
  shows "range_stats_of cs bs i j =
    (if j \<le> i then None
     else Some \<lparr>rs_start = cs + int i, rs_end = cs + int j, rs_rows = int j - int i, rs_bytes = kept_bytes bs i j\<rparr>)"
  using kept_bytes_le[OF assms(1), of i j] assms
  by (simp add: range_stats_of_def sum_bytes_eq Let_def kept_bytes_def)

lemma page_ready_indices:
  assumes "page_ready s page bs anchor prot ps"
  defines "d \<equiv> pg_direction page" and "cs \<equiv> joined_start (pg_direction page) ps s"
  shows "nat (wr_start prot - cs) < nat (wr_end prot - cs)"
    "nat (wr_end prot - cs) \<le> length (pg_lines page) + length (hw_lines s)"
    "d = Before \<Longrightarrow> length (pg_lines page) \<le> nat (wr_start prot - cs)"
    "d = After \<Longrightarrow> nat (wr_end prot - cs) \<le> length (hw_lines s)"
    "0 \<le> cs" "cs + int (length (pg_lines page) + length (hw_lines s)) \<le> max_safe"
    "cs \<le> wr_start prot"
  using assms by (auto simp: page_ready_def window_ok_def window_end_line_def joined_start_def
      split: if_splits direction.splits)

lemma commit_page_total:
  assumes ready: "page_ready s page bs anchor prot ps"
    and com: "commit_page s page bs flag anchor prot ps = res"
  shows "res = Rejected InvalidPage \<or> res = Rejected BudgetCannotPreserveAnchor \<or>
    (\<exists>r ks ke. res = Applied r \<and> commit_ok s page bs anchor prot ps ks ke r \<and> window_ok (as_state r) \<and>
        window_contains (as_state r) (wa_line anchor))"
proof -
  let ?d = "pg_direction page" and ?oc = "length (hw_lines s)" and ?pc = "length (pg_lines page)"
  let ?cs = "joined_start ?d ps s" and ?lines = "joined ?d (pg_lines page) (hw_lines s)"
  let ?all = "joined ?d bs (hw_line_bytes s)"
  let ?lo = "nat (wr_start prot - ?cs)" and ?hi = "nat (wr_end prot - ?cs)"
  note idx = page_ready_indices[OF ready]
  have ok: "window_ok s" "length bs = ?pc" "list_all non_negative_integer bs"
    using ready by (auto simp: page_ready_def)
  note W = window_okD[OF ok(1)]
  have all: "list_all non_negative_integer ?all" "length ?all = ?pc + ?oc" using ok W by auto
  show ?thesis
  proof (cases "sum_list ?all \<le> max_safe")
    case False
    then have "commit_page s page bs flag anchor prot ps = Rejected InvalidPage"
      using sum_all_bytes_eq[OF all(1)]
      by (simp add: commit_page_def Let_def joined_def split: if_splits)
    then show ?thesis using com by simp
  next
    case True
    note rs = range_stats_of_eq[OF all(1) True]
    obtain ks ke kept where trim: "window_trim ?d (hw_limits s) ?all ?pc ?oc ?lo ?hi (sum_list ?all) = (ks, ke, kept)"
      by (metis prod_cases3)
    have T: "trim_ok ?d (hw_limits s) ?all ?pc ?oc ?lo ?hi (ks, ke, kept)"
      using window_trim_ok[OF all(2) idx(1,2), of ?d "hw_limits s"] idx(3,4) trim by simp
    note TD = trim_okD[OF T]
    let ?ev = "if ?d = Before then range_stats_of ?cs ?all (max ke ?pc) (?pc + ?oc)
               else range_stats_of ?cs ?all 0 (min ks ?oc)"
    let ?di = "if ?d = Before then range_stats_of ?cs ?all 0 (min ks ?pc)
               else range_stats_of ?cs ?all (max ke ?oc) (?oc + ?pc)"
    let ?N = "committed_window s page ?cs ?lines ?all ks ke kept ?ev ?di"
    let ?ac = "if ?d = Before then range_stats_of ?cs ?all ks (min ?pc ke)
               else range_stats_of ?cs ?all (max ?oc ks) ke"
    have run: "res = (if over_budget (hw_limits s) ks ke kept then Rejected BudgetCannotPreserveAnchor
        else case ?ac of None \<Rightarrow> Rejected BudgetCannotPreserveAnchor
        | Some accepted \<Rightarrow>
            if state_error ?N \<noteq> None then Rejected InvalidState
            else if \<not> window_contains ?N (wa_line anchor) then Rejected BudgetCannotPreserveAnchor
            else Applied \<lparr>as_kind = Committed, as_state = attach_flag_cursor ?N s ?d flag,
                   as_anchor = anchor_commit_of s ?N anchor, as_accepted = Some accepted,
                   as_evicted = ?ev, as_discarded = ?di\<rparr>)"
      using com trim sum_all_bytes_eq[OF all(1)] True
      by (cases ?d) (simp_all add: commit_page_def Let_def joined_def joined_start_def cong: if_cong option.case_cong)
    have lt: "ks < ke" by (rule le_less_trans [OF TD(1) less_le_trans [OF idx(1) TD(2)]])
    have kept: "kept = kept_bytes ?all ks ke" by (rule TD(4))
    have len: "length (drop ks (take ke ?lines)) = ke - ks" using TD(3) by simp
    have N: "window_ok ?N" if "\<not> over_budget (hw_limits s) ks ke kept"
    proof -
      have "int ks + int (ke - ks) \<le> int (?pc + ?oc)" using TD(3) lt by linarith
      then have "?cs + int ks + int (ke - ks) \<le> max_safe" using idx(6) by linarith
      moreover have "list_all non_negative_integer (drop ks (take ke ?all))"
        using all(1) by (auto simp: list_all_iff dest!: in_set_dropD in_set_takeD)
      ultimately show ?thesis
        using that lt TD(3) idx(5) W(7) all(2) len kept
        by (auto simp: window_ok_def committed_window_def window_end_line_def kept_bytes_def over_budget_def)
    qed
    have "hw_start s \<le> max_safe" using W(2) by (simp add: window_end_line_def)
    then have C: "window_contains ?N (wa_line anchor)"
      using ready TD(1-3) idx len W(1,2) unfolding page_ready_def
      by (auto simp: window_contains_def committed_window_def window_end_line_def valid_absolute_line_def safe_int_def)
    show ?thesis
    proof (cases "over_budget (hw_limits s) ks ke kept \<or> ?ac = None")
      case True
      then have "res = Rejected BudgetCannotPreserveAnchor"
        unfolding run by (elim disjE) (simp_all only: if_True if_cancel option.case(1))
      then show ?thesis by simp
    next
      case False
      then obtain acc where acc: "?ac = Some acc" by (auto simp: not_None_eq)
      define r where "r = \<lparr>as_kind = Committed, as_state = attach_flag_cursor ?N s ?d flag,
                   as_anchor = anchor_commit_of s ?N anchor, as_accepted = Some acc,
                   as_evicted = ?ev, as_discarded = ?di\<rparr>"
      have res: "res = Applied r"
        using run False acc N C state_error_none[of ?N] unfolding r_def by (simp cong: if_cong option.case_cong)
      have "(if ?d = Before then ks < min ?pc ke else max ?oc ks < ke)"
        using acc unfolding rs by (auto split: if_splits)
      then have "commit_ok s page bs anchor prot ps ks ke r"
        using T False True idx acc kept
        by (cases ?d) (auto simp: commit_ok_def Let_def r_def committed_window_def add.commute)
      moreover have st: "as_state r = attach_flag_cursor ?N s ?d flag" by (simp add: r_def)
      moreover have "window_ok (as_state r)" unfolding st window_ok_attach using N False by blast
      moreover have "window_contains (as_state r) (wa_line anchor)"
        unfolding st window_contains_attach by (rule C)
      ultimately show ?thesis using res by blast
    qed
  qed
qed

definition protected_of :: "window_anchor \<Rightarrow> window_range option \<Rightarrow> window_range" where
  "protected_of anchor protected = or_else protected \<lparr>wr_start = wa_line anchor, wr_end = wa_line anchor + 1\<rparr>"

lemma estimate_all_nonneg:
  "estimate_all ls ov = Inr bs \<Longrightarrow> length bs = length ls \<and> list_all non_negative_integer bs"
  by (induction ls arbitrary: bs)
    (auto simp: estimate_line_bytes_def Let_def window_number_defs split: sum.splits if_splits)

lemma resolve_line_bytes_ok:
  "resolve_line_bytes ls supplied ov = Inr (Some bs) \<Longrightarrow>
   length bs = length ls \<and> list_all non_negative_integer bs"
  by (auto simp: resolve_line_bytes_def split: option.splits sum.splits if_splits dest: estimate_all_nonneg)

lemma page_readyI:
  assumes "window_ok s" "pg_lines page \<noteq> []"
    "resolve_line_bytes (pg_lines page) (pg_line_bytes page) ov = Inr (Some bs)"
    "valid_absolute_line ps" "add_safe ps (int (length (pg_lines page))) = Some y"
    "if pg_direction page = Before then ps + int (length (pg_lines page)) = hw_start s else ps = window_end_line s"
    "\<not> wr_start prot < hw_start s" "\<not> window_end_line s < wr_end prot"
    "\<not> wa_line anchor < wr_start prot" "\<not> wr_end prot \<le> wa_line anchor"
  shows "page_ready s page bs anchor prot ps"
  using assms resolve_line_bytes_ok[OF assms(3)]
  by (auto simp: page_ready_def window_number_defs split: if_splits)

text \<open>The guards of \<open>applyHistoryWindowPage\<close> in front of the merge, and its three ways to succeed.\<close>

definition edge_ok :: "window \<Rightarrow> window_page \<Rightarrow> window_anchor \<Rightarrow> apply_success \<Rightarrow> bool" where
  "edge_ok s page anchor r \<longleftrightarrow>
     (let open_edge = (pg_continuation page = Some ContBlocked) in
      pg_lines page = [] \<and>
      edge_page (if open_edge then Blocked else Boundary) open_edge s page
        (flag_token (copy_flag_cursor (pg_flag_cursor page))) anchor = Applied r \<and>
      pg_has_more page = open_edge)"

lemma apply_history_window_page_cases:
  assumes "apply_history_window_page s page anchor protected = Inr res"
  obtains (rejected) reason where "res = Rejected reason"
      "reason \<in> {InvalidState, InvalidAnchor, InvalidProtectedRange, StaleCursor, InvalidPage,
                 EmptyPageWithMore, NonContiguousPage}"
      "reason = InvalidState \<Longrightarrow> \<not> window_ok s"
  | (edge) r where "res = Applied r" "window_ok s" "window_contains s (wa_line anchor)" "edge_ok s page anchor r"
  | (merge) bs ps where "page_ready s page bs anchor (protected_of anchor protected) ps"
      "pg_start page = Some ps" "pg_anchor_line page = (if pg_direction page = Before then hw_start s else window_end_line s - 1)"
      "res = commit_page s page bs (flag_token (copy_flag_cursor (pg_flag_cursor page))) anchor
               (protected_of anchor protected) ps"
proof -
  have S: "safe_int i \<Longrightarrow> i \<le> max_safe" for i by (simp add: safe_int_def)
  note A = assms[unfolded apply_history_window_page_def Let_def state_error_none, folded protected_of_def]
  show ?thesis
  proof (cases "window_ok s \<and> window_contains s (wa_line anchor)")
    case False
    then show ?thesis using A rejected by (auto split: if_splits)
  next
    case True
    note ok = True
    show ?thesis
    proof (cases "pg_lines page = []")
      case True
      then show ?thesis using A ok rejected edge
        by (auto simp: edge_ok_def Let_def edge_page_def split: if_splits sum.splits option.splits)
    next
      case False
      then show ?thesis
        using A ok rejected
        apply (auto split: if_splits sum.splits option.splits)
        apply (rule merge, rule page_readyI, assumption, assumption, assumption, assumption, assumption, 
            (cases "pg_direction page"; simp), simp, simp, simp, simp, simp, simp, simp)+
        done
    qed
  qed
qed

section \<open>Properties\<close>

lemma edge_okD:
  assumes "edge_ok s page anchor r"
  shows "pg_lines page = []" "hw_start (as_state r) = hw_start s" "hw_lines (as_state r) = hw_lines s"
    "hw_line_bytes (as_state r) = hw_line_bytes s" "hw_bytes (as_state r) = hw_bytes s"
    "hw_limits (as_state r) = hw_limits s" "as_kind r \<noteq> Committed"
    "as_accepted r = None" "as_evicted r = None" "as_discarded r = None"
    "as_anchor r = anchor_commit_of s (as_state r) anchor"
    "pg_has_more page \<longleftrightarrow> pg_continuation page = Some ContBlocked"
    "hw_older (as_state r) = (if pg_direction page = Before then pg_has_more page else hw_older s)"
    "hw_newer (as_state r) = (if pg_direction page = After then pg_has_more page else hw_newer s)"
  using assms by (auto simp: edge_ok_def edge_page_def Let_def anchor_commit_of_def)

lemma edge_ok_window:
  assumes "edge_ok s page anchor r"
  shows "window_ok (as_state r) = window_ok s" "window_contains (as_state r) l = window_contains s l"
    "window_end_line (as_state r) = window_end_line s"
  using edge_okD[OF assms] by (auto simp: window_ok_def window_end_line_def window_contains_def)

text \<open>Every success of an apply, in one place.\<close>

lemma applied_cases:
  assumes "apply_history_window_page s page anchor protected = Inr (Applied r)"
  obtains (edge) "window_ok s" "window_contains s (wa_line anchor)" "edge_ok s page anchor r"
  | (commit) bs ps ks ke where
      "page_ready s page bs anchor (protected_of anchor protected) ps" "pg_start page = Some ps"
      "commit_ok s page bs anchor (protected_of anchor protected) ps ks ke r"
      "window_ok (as_state r)" "window_contains (as_state r) (wa_line anchor)"
  using assms
proof (cases rule: apply_history_window_page_cases)
  case (merge bs ps)
  then show ?thesis using commit_page_total[OF merge(1) merge(4)[symmetric]] commit by auto
qed (use edge in auto)



text \<open>The rows of a window as a contiguous piece of an archive \<open>A\<close> of absolute lines.\<close>

definition rows_at :: "(int \<Rightarrow> jstr) \<Rightarrow> int \<Rightarrow> jstr list \<Rightarrow> bool" where
  "rows_at A start rows \<longleftrightarrow> (\<forall>i < length rows. rows ! i = A (start + int i))"

lemma rows_at_append:
  "rows_at A a (xs @ ys) \<longleftrightarrow> rows_at A a xs \<and> rows_at A (a + int (length xs)) ys"
proof
  assume L: "rows_at A a (xs @ ys)"
  have "xs ! i = A (a + int i)" if "i < length xs" for i
    using L[unfolded rows_at_def, rule_format, of i] that by (simp add: nth_append)
  moreover have "ys ! i = A (a + int (length xs) + int i)" if "i < length ys" for i
    using L[unfolded rows_at_def, rule_format, of "length xs + i"] that by (simp add: add.assoc)
  ultimately show "rows_at A a xs \<and> rows_at A (a + int (length xs)) ys" by (simp add: rows_at_def)
next
  assume R: "rows_at A a xs \<and> rows_at A (a + int (length xs)) ys"
  show "rows_at A a (xs @ ys)" unfolding rows_at_def
  proof (intro allI impI)
    fix i assume i: "i < length (xs @ ys)"
    show "(xs @ ys) ! i = A (a + int i)"
    proof (cases "i < length xs")
      case True then show ?thesis using R by (simp add: rows_at_def nth_append)
    next
      case False
      then have "a + int (length xs) + int (i - length xs) = a + int i" by simp
      then show ?thesis using R i False by (simp add: rows_at_def nth_append)
    qed
  qed
qed

lemma rows_at_slice:
  assumes "rows_at A a rows" "ke \<le> length rows"
  shows "rows_at A (a + int ks) (drop ks (take ke rows))"
  using assms by (auto simp: rows_at_def add.assoc)

lemma rows_at_joined:
  assumes "rows_at A ps page" "rows_at A (hw_start s) (hw_lines s)"
    and "if d = Before then ps + int (length page) = hw_start s else ps = window_end_line s"
  shows "rows_at A (joined_start d ps s) (joined d page (hw_lines s))"
  using assms by (auto simp: joined_start_def joined_def rows_at_append window_end_line_def)

lemma apply_page_rows:
  assumes "rows_at A (hw_start s) (hw_lines s)"
    and "\<And>ps. pg_start page = Some ps \<Longrightarrow> rows_at A ps (pg_lines page)"
    and "apply_history_window_page s page anchor protected = Inr (Applied r)"
  shows "rows_at A (hw_start (as_state r)) (hw_lines (as_state r))"
  using assms(3)
proof (cases rule: applied_cases)
  case edge
  then show ?thesis using edge_okD[OF edge(3)] assms(1) by simp
next
  case (commit bs ps ks ke)
  let ?d = "pg_direction page"
  have "rows_at A (joined_start ?d ps s) (joined ?d (pg_lines page) (hw_lines s))"
    using rows_at_joined[OF assms(2)[OF commit(2)] assms(1)] commit(1) by (auto simp: page_ready_def)
  moreover have "ke \<le> length (joined ?d (pg_lines page) (hw_lines s))"
    using commit(3) trim_okD(3) by (auto simp: commit_ok_def Let_def)
  ultimately show ?thesis using rows_at_slice commit(3) by (auto simp: commit_ok_def Let_def)
qed

text \<open>A window opened on the archive and fed pages of it, in any order and with any anchors.\<close>

inductive window_run :: "(int \<Rightarrow> jstr) \<Rightarrow> window \<Rightarrow> bool" for A where
  opened: "create_history_window opts = Inr s \<Longrightarrow> rows_at A (co_start opts) (co_lines opts) \<Longrightarrow> window_run A s"
| paged: "window_run A s \<Longrightarrow> apply_history_window_page s page anchor protected = Inr (Applied r) \<Longrightarrow>
    (\<forall>ps. pg_start page = Some ps \<longrightarrow> rows_at A ps (pg_lines page)) \<Longrightarrow> window_run A (as_state r)"

lemma resolved_limits_ok: "resolved_limits p = Inr l \<Longrightarrow> limits_ok l"
  by (auto simp: resolved_limits_def Let_def limits_ok_def split: if_splits)

lemma create_history_window_ok:
  assumes "create_history_window opts = Inr s"
  shows "window_ok s \<and> hw_start s = co_start opts \<and> hw_lines s = co_lines opts"
proof -
  from assms obtain limits bs tot where
    l: "resolved_limits (co_limits opts) = Inr limits" and
    b: "resolve_line_bytes (co_lines opts) (co_line_bytes opts) (wl_overhead limits) = Inr (Some bs)" and
    t: "sum_all_bytes bs = Some tot" and
    c: "valid_absolute_line (co_start opts)" "co_lines opts \<noteq> []"
      "add_safe (co_start opts) (int (length (co_lines opts))) \<noteq> None"
      "int (length (co_lines opts)) \<le> wl_max_rows limits" "tot \<le> wl_max_bytes limits" and
    s: "hw_start s = co_start opts" "hw_lines s = co_lines opts" "hw_line_bytes s = bs" "hw_bytes s = tot"
       "hw_limits s = limits"
    by (auto simp: create_history_window_def split: sum.splits option.splits if_splits)
  have B: "length bs = length (co_lines opts)" "list_all non_negative_integer bs"
    using resolve_line_bytes_ok[OF b] by auto
  have "tot = sum_list bs" using t sum_all_bytes_eq[OF B(2)] by (simp split: if_splits)
  then show ?thesis
    using c s B resolved_limits_ok[OF l]
    by (auto simp: window_ok_def window_end_line_def window_number_defs split: if_splits)
qed

lemma window_run_inv: "window_run A s \<Longrightarrow> window_ok s \<and> rows_at A (hw_start s) (hw_lines s)"
proof (induction rule: window_run.induct)
  case (opened opts s)
  then show ?case using create_history_window_ok[OF opened(1)] by simp
next
  case (paged s page anchor protected r)
  have "window_ok (as_state r)"
    using paged(2) by (cases rule: applied_cases) (use edge_ok_window paged.IH in auto)
  then show ?case using apply_page_rows[OF _ _ paged(2)] paged by blast
qed

text \<open>
  C3: The window is a faithful view of the archive. However a window was opened on an
  archive and paged (pages in either direction, blocked or empty, any anchors and protected ranges, evictions
  and discards included), each resident row is the archive's row of that absolute line and nothing is lost, doubled or
  reordered in between; the window is within its row and byte budgets, and the cursor it asks
  the next page with names its current first or last line, so a page answered at that
  cursor is never refused as stale.
\<close>

theorem window_run_shows_archive:
  assumes "window_run A s"
  shows "(\<forall>i < length (hw_lines s). hw_lines s ! i = A (hw_start s + int i)) \<and>
    hw_lines s \<noteq> [] \<and> int (length (hw_lines s)) \<le> wl_max_rows (hw_limits s) \<and>
    sum_list (hw_line_bytes s) \<le> wl_max_bytes (hw_limits s) \<and>
    (\<forall>d c page anchor protected. window_request_cursor s d = Some c \<and> pg_direction page = d \<and>
        pg_anchor_line page = rc_line c \<longrightarrow>
        apply_history_window_page s page anchor protected \<noteq> Inr (Rejected StaleCursor))"
proof -
  note inv = window_run_inv[OF assms] and W = window_okD[OF conjunct1[OF window_run_inv[OF assms]]]
  have ne: "0 < int (length (hw_lines s))" using W(3) by simp
  have v: "valid_absolute_line (hw_start s)" "valid_absolute_line (window_end_line s - 1)"
    using W(1,2) ne unfolding window_number_defs window_end_line_def by linarith+
  have com: "commit_page s page bs flag anchor prot ps \<noteq> Rejected StaleCursor" for page bs flag anchor prot ps
    by (auto simp: commit_page_def Let_def split: option.split prod.split)
  have "apply_history_window_page s page anchor protected \<noteq> Inr (Rejected StaleCursor)"
    if "window_request_cursor s d = Some c" "pg_direction page = d" "pg_anchor_line page = rc_line c"
    for d c page anchor protected
  proof -
    have "pg_anchor_line page = (if d = Before then hw_start s else window_end_line s - 1)"
      using that by (auto simp: window_request_cursor_def split: direction.splits if_splits)
    then show ?thesis using v com that(2)
      by (auto simp: apply_history_window_page_def Let_def edge_page_def split: option.split sum.split)
  qed
  then show ?thesis using inv W by (auto simp: rows_at_def)
qed


text \<open>What a reported range says: the absolute lines \<open>[a, b)\<close> and their bytes, absent when empty.\<close>

definition stats_span :: "range_stats option \<Rightarrow> int \<Rightarrow> int \<Rightarrow> bool" where
  "stats_span x a b \<longleftrightarrow>
     (case x of None \<Rightarrow> a = b
      | Some st \<Rightarrow> a < b \<and> rs_start st = a \<and> rs_end st = b \<and> rs_rows st = b - a)"

definition stats_bytes :: "range_stats option \<Rightarrow> int" where
  "stats_bytes x = (case x of None \<Rightarrow> 0 | Some st \<Rightarrow> rs_bytes st)"

lemma kept_bytes_split:
  assumes "i \<le> j" "j \<le> k"
  shows "kept_bytes bs i j + kept_bytes bs j k = kept_bytes bs i k"
proof -
  have "drop i (take k bs) = drop i (take j bs) @ drop j (take k bs)"
  proof (cases "j \<le> length bs")
    case True
    have "take k bs = take j bs @ drop j (take k bs)"
      using assms by (metis append_take_drop_id min.absorb1 take_take)
    then have "drop i (take k bs) = drop i (take j bs @ drop j (take k bs))" by simp
    also have "\<dots> = drop i (take j bs) @ drop j (take k bs)" using assms True by simp
    finally show ?thesis .
  next
    case False
    then show ?thesis using assms by simp
  qed
  then show ?thesis by (simp add: kept_bytes_def)
qed

lemma stats_span_range:
  assumes "list_all non_negative_integer bs" "sum_list bs \<le> max_safe" "i \<le> j"
  shows "stats_span (range_stats_of cs bs i j) (cs + int i) (cs + int j)"
    and "stats_bytes (range_stats_of cs bs i j) = kept_bytes bs i j"
  using assms by (auto simp: range_stats_of_eq stats_span_def stats_bytes_def kept_bytes_def)

text \<open>The committed tiling for a page before and a page after the window.\<close>

definition tiles_before :: "window \<Rightarrow> int \<Rightarrow> apply_success \<Rightarrow> bool" where
  "tiles_before s ps r \<longleftrightarrow>
     (let next = as_state r in
      stats_span (as_discarded r) ps (hw_start next) \<and>
      stats_span (as_accepted r) (hw_start next) (hw_start s) \<and>
      stats_span (as_evicted r) (window_end_line next) (window_end_line s))"

definition tiles_after :: "window \<Rightarrow> int \<Rightarrow> apply_success \<Rightarrow> bool" where
  "tiles_after s pe r \<longleftrightarrow>
     (let next = as_state r in
      stats_span (as_evicted r) (hw_start s) (hw_start next) \<and>
      stats_span (as_accepted r) (window_end_line s) (window_end_line next) \<and>
      stats_span (as_discarded r) (window_end_line next) pe)"

lemma commit_before:
  assumes ready: "page_ready s page bs anchor prot ps" and com: "commit_ok s page bs anchor prot ps ks ke r"
    and d: "pg_direction page = Before"
  defines "pc \<equiv> length (pg_lines page)" and "oc \<equiv> length (hw_lines s)" and "all \<equiv> bs @ hw_line_bytes s"
  shows "ks < pc" "pc \<le> ke" "ke \<le> pc + oc" "hw_start (as_state r) = ps + int ks"
    "window_end_line (as_state r) = ps + int ke" "hw_start s = ps + int pc"
    "window_end_line s = ps + int (pc + oc)"
    "as_accepted r = range_stats_of ps all ks pc" "as_evicted r = range_stats_of ps all ke (pc + oc)"
    "as_discarded r = range_stats_of ps all 0 ks" "hw_bytes (as_state r) = kept_bytes all ks ke"
    "sum_list all \<le> max_safe" "0 < ks \<Longrightarrow> ps + int ke = wr_end prot"
    "ps + int ke < wr_end prot \<Longrightarrow> False" "wr_start prot < ps + int ks \<Longrightarrow> False"
proof -
  note idx = page_ready_indices[OF ready]
  from com d have T: "trim_ok Before (hw_limits s) all pc oc (nat (wr_start prot - ps)) (nat (wr_end prot - ps))
      (ks, ke, kept_bytes all ks ke)"
    by (simp add: commit_ok_def Let_def joined_def joined_start_def pc_def oc_def all_def)
  note TD = trim_okD[OF T]
  have lo: "int pc \<le> wr_start prot - ps" "wr_start prot < wr_end prot" "ps + int pc = hw_start s"
    using ready d by (auto simp: page_ready_def pc_def)
  show k: "pc \<le> ke" using TD(2) lo by linarith
  have "ks < min pc ke" using com d by (simp add: commit_ok_def Let_def pc_def)
  then show k1: "ks < pc" by simp
  show k2: "ke \<le> pc + oc" by (rule TD(3))
  show "hw_start (as_state r) = ps + int ks" "as_accepted r = range_stats_of ps all ks pc"
    "as_evicted r = range_stats_of ps all ke (pc + oc)"
    "as_discarded r = range_stats_of ps all 0 ks" "hw_bytes (as_state r) = kept_bytes all ks ke"
    "sum_list all \<le> max_safe" "window_end_line (as_state r) = ps + int ke"
    using com d k k1 k2
    by (simp_all add: commit_ok_def Let_def joined_def joined_start_def pc_def oc_def all_def window_end_line_def
        min_absorb1 max_absorb1)
  show "hw_start s = ps + int pc" "window_end_line s = ps + int (pc + oc)"
    using lo(3) by (simp_all add: window_end_line_def oc_def)
  show "0 < ks \<Longrightarrow> ps + int ke = wr_end prot" using TD(6) lo by auto
  show "ps + int ke < wr_end prot \<Longrightarrow> False" using TD(2) by linarith
  show "wr_start prot < ps + int ks \<Longrightarrow> False" using TD(1) lo by linarith
qed

lemma commit_after:
  assumes ready: "page_ready s page bs anchor prot ps" and com: "commit_ok s page bs anchor prot ps ks ke r"
    and d: "pg_direction page = After"
  defines "pc \<equiv> length (pg_lines page)" and "oc \<equiv> length (hw_lines s)" and "all \<equiv> hw_line_bytes s @ bs"
  shows "ks \<le> oc" "oc < ke" "ke \<le> pc + oc" "hw_start (as_state r) = hw_start s + int ks"
    "window_end_line (as_state r) = hw_start s + int ke" "ps = hw_start s + int oc"
    "window_end_line s = hw_start s + int oc"
    "as_accepted r = range_stats_of (hw_start s) all oc ke" "as_evicted r = range_stats_of (hw_start s) all 0 ks"
    "as_discarded r = range_stats_of (hw_start s) all ke (pc + oc)" "hw_bytes (as_state r) = kept_bytes all ks ke"
    "sum_list all \<le> max_safe" "ke < pc + oc \<Longrightarrow> hw_start s + int ks = wr_start prot"
    "hw_start s + int ke < wr_end prot \<Longrightarrow> False" "wr_start prot < hw_start s + int ks \<Longrightarrow> False"
proof -
  from com d have T: "trim_ok After (hw_limits s) all pc oc (nat (wr_start prot - hw_start s))
      (nat (wr_end prot - hw_start s)) (ks, ke, kept_bytes all ks ke)"
    by (simp add: commit_ok_def Let_def joined_def joined_start_def pc_def oc_def all_def)
  note TD = trim_okD[OF T]
  have lo: "hw_start s \<le> wr_start prot" "wr_start prot < wr_end prot" "wr_end prot \<le> hw_start s + int oc"
    "ps = hw_start s + int oc"
    using ready d by (auto simp: page_ready_def oc_def window_end_line_def)
  show k: "ks \<le> oc" using TD(1) lo by linarith
  have "max oc ks < ke" using com d by (simp add: commit_ok_def Let_def oc_def)
  then show k1: "oc < ke" by simp
  show k2: "ke \<le> pc + oc" by (rule TD(3))
  have len: "int (ke - ks) = int ke - int ks" using k k1 by simp
  show "hw_start (as_state r) = hw_start s + int ks" "as_accepted r = range_stats_of (hw_start s) all oc ke"
    "as_evicted r = range_stats_of (hw_start s) all 0 ks"
    "as_discarded r = range_stats_of (hw_start s) all ke (pc + oc)" "hw_bytes (as_state r) = kept_bytes all ks ke"
    "sum_list all \<le> max_safe" "window_end_line (as_state r) = hw_start s + int ke"
    using com d k k1 k2 len
    by (simp_all add: commit_ok_def Let_def joined_def joined_start_def pc_def oc_def all_def window_end_line_def
        min_absorb1 max_absorb1 add.commute[of "length (pg_lines page)"])
  show "ps = hw_start s + int oc" "window_end_line s = hw_start s + int oc"
    using lo(4) by (simp_all add: window_end_line_def oc_def)
  show "ke < pc + oc \<Longrightarrow> hw_start s + int ks = wr_start prot" using TD(8) lo by auto
  show "hw_start s + int ke < wr_end prot \<Longrightarrow> False" using TD(2) lo by linarith
  show "wr_start prot < hw_start s + int ks \<Longrightarrow> False" using TD(1) lo by linarith
qed

lemma commit_tiles:
  assumes ready: "page_ready s page bs anchor prot ps" and com: "commit_ok s page bs anchor prot ps ks ke r"
  shows "(if pg_direction page = Before then tiles_before s ps r
          else tiles_after s (ps + int (length (pg_lines page))) r) \<and>
    hw_bytes (as_state r) + stats_bytes (as_evicted r) = hw_bytes s + stats_bytes (as_accepted r)"
proof -
  let ?oc = "length (hw_lines s)" and ?pc = "length (pg_lines page)"
  have W: "window_ok s" "length bs = ?pc" "list_all non_negative_integer bs" using ready by (auto simp: page_ready_def)
  note WD = window_okD[OF W(1)]
  show ?thesis
  proof (cases "pg_direction page")
    case Before
    note B = commit_before[OF ready com Before]
    have all: "list_all non_negative_integer (bs @ hw_line_bytes s)" using W(3) WD(5) by simp
    note span = stats_span_range[OF all B(12)]
    have old: "kept_bytes (bs @ hw_line_bytes s) ?pc (?pc + ?oc) = hw_bytes s"
      using W(2) WD(4,6) by (simp add: kept_bytes_def)
    have "hw_bytes (as_state r) + stats_bytes (as_evicted r) = hw_bytes s + stats_bytes (as_accepted r)"
      using kept_bytes_split[of ks ?pc ke "bs @ hw_line_bytes s"] kept_bytes_split[of ?pc ke "?pc + ?oc" "bs @ hw_line_bytes s"]
        B(1-3) old by (simp add: B(8,9,11) span(2))
    moreover have "tiles_before s ps r"
      using span(1)[of ks ?pc ps] span(1)[of ke "?pc + ?oc" ps] span(1)[of 0 ks ps] B(1-3)
      unfolding tiles_before_def Let_def B(4-10) by simp
    ultimately show ?thesis using Before by simp
  next
    case After
    note B = commit_after[OF ready com After]
    have all: "list_all non_negative_integer (hw_line_bytes s @ bs)" using W(3) WD(5) by simp
    note span = stats_span_range[OF all B(12)]
    have old: "kept_bytes (hw_line_bytes s @ bs) 0 ?oc = hw_bytes s"
      using W(2) WD(4,6) by (simp add: kept_bytes_def)
    have "hw_bytes (as_state r) + stats_bytes (as_evicted r) = hw_bytes s + stats_bytes (as_accepted r)"
      using kept_bytes_split[of 0 ks ?oc "hw_line_bytes s @ bs"] kept_bytes_split[of ks ?oc ke "hw_line_bytes s @ bs"]
        B(1-3) old by (simp add: B(8,9,11) span(2))
    moreover have "tiles_after s (ps + int ?pc) r"
      using span(1)[of ?oc ke "hw_start s"] span(1)[of ke "?pc + ?oc" "hw_start s"] span(1)[of 0 ks "hw_start s"] B(1-3)
      unfolding tiles_after_def Let_def B(4-10) by (simp add: add.commute add.left_commute)
    ultimately show ?thesis using After by simp
  qed
qed


text \<open>
  A committed page is accounted for line by line. The page's and the window's old lines are
  tiled exactly by discarded, accepted, retained and evicted ranges, as reported; at least one incoming row is
  accepted; the byte estimate moves by accepted minus evicted; the protected range stays resident;
  incoming rows are discarded only after the opposite side was cut back to the protected range; and
  whatever was dropped on either side stays reachable: the edge it left through still has a request
  cursor.
\<close>

theorem committed_page_accounting:
  assumes "apply_history_window_page s page anchor protected = Inr (Applied r)" and "as_kind r = Committed"
  shows "\<exists>ps. pg_start page = Some ps \<and>
    (let next = as_state r; prot = or_else protected \<lparr>wr_start = wa_line anchor, wr_end = wa_line anchor + 1\<rparr> in
     (case pg_direction page of
        Before \<Rightarrow> tiles_before s ps r \<and> ps + int (length (pg_lines page)) = hw_start s \<and>
                  (as_discarded r \<noteq> None \<longrightarrow> window_end_line next = wr_end prot) \<and>
                  (as_discarded r \<noteq> None \<longrightarrow> window_request_cursor next Before \<noteq> None) \<and>
                  (as_evicted r \<noteq> None \<longrightarrow> window_request_cursor next After \<noteq> None)
      | After \<Rightarrow> tiles_after s (ps + int (length (pg_lines page))) r \<and> ps = window_end_line s \<and>
                  (as_discarded r \<noteq> None \<longrightarrow> hw_start next = wr_start prot) \<and>
                  (as_discarded r \<noteq> None \<longrightarrow> window_request_cursor next After \<noteq> None) \<and>
                  (as_evicted r \<noteq> None \<longrightarrow> window_request_cursor next Before \<noteq> None)) \<and>
     as_accepted r \<noteq> None \<and>
     hw_bytes next + stats_bytes (as_evicted r) = hw_bytes s + stats_bytes (as_accepted r) \<and>
     hw_start next \<le> wr_start prot \<and> wr_end prot \<le> window_end_line next)"
  using assms(1)
proof (cases rule: applied_cases)
  case edge
  then show ?thesis using edge_okD(7)[OF edge(3)] assms(2) by simp
next
  case (commit bs ps ks ke)
  note ready = commit(1) and com = commit(3)
  note T = commit_tiles[OF ready com]
  have all: "list_all non_negative_integer bs" "list_all non_negative_integer (hw_line_bytes s)"
    using ready window_okD(5) by (auto simp: page_ready_def)
  have more: "(as_discarded r \<noteq> None \<longrightarrow> (if pg_direction page = Before then hw_older (as_state r) else hw_newer (as_state r))) \<and>
      (as_evicted r \<noteq> None \<longrightarrow> (if pg_direction page = Before then hw_newer (as_state r) else hw_older (as_state r)))"
    using com by (cases "pg_direction page") (simp_all add: commit_ok_def Let_def)
  show ?thesis
  proof (cases "pg_direction page")
    case Before
    note B = commit_before[OF ready com Before]
    have sb: "list_all non_negative_integer (bs @ hw_line_bytes s)" using all by simp
    have "as_accepted r \<noteq> None" using B(1) by (simp add: B(8) range_stats_of_eq[OF sb B(12)])
    moreover have "as_discarded r \<noteq> None \<Longrightarrow> 0 < ks"
      by (auto simp: B(10) range_stats_of_eq[OF sb B(12)] split: if_splits)
    ultimately show ?thesis
      using T more Before B(4-7) B(13-15) commit(2)
      by (auto simp: Let_def protected_of_def window_request_cursor_def not_less[symmetric] simp del: not_None_eq)
  next
    case After
    note B = commit_after[OF ready com After]
    have sb: "list_all non_negative_integer (hw_line_bytes s @ bs)" using all by simp
    have "as_accepted r \<noteq> None" using B(2) by (simp add: B(8) range_stats_of_eq[OF sb B(12)])
    moreover have "as_discarded r \<noteq> None \<Longrightarrow> ke < length (pg_lines page) + length (hw_lines s)"
      by (auto simp: B(10) range_stats_of_eq[OF sb B(12)] split: if_splits)
    ultimately show ?thesis
      using T more After B(4-7) B(13-15) commit(2)
      by (auto simp: Let_def protected_of_def window_request_cursor_def not_less[symmetric] simp del: not_None_eq)
  qed
qed

text \<open>
  An empty page never loses rows and never pretends. It leaves rows, range and bytes as
  they are, and moves only its own edge: a blocked page (pending, gap, remote) keeps the edge
  pageable, so it never reads as the end of the history, and only an empty page that says it
  has no more closes the edge. An empty page claiming more is refused.
\<close>

theorem empty_page_edge:
  assumes "state_error s = None" and "pg_lines page = []"
    and "apply_history_window_page s page anchor protected = Inr res"
  shows "case res of
      Rejected reason \<Rightarrow> reason \<noteq> InvalidState \<and> reason \<noteq> BudgetCannotPreserveAnchor
    | Applied r \<Rightarrow>
        (let next = as_state r; d = pg_direction page; d' = (if d = Before then After else Before) in
         as_kind r = (if pg_has_more page then Blocked else Boundary) \<and>
         (pg_has_more page \<longrightarrow> pg_continuation page = Some ContBlocked) \<and>
         hw_start next = hw_start s \<and> hw_lines next = hw_lines s \<and> hw_line_bytes next = hw_line_bytes s \<and>
         hw_bytes next = hw_bytes s \<and>
         (window_request_cursor next d \<noteq> None) = pg_has_more page \<and>
         (window_request_cursor next d' \<noteq> None) = (window_request_cursor s d' \<noteq> None))"
  using assms(3)
proof (cases rule: apply_history_window_page_cases)
  case (rejected reason)
  then show ?thesis using assms(1) by (auto simp: state_error_none)
next
  case (edge r)
  note E = edge_okD[OF edge(4)]
  have "as_kind r = (if pg_has_more page then Blocked else Boundary)"
    using edge(4) by (auto simp: edge_ok_def edge_page_def Let_def)
  then show ?thesis using E edge(1)
    by (cases "pg_direction page") (auto simp: window_request_cursor_def Let_def)
next
  case (merge bs ps)
  then show ?thesis using assms(2) by (simp add: page_ready_def)
qed


section \<open>Witnesses\<close>

definition example_options :: create_options where
  "example_options = \<lparr>co_start = 5, co_lines = [[1], [2], [3]], co_line_bytes = None, co_older = None,
     co_newer = None, co_limits = \<lparr>pl_max_rows = Some 4, pl_max_bytes = None, pl_overhead = None\<rparr>\<rparr>"

definition example_window :: window where
  "example_window = \<lparr>hw_start = 5, hw_lines = [[1], [2], [3]], hw_line_bytes = [66, 66, 66], hw_bytes = 198,
     hw_older = True, hw_newer = False,
     hw_limits = \<lparr>wl_max_rows = 4, wl_max_bytes = 8388608, wl_overhead = 64\<rparr>,
     hw_cursor_before = None, hw_cursor_after = None\<rparr>"

definition example_page :: window_page where
  "example_page = \<lparr>pg_direction = Before, pg_anchor_line = 5, pg_start = Some 2, pg_lines = [[7], [8], [9]],
     pg_line_bytes = None, pg_has_more = True, pg_continuation = Some ContMore, pg_flag_cursor = None\<rparr>"

definition example_anchor :: window_anchor where
  "example_anchor = \<lparr>wa_line = 6, wa_offset = Fin 0\<rparr>"

definition example_applied :: apply_success where
  "example_applied = \<lparr>as_kind = Committed,
     as_state = \<lparr>hw_start = 3, hw_lines = [[8], [9], [1], [2]], hw_line_bytes = [66, 66, 66, 66], hw_bytes = 264,
        hw_older = True, hw_newer = True,
        hw_limits = \<lparr>wl_max_rows = 4, wl_max_bytes = 8388608, wl_overhead = 64\<rparr>,
        hw_cursor_before = None, hw_cursor_after = None\<rparr>,
     as_anchor = \<lparr>ac_line = 6, ac_offset = Fin 0, ac_previous = 1, ac_next = 3, ac_delta = 2\<rparr>,
     as_accepted = Some \<lparr>rs_start = 3, rs_end = 5, rs_rows = 2, rs_bytes = 132\<rparr>,
     as_evicted = Some \<lparr>rs_start = 7, rs_end = 8, rs_rows = 1, rs_bytes = 66\<rparr>,
     as_discarded = Some \<lparr>rs_start = 2, rs_end = 3, rs_rows = 1, rs_bytes = 66\<rparr>\<rparr>"

lemma example_create: "create_history_window example_options = Inr example_window"
  by code_simp

lemma example_apply:
  "apply_history_window_page example_window example_page example_anchor None = Inr (Applied example_applied)"
  by code_simp

lemma example_state_ok: "state_error example_window = None"
  by code_simp


definition example_archive :: "int \<Rightarrow> jstr" where
  "example_archive n = (if n \<le> 4 then [word_of_int (n + 5)] else [word_of_int (n - 4)])"

lemma example_run: "window_run example_archive (as_state example_applied)"
proof (rule window_run.paged)
  show "window_run example_archive example_window"
    by (rule window_run.opened [OF example_create])
      (auto simp: rows_at_def example_options_def example_archive_def less_Suc_eq numeral_eq_Suc)
  show "apply_history_window_page example_window example_page example_anchor None = Inr (Applied example_applied)"
    by (rule example_apply)
  show "\<forall>ps. pg_start example_page = Some ps \<longrightarrow> rows_at example_archive ps (pg_lines example_page)"
    by (auto simp: rows_at_def example_page_def example_archive_def less_Suc_eq numeral_eq_Suc)
qed

lemma window_run_shows_archive_witness:
  "hw_lines (as_state example_applied) \<noteq> [] \<and> hw_lines (as_state example_applied) ! 0 = example_archive 3"
proof -
  have len: "0 < length (hw_lines (as_state example_applied))" "hw_start (as_state example_applied) = 3"
    by (simp_all add: example_applied_def)
  show ?thesis using window_run_shows_archive [OF example_run] len(1) unfolding len(2) by force
qed

lemma committed_page_accounting_witness:
  "as_accepted example_applied \<noteq> None \<and> hw_start (as_state example_applied) \<le> 6"
  using committed_page_accounting [OF example_apply]
  by (auto simp: example_applied_def example_anchor_def or_else_def)

definition example_blocked :: window_page where
  "example_blocked = example_page\<lparr>pg_lines := [], pg_start := None, pg_continuation := Some ContBlocked\<rparr>"

definition example_blocked_result :: apply_success where
  "example_blocked_result = \<lparr>as_kind = Blocked, as_state = example_window,
     as_anchor = \<lparr>ac_line = 6, ac_offset = Fin 0, ac_previous = 1, ac_next = 1, ac_delta = 0\<rparr>,
     as_accepted = None, as_evicted = None, as_discarded = None\<rparr>"

lemma example_blocked_apply:
  "apply_history_window_page example_window example_blocked example_anchor None = Inr (Applied example_blocked_result)"
  by code_simp

lemma empty_page_edge_witness:
  "as_kind example_blocked_result = Blocked \<and> window_request_cursor (as_state example_blocked_result) Before \<noteq> None"
  using empty_page_edge [OF example_state_ok _ example_blocked_apply]
  by (simp add: example_blocked_def example_page_def Let_def)

end
