(* ===== verification/Row_Matcher.thy ===== *)
theory Row_Matcher
  imports Text_Codec
begin

text \<open>
  Matching of parser rows against captured rows, \<open>server/src/history-row-matcher.ts\<close>: exact row
  equality and its accelerated variants, row interning, the Z function, triple uniqueness, the
  classification of checked and content-matched rows, the full matcher and the incremental chain.
  Rows are values; the caches of the source (projection memo, sampled index, neighbour memo) are
  parameters that choose between routes proved equal. Style bits are 32-bit words, as the source's bitwise
  operators read them.
\<close>

section \<open>Rows\<close>

record hist_cell =
  hc_grapheme :: jstr
  hc_width :: nat
  hc_continuation :: bool
  hc_fg :: jstr
  hc_bg :: jstr
  hc_style :: "32 word"

record captured_row =
  cr_cells :: "hist_cell list"
  cr_soft_wrap :: bool

record history_row = captured_row +
  hr_line_id :: int
  hr_epoch :: int
  hr_geometry :: int

definition row_of :: "history_row \<Rightarrow> captured_row" where
  "row_of r = \<lparr>cr_cells = cr_cells r, cr_soft_wrap = cr_soft_wrap r\<rparr>"

definition equal_cells :: "hist_cell \<Rightarrow> hist_cell \<Rightarrow> 32 word \<Rightarrow> bool" where
  "equal_cells a b keep \<longleftrightarrow>
     hc_grapheme a = hc_grapheme b \<and> hc_width a = hc_width b \<and> hc_continuation a = hc_continuation b \<and>
     hc_fg a = hc_fg b \<and> hc_bg a = hc_bg b \<and> and (xor (hc_style a) (hc_style b)) keep = 0"

definition certified_cell :: "32 word \<Rightarrow> hist_cell \<Rightarrow> hist_cell" where
  "certified_cell keep c =
     (if and (hc_style c) (not keep) = 0 then c else c\<lparr>hc_style := and (hc_style c) keep\<rparr>)"

definition certified_rows :: "captured_row list \<Rightarrow> 32 word \<Rightarrow> captured_row list" where
  "certified_rows rows keep =
     map (\<lambda>row. if list_all (\<lambda>c. and (hc_style c) (not keep) = 0) (cr_cells row) then row
                else row\<lparr>cr_cells := map (certified_cell keep) (cr_cells row)\<rparr>) rows"

definition same_cell :: "hist_cell \<Rightarrow> hist_cell \<Rightarrow> bool" where
  "same_cell c d \<longleftrightarrow>
     hc_grapheme c = hc_grapheme d \<and> hc_width c = hc_width d \<and> hc_continuation c = hc_continuation d \<and>
     hc_fg c = hc_fg d \<and> hc_bg c = hc_bg d \<and> hc_style c = hc_style d"

definition equal_history_rows :: "captured_row \<Rightarrow> captured_row \<Rightarrow> bool" where
  "equal_history_rows a b \<longleftrightarrow>
     cr_soft_wrap a = cr_soft_wrap b \<and> length (cr_cells a) = length (cr_cells b) \<and>
     list_all (\<lambda>x. same_cell (cr_cells a ! x) (cr_cells b ! x)) [0..<length (cr_cells a)]"

definition equal_rows_around :: "captured_row \<Rightarrow> captured_row \<Rightarrow> nat \<Rightarrow> bool" where
  "equal_rows_around a b probe \<longleftrightarrow>
     cr_soft_wrap a = cr_soft_wrap b \<and> length (cr_cells a) = length (cr_cells b) \<and>
     (let n = length (cr_cells a); same = (\<lambda>x. same_cell (cr_cells a ! x) (cr_cells b ! x)) in
      n = 0 \<or>
      (let start = min probe (n - 1) in
       list_all same (rev [0..<Suc start]) \<and> list_all same [Suc start..<n]))"

text \<open>The sampled key: 32-bit multiply and xor over the glyphs of a few columns.\<close>

definition key_mix :: "32 word \<Rightarrow> jstr \<Rightarrow> 32 word" where
  "key_mix key glyph =
     xor (foldl (\<lambda>k c. xor k (ucast c) * 16777619) key glyph) 0xff * 16777619"

function every_eighth :: "nat \<Rightarrow> nat \<Rightarrow> nat list" where
  "every_eighth x n = (if x < n then x # every_eighth (x + 8) n else [])"
  by pat_completeness auto
termination by (relation "measure (\<lambda>(x, n). n - x)") auto

declare every_eighth.simps [simp del]

definition row_sample_key :: "captured_row \<Rightarrow> 32 word" where
  "row_sample_key row =
     (let cells = cr_cells row; n = length cells; head = min 16 n;
          columns = [0..<head] @ every_eighth (head + 7) (n - 1) @ (if head < n then [n - 1] else [])
      in foldl (\<lambda>key x. key_mix key (hc_grapheme (cells ! x)))
           (xor (of_nat n) (if cr_soft_wrap row then 0x40000000 else 0)) columns)"

section \<open>Interning\<close>

record intern_state =
  in_buckets :: "32 word \<Rightarrow> (captured_row \<times> nat) list"
  in_id :: nat

definition intern_row :: "bool \<Rightarrow> captured_row \<Rightarrow> intern_state \<Rightarrow> nat \<times> intern_state" where
  "intern_row private row st =
     (if private then (Suc (in_id st), st\<lparr>in_id := Suc (in_id st)\<rparr>)
      else
        (let key = row_sample_key row; bucket = in_buckets st key in
         case find (\<lambda>entry. equal_history_rows (fst entry) row) bucket of
           Some entry \<Rightarrow> (snd entry, st)
         | None \<Rightarrow> (Suc (in_id st),
             \<lparr>in_buckets = (in_buckets st)(key := bucket @ [(row, Suc (in_id st))]), in_id = Suc (in_id st)\<rparr>)))"

fun intern_part :: "(nat \<Rightarrow> bool) \<Rightarrow> nat \<Rightarrow> captured_row list \<Rightarrow> intern_state \<Rightarrow> nat list \<times> intern_state" where
  "intern_part priv y [] st = ([], st)"
| "intern_part priv y (row # rows) st =
     (let (i, st1) = intern_row (priv y) row st; (is, st2) = intern_part priv (Suc y) rows st1
      in (i # is, st2))"

definition intern_rows :: "captured_row list \<Rightarrow> captured_row list \<Rightarrow> nat set \<Rightarrow> nat list \<times> nat list" where
  "intern_rows recent captured uncertain =
     (let (a, st) = intern_part (\<lambda>_. False) 0 recent \<lparr>in_buckets = (\<lambda>_. []), in_id = 0\<rparr>;
          (b, _) = intern_part (\<lambda>y. y \<in> uncertain) 0 captured st
      in (a, b))"

section \<open>The Z function\<close>

function z_extend :: "'a list \<Rightarrow> nat \<Rightarrow> nat \<Rightarrow> nat" where
  "z_extend values i z =
     (if i + z < length values \<and> values ! z = values ! (i + z) then z_extend values i (Suc z) else z)"
  by pat_completeness auto
termination by (relation "measure (\<lambda>(values, i, z). length values - (i + z))") auto

declare z_extend.simps [simp del]

function z_loop :: "'a list \<Rightarrow> nat \<Rightarrow> nat \<Rightarrow> nat \<Rightarrow> nat list \<Rightarrow> nat list" where
  "z_loop values i left right z =
     (if i < length values then
        (let z0 = (if i \<le> right then min (right + 1 - i) (z ! (i - left)) else z ! i);
             zi = z_extend values i z0;
             (left', right') = (if right < i + zi - 1 then (i, i + zi - 1) else (left, right))
         in z_loop values (Suc i) left' right' (z[i := zi]))
      else z)"
  by pat_completeness auto
termination by (relation "measure (\<lambda>(values, i, left, right, z). length values - i)") auto

declare z_loop.simps [simp del]

definition z_values :: "'a list \<Rightarrow> nat list" where
  "z_values values = z_loop values 1 0 0 (replicate (length values) 0)"

definition occurrences :: "nat list \<Rightarrow> nat list \<Rightarrow> nat" where
  "occurrences pattern values =
     (let z = z_values (map Some pattern @ [None] @ map Some values)
      in length (filter (\<lambda>n. length pattern \<le> n) (drop (length pattern + 1) z)))"

section \<open>Triples and classification\<close>

datatype triple_key = NumKey nat | TextKey jstr

definition triple_key :: "nat list \<Rightarrow> nat \<Rightarrow> nat \<Rightarrow> triple_key" where
  "triple_key values i base =
     (if base < 200000 then NumKey ((values ! i * base + values ! (i + 1)) * base + values ! (i + 2))
      else TextKey (dec_nat (values ! i) @ js '','' @ dec_nat (values ! (i + 1)) @ js '','' @
                    dec_nat (values ! (i + 2))))"

definition triple_counts :: "nat list \<Rightarrow> nat \<Rightarrow> triple_key \<Rightarrow> nat" where
  "triple_counts values base =
     foldl (\<lambda>counts i.
        if values ! i = values ! (i + 1) \<and> values ! i = values ! (i + 2) then counts
        else counts(triple_key values i base := Suc (counts (triple_key values i base))))
      (\<lambda>_. 0) [0..<length values - 2]"

function run_end :: "(nat \<Rightarrow> bool) \<Rightarrow> nat \<Rightarrow> nat \<Rightarrow> nat" where
  "run_end equal e hi = (if e < hi \<and> equal e then run_end equal (Suc e) hi else e)"
  by pat_completeness auto
termination by (relation "measure (\<lambda>(equal, e, hi). hi - e)") auto

function first_anchor :: "(nat \<Rightarrow> bool) \<Rightarrow> nat \<Rightarrow> nat \<Rightarrow> nat" where
  "first_anchor anchor first e =
     (if first + 2 < e \<and> \<not> anchor first then first_anchor anchor (Suc first) e else first)"
  by pat_completeness auto
termination by (relation "measure (\<lambda>(anchor, first, e). e - first)") auto

function last_anchor :: "(nat \<Rightarrow> bool) \<Rightarrow> nat \<Rightarrow> nat \<Rightarrow> nat" where
  "last_anchor anchor first lst =
     (if first < lst \<and> \<not> anchor lst then last_anchor anchor first (lst - 1) else lst)"
  by pat_completeness auto
termination by (relation "measure (\<lambda>(anchor, first, lst). lst)") auto

declare run_end.simps [simp del] first_anchor.simps [simp del] last_anchor.simps [simp del]

definition mark_run :: "(nat \<Rightarrow> bool) \<Rightarrow> nat \<Rightarrow> nat \<Rightarrow> nat \<Rightarrow> bool list \<Rightarrow> bool list" where
  "mark_run same_as_next from first lst covered =
     foldl (\<lambda>cov x. if \<not> same_as_next (x - 1) \<and> \<not> same_as_next x then cov[x - from := True] else cov)
       covered [first + 1..<lst + 2]"

text \<open>
  The position of the last anchor starts at \<open>end - 3\<close>; the truncated difference of natural
  numbers takes the loop and the following test to the same answer as a negative number.
\<close>

function classify_loop ::
  "nat \<Rightarrow> nat \<Rightarrow> (nat \<Rightarrow> bool) \<Rightarrow> (nat \<Rightarrow> bool) \<Rightarrow> (nat \<Rightarrow> bool) \<Rightarrow> nat \<Rightarrow> bool list \<Rightarrow> bool list" where
  "classify_loop from hi equal same_as_next unique start covered =
     (if start < hi then
        (if \<not> equal start then classify_loop from hi equal same_as_next unique (Suc start) covered
         else
           (let anchor = (\<lambda>i. \<not> (same_as_next i \<and> same_as_next (i + 1)) \<and> unique i);
                e = run_end equal start hi;
                first = first_anchor anchor start e;
                lst = last_anchor anchor first (e - 3);
                covered' = (if first + 2 < e \<and> first < lst
                            then mark_run same_as_next from first lst covered else covered)
            in classify_loop from hi equal same_as_next unique (max e (Suc start)) covered'))
      else covered)"
  by pat_completeness auto
termination
  by (relation "measure (\<lambda>(from, hi, equal, same, uniq, start, covered). hi - start)") (auto simp: Let_def)

declare classify_loop.simps [simp del]

definition classify ::
  "nat \<Rightarrow> nat \<Rightarrow> (nat \<Rightarrow> bool) \<Rightarrow> (nat \<Rightarrow> bool) \<Rightarrow> (nat \<Rightarrow> bool) \<Rightarrow> bool list" where
  "classify from hi equal same_as_next unique =
     classify_loop from hi equal same_as_next unique from (replicate (hi - from) False)"

record row_check =
  ck_line_id :: int
  ck_row :: nat

datatype match_reason = Matched | Ambiguous | PartialTail | Generation | NoAnchor

record row_match =
  rm_checks :: "row_check list"
  rm_content :: "row_check list"
  rm_repairs :: "(row_check \<times> captured_row) list"
  rm_reason :: match_reason

definition empty_match :: "match_reason \<Rightarrow> row_match" where
  "empty_match reason = \<lparr>rm_checks = [], rm_content = [], rm_repairs = [], rm_reason = reason\<rparr>"

text \<open>The rows a certification reports, in order: those equal at the offset, split by \<open>covered\<close>.\<close>

definition report_rows ::
  "history_row list \<Rightarrow> int \<Rightarrow> nat \<Rightarrow> nat \<Rightarrow> (nat \<Rightarrow> bool) \<Rightarrow> bool list \<Rightarrow> match_reason \<Rightarrow> row_match" where
  "report_rows recent offset from hi equal covered reason =
     foldl (\<lambda>result i.
        if \<not> equal i then result
        else (let c = \<lparr>ck_line_id = hr_line_id (recent ! i), ck_row = nat (int i + offset)\<rparr> in
              if covered ! (i - from) then result\<lparr>rm_checks := rm_checks result @ [c]\<rparr>
              else result\<lparr>rm_content := rm_content result @ [c]\<rparr>))
      (empty_match reason) [from..<hi]"

definition overlap_from :: "int \<Rightarrow> nat" where
  "overlap_from offset = nat (max 0 (- offset))"

definition overlap_to :: "nat \<Rightarrow> nat \<Rightarrow> int \<Rightarrow> nat" where
  "overlap_to la lb offset = nat (min (int la) (int lb - offset))"

definition certify ::
  "history_row list \<Rightarrow> nat list \<Rightarrow> nat list \<Rightarrow> int \<Rightarrow> match_reason \<Rightarrow> row_match" where
  "certify recent a b offset reason =
     (let from = overlap_from offset; hi = overlap_to (length a) (length b) offset in
      if hi \<le> from then empty_match reason
      else
        (let base = max (length a) (length b) * 2 + 2;
             count_a = triple_counts a base; count_b = triple_counts b base;
             equal = (\<lambda>i. a ! i = b ! nat (int i + offset));
             covered = classify from hi equal (\<lambda>i. a ! i = a ! (i + 1))
               (\<lambda>i. count_a (triple_key a i base) = 1 \<and> count_b (triple_key a i base) = 1)
         in report_rows recent offset from hi equal covered reason))"

section \<open>Uniqueness without interning\<close>

definition grapheme_at :: "captured_row \<Rightarrow> nat \<Rightarrow> jstr option" where
  "grapheme_at row x = (if x < length (cr_cells row) then Some (hc_grapheme (cr_cells row ! x)) else None)"

definition triple_probe :: "captured_row list \<Rightarrow> nat" where
  "triple_probe pattern =
     (case find (\<lambda>x. grapheme_at (pattern ! 0) x \<noteq> grapheme_at (pattern ! 1) x \<or>
                     grapheme_at (pattern ! 0) x \<noteq> grapheme_at (pattern ! 2) x)
             [0..<length (cr_cells (pattern ! 0))] of
        Some x \<Rightarrow> x | None \<Rightarrow> 0)"

fun locate_scan :: "captured_row list \<Rightarrow> captured_row list \<Rightarrow> nat \<Rightarrow> nat list \<Rightarrow> int \<Rightarrow> int" where
  "locate_scan rows pattern probe [] found = found"
| "locate_scan rows pattern probe (i # is) found =
     (if grapheme_at (rows ! i) probe \<noteq> grapheme_at (pattern ! 0) probe then locate_scan rows pattern probe is found
      else if equal_rows_around (rows ! i) (pattern ! 0) probe \<and>
              equal_rows_around (rows ! (i + 1)) (pattern ! 1) probe \<and>
              equal_rows_around (rows ! (i + 2)) (pattern ! 2) probe
      then (if 0 \<le> found then -1 else locate_scan rows pattern probe is (int i))
      else locate_scan rows pattern probe is found)"

definition locate_triple :: "captured_row list \<Rightarrow> captured_row list \<Rightarrow> int" where
  "locate_triple rows pattern =
     (if equal_history_rows (pattern ! 0) (pattern ! 1) \<and> equal_history_rows (pattern ! 0) (pattern ! 2) then -1
      else locate_scan rows pattern (triple_probe pattern) [0..<length rows - 2] (-1))"

definition sampled_triple_key :: "captured_row list \<Rightarrow> nat \<Rightarrow> 32 word" where
  "sampled_triple_key rows i =
     xor ((xor (xor (row_sample_key (rows ! i)) 0x9e3779b9 * 16777619) (row_sample_key (rows ! (i + 1)))) * 16777619)
         (row_sample_key (rows ! (i + 2)) * 0x85ebca6b)"

definition sampled_triple_unique :: "captured_row list \<Rightarrow> nat \<Rightarrow> bool" where
  "sampled_triple_unique rows i =
     (let k = sampled_triple_key rows i;
          group = filter (\<lambda>j. sampled_triple_key rows j = k) [0..<length rows - 2]
      in length group = 1 \<or>
         length (filter (\<lambda>j. j = i \<or>
            equal_history_rows (rows ! j) (rows ! i) \<and>
            equal_history_rows (rows ! (j + 1)) (rows ! (i + 1)) \<and>
            equal_history_rows (rows ! (j + 2)) (rows ! (i + 2))) group) \<le> 1)"

text \<open>
  \<open>tripleIndex\<close>: the first eight queries scan exactly, later ones use the sampled index. Which
  queries these are is the parameter \<open>indexed\<close>.
\<close>

definition triple_index :: "(nat \<Rightarrow> bool) \<Rightarrow> captured_row list \<Rightarrow> nat \<Rightarrow> bool" where
  "triple_index indexed rows i =
     (if indexed i then sampled_triple_unique rows i
      else locate_triple rows [rows ! i, rows ! (i + 1), rows ! (i + 2)] = int i)"

text \<open>
  The neighbour test first compares the column in which an earlier pair differed (\<open>probe\<close>).
\<close>

definition same_neighbour :: "nat \<Rightarrow> captured_row \<Rightarrow> captured_row \<Rightarrow> bool" where
  "same_neighbour probe x y =
     (if length (cr_cells x) = length (cr_cells y) \<and> probe < length (cr_cells x) \<and>
         hc_grapheme (cr_cells x ! probe) \<noteq> hc_grapheme (cr_cells y ! probe) then False
      else equal_history_rows x y)"

record memo_choice =
  mc_recent :: "nat \<Rightarrow> bool"
  mc_captured :: "nat \<Rightarrow> bool"
  mc_probe :: "nat \<Rightarrow> nat"

definition certify_aligned ::
  "memo_choice \<Rightarrow> history_row list \<Rightarrow> captured_row list \<Rightarrow> int \<Rightarrow> nat \<Rightarrow> bool list \<Rightarrow> match_reason \<Rightarrow> row_match" where
  "certify_aligned mc recent captured offset from equal reason =
     (let hi = from + length equal; rows = map row_of recent;
          eq = (\<lambda>i. equal ! (i - from));
          covered = classify from hi eq (\<lambda>i. same_neighbour (mc_probe mc i) (rows ! i) (rows ! (i + 1)))
            (\<lambda>i. triple_index (mc_recent mc) rows i \<and>
                 triple_index (mc_captured mc) captured (nat (int i + offset)))
      in report_rows recent offset from hi eq covered reason)"

section \<open>The full matcher\<close>

record match_scope =
  ms_epoch :: int
  ms_geometry :: int
  ms_complete :: bool
  ms_max_tail_gap :: "nat option"
  ms_uncertain :: "nat set"

definition generation_differs :: "history_row list \<Rightarrow> match_scope \<Rightarrow> bool" where
  "generation_differs recent scope =
     list_ex (\<lambda>r. hr_epoch r \<noteq> ms_epoch scope \<or> hr_geometry r \<noteq> ms_geometry scope) recent"

text \<open>The loop over aligned rows stops at the second difference.\<close>

fun aligned_rows :: "nat set \<Rightarrow> nat \<Rightarrow> captured_row list \<Rightarrow> captured_row list \<Rightarrow> nat \<Rightarrow> bool list \<times> nat" where
  "aligned_rows unc i (r # rs) (c # cs) differences =
     (if differences < 2 then
        (if i \<notin> unc \<and> equal_history_rows r c then
           (let (eq, d) = aligned_rows unc (Suc i) rs cs differences in (True # eq, d))
         else (let (eq, d) = aligned_rows unc (Suc i) rs cs (Suc differences) in (False # eq, d)))
      else (replicate (Suc (length rs)) False, differences))"
| "aligned_rows unc i _ _ differences = ([], differences)"

text \<open>The longest suffix match over the captured end positions: length, end and how often it is reached.\<close>

fun best_suffix :: "(nat \<Rightarrow> nat) \<Rightarrow> nat \<Rightarrow> nat list \<Rightarrow> nat \<times> int \<times> nat \<Rightarrow> nat \<times> int \<times> nat" where
  "best_suffix zb lb [] best = best"
| "best_suffix zb lb (i # is) (len, e, count) =
     best_suffix zb lb is
       (if len < zb i then (zb i, int lb - int i, 1)
        else if zb i = len then (len, e, Suc count) else (len, e, count))"

definition settle :: "row_match \<Rightarrow> row_match" where
  "settle r = (if rm_checks r = [] then r\<lparr>rm_reason := Ambiguous\<rparr> else r)"

definition match_interned ::
  "history_row list \<Rightarrow> nat list \<Rightarrow> nat list \<Rightarrow> nat option \<Rightarrow> row_match" where
  "match_interned recent a b max_tail_gap =
     (if length a < 3 \<or> length b < 3 then empty_match NoAnchor
      else
        (let z = z_values (map Some (rev a) @ [None] @ map Some (rev b));
             (len, e, count) = best_suffix (\<lambda>i. z ! (length a + 1 + i)) (length b) [0..<length b] (0, -1, 0)
         in if len < 3 then empty_match NoAnchor
            else if (case max_tail_gap of Some g \<Rightarrow> int g < int (length b) - e | None \<Rightarrow> False)
            then empty_match NoAnchor
            else
              (let anchor = drop (length a - len) a in
               if count \<noteq> 1 \<or> card (set anchor) < 2 \<or> occurrences anchor a \<noteq> 1 \<or> occurrences anchor b \<noteq> 1
               then empty_match Ambiguous
               else settle (certify recent a b (e - int (length a)) Matched))))"

definition match_history_rows ::
  "memo_choice \<Rightarrow> history_row list \<Rightarrow> captured_row list \<Rightarrow> match_scope \<Rightarrow> row_match" where
  "match_history_rows mc recent captured scope =
     (if \<not> ms_complete scope then empty_match PartialTail
      else if generation_differs recent scope then empty_match Generation
      else
        (let rows = map row_of recent;
             (equal, differences) = aligned_rows (ms_uncertain scope) 0 rows captured 0
         in if 3 \<le> length recent \<and> length recent = length captured \<and> differences < 2
            then settle (certify_aligned mc recent captured 0 0 equal Matched)
            else
              (let (a, b) = intern_rows rows captured (ms_uncertain scope)
               in match_interned recent a b (ms_max_tail_gap scope))))"


section \<open>The incremental chain\<close>

record matcher =
  im_checked :: "(int \<times> captured_row) list"
  im_generation :: "(int \<times> int) option"

definition new_matcher :: matcher where
  "new_matcher = \<lparr>im_checked = [], im_generation = None\<rparr>"

definition matcher_reset :: "matcher \<Rightarrow> matcher" where
  "matcher_reset m = m\<lparr>im_checked := []\<rparr>"

text \<open>\<open>Map.set\<close>: an existing key keeps its place, a new one is appended.\<close>

fun map_set :: "(int \<times> 'a) list \<Rightarrow> int \<Rightarrow> 'a \<Rightarrow> (int \<times> 'a) list" where
  "map_set [] k v = [(k, v)]"
| "map_set ((k', v') # m) k v = (if k' = k then (k, v) # m else (k', v') # map_set m k v)"

fun find_line :: "nat \<Rightarrow> history_row list \<Rightarrow> int \<Rightarrow> nat option" where
  "find_line i [] l = None"
| "find_line i (r # rs) l = (if hr_line_id r = l then Some i else find_line (Suc i) rs l)"

definition still_exact :: "history_row list \<Rightarrow> nat \<Rightarrow> (int \<times> captured_row) list \<Rightarrow> bool" where
  "still_exact recent first prior =
     list_all (\<lambda>(n, l, row). first + n < length recent \<and> hr_line_id (recent ! (first + n)) = l \<and>
                 equal_history_rows row (row_of (recent ! (first + n))))
       (zip [0..<length prior] prior)"

definition overlap_equal :: "nat set \<Rightarrow> captured_row list \<Rightarrow> captured_row list \<Rightarrow> int \<Rightarrow> nat \<Rightarrow> nat \<Rightarrow> bool list" where
  "overlap_equal unc rows captured offset lo hi =
     map (\<lambda>i. nat (int i + offset) \<notin> unc \<and> equal_history_rows (rows ! i) (captured ! nat (int i + offset)))
       [lo..<hi]"

definition match_chain ::
  "memo_choice \<Rightarrow> (int \<times> captured_row) list \<Rightarrow> history_row list \<Rightarrow> captured_row list \<Rightarrow> match_scope \<Rightarrow> row_match" where
  "match_chain mc prior recent captured scope =
     (if generation_differs recent scope then empty_match Generation
      else if length prior \<noteq> 3 then empty_match PartialTail
      else
        (case find_line 0 recent (fst (hd prior)) of
           None \<Rightarrow> empty_match PartialTail
         | Some first \<Rightarrow>
             if \<not> still_exact recent first prior then empty_match PartialTail
             else
               (let rows = map row_of recent; pattern = map snd prior; pos = locate_triple captured pattern in
                if pos < 0 \<or> locate_triple rows pattern \<noteq> int first \<or>
                   list_ex (\<lambda>n. nat pos + n \<in> ms_uncertain scope) [0, 1, 2]
                then empty_match Ambiguous
                else
                  (let offset = pos - int first;
                       lo = overlap_from offset;
                       hi = overlap_to (length recent) (length captured) offset;
                       result = certify_aligned mc recent captured offset lo
                         (overlap_equal (ms_uncertain scope) rows captured offset lo hi) Matched
                   in if pos + 4 < int (length captured) \<and>
                         \<not> list_ex (\<lambda>c. pos + 3 \<le> int (ck_row c)) (rm_checks result)
                      then result\<lparr>rm_reason := Ambiguous\<rparr> else result))))"

definition matcher_match ::
  "memo_choice \<Rightarrow> matcher \<Rightarrow> history_row list \<Rightarrow> captured_row list \<Rightarrow> match_scope \<Rightarrow> row_match \<times> matcher" where
  "matcher_match mc m recent captured scope =
     (let generation = (ms_epoch scope, ms_geometry scope);
          m1 = (if im_generation m \<noteq> Some generation
                then (matcher_reset m)\<lparr>im_generation := Some generation\<rparr> else m)
      in (if ms_complete scope then match_history_rows mc recent captured scope
          else match_chain mc (im_checked m1) recent captured scope, m1))"

text \<open>\<open>remember\<close>: the last three consecutive checks that the ring still holds in a row.\<close>

definition sorted_checks :: "row_check list \<Rightarrow> row_check list" where
  "sorted_checks checks =
     (if list_ex (\<lambda>k. ck_row (checks ! (k - 1)) > ck_row (checks ! k)) [1..<length checks]
      then sort_key ck_row checks else checks)"

definition last_line :: "history_row list \<Rightarrow> int \<Rightarrow> nat option" where
  "last_line recent l =
     (case find_line 0 (rev recent) l of None \<Rightarrow> None | Some i \<Rightarrow> Some (length recent - 1 - i))"

definition line_id_at :: "history_row list \<Rightarrow> nat \<Rightarrow> int option" where
  "line_id_at recent i = (if i < length recent then Some (hr_line_id (recent ! i)) else None)"

fun seed_triple :: "history_row list \<Rightarrow> row_check list \<Rightarrow> nat list \<Rightarrow> row_check list option" where
  "seed_triple recent checks [] = None"
| "seed_triple recent checks (k # ks) =
     (let t0 = checks ! (k - 2); t1 = checks ! (k - 1); t2 = checks ! k in
      if ck_row t1 \<noteq> ck_row t0 + 1 \<or> ck_row t2 \<noteq> ck_row t1 + 1 then seed_triple recent checks ks
      else (case last_line recent (ck_line_id t0) of
              None \<Rightarrow> seed_triple recent checks ks
            | Some p \<Rightarrow>
                if line_id_at recent (p + 1) \<noteq> Some (ck_line_id t1) \<or>
                   line_id_at recent (p + 2) \<noteq> Some (ck_line_id t2)
                then seed_triple recent checks ks
                else Some [t0, t1, t2]))"

definition matcher_remember ::
  "matcher \<Rightarrow> history_row list \<Rightarrow> captured_row list \<Rightarrow> row_match \<Rightarrow> matcher" where
  "matcher_remember m recent captured result =
     (let checks = sorted_checks (rm_checks result) in
      case seed_triple recent checks (rev [2..<length checks]) of
        None \<Rightarrow> m\<lparr>im_checked := []\<rparr>
      | Some triple \<Rightarrow>
          m\<lparr>im_checked := foldl (\<lambda>acc c. map_set acc (ck_line_id c) (captured ! ck_row c)) [] triple\<rparr>)"

section \<open>Row equality and its accelerated variants\<close>

lemma same_cell_eq [simp]: "same_cell c d \<longleftrightarrow> c = d"
  by (auto simp: same_cell_def)

lemma equal_history_rows_eq [simp]: "equal_history_rows a b \<longleftrightarrow> a = b"
proof
  assume E: "equal_history_rows a b"
  then have "cr_cells a = cr_cells b" by (intro nth_equalityI) (auto simp: equal_history_rows_def list_all_iff)
  with E show "a = b" by (simp add: equal_history_rows_def)
qed (simp add: equal_history_rows_def list_all_iff)

lemma equal_rows_around_eq [simp]: "equal_rows_around a b probe \<longleftrightarrow> a = b"
proof
  assume E: "equal_rows_around a b probe"
  let ?n = "length (cr_cells a)" and ?m = "min probe (length (cr_cells a) - 1)"
  have all: "?n = 0 \<or> (list_all (\<lambda>x. cr_cells a ! x = cr_cells b ! x) (rev [0..<Suc ?m]) \<and>
      list_all (\<lambda>x. cr_cells a ! x = cr_cells b ! x) [Suc ?m..<?n])"
    using E unfolding equal_rows_around_def Let_def same_cell_eq by blast
  have "cr_cells a ! x = cr_cells b ! x" if "x < ?n" for x
  proof (cases "x < Suc ?m")
    case True
    then have "x \<in> set (rev [0..<Suc ?m])" by auto
    then show ?thesis using all that unfolding list_all_iff by fastforce
  next
    case False
    then have "x \<in> set [Suc ?m..<?n]" using that by auto
    then show ?thesis using all that unfolding list_all_iff by fastforce
  qed
  then have "cr_cells a = cr_cells b" using E by (intro nth_equalityI) (auto simp: equal_rows_around_def)
  with E show "a = b" by (simp add: equal_rows_around_def)
qed (auto simp: equal_rows_around_def Let_def list_all_iff)

lemma same_neighbour_eq [simp]: "same_neighbour probe x y \<longleftrightarrow> x = y"
  by (auto simp: same_neighbour_def)

lemma certified_rows_bits:
  "length (certified_rows rows keep) = length rows"
  by (simp add: certified_rows_def)

section \<open>The Z function is correct\<close>

definition z_spec :: "'a list \<Rightarrow> nat \<Rightarrow> nat \<Rightarrow> bool" where
  "z_spec v i z \<longleftrightarrow> i + z \<le> length v \<and> (\<forall>k<z. v ! k = v ! (i + k)) \<and>
     (i + z < length v \<longrightarrow> v ! z \<noteq> v ! (i + z))"

lemma z_extend_spec:
  "i + z \<le> length v \<Longrightarrow> \<forall>k<z. v ! k = v ! (i + k) \<Longrightarrow> z_spec v i (z_extend v i z)"
proof (induction v i z rule: z_extend.induct)
  case (1 v i z)
  show ?case
  proof (cases "i + z < length v \<and> v ! z = v ! (i + z)")
    case True
    then have "z_spec v i (z_extend v i (Suc z))"
      using "1.IH" "1.prems" by (simp add: less_Suc_eq)
    then show ?thesis using True by (subst z_extend.simps) simp
  next
    case False
    then show ?thesis using "1.prems" by (subst z_extend.simps) (auto simp: z_spec_def)
  qed
qed

definition z_box :: "'a list \<Rightarrow> nat \<Rightarrow> nat \<Rightarrow> nat \<Rightarrow> bool" where
  "z_box v i l r \<longleftrightarrow> (l = 0 \<and> r = 0 \<or> 1 \<le> l \<and> l < i) \<and> (r < length v) \<and>
     (\<forall>k. l + k \<le> r \<longrightarrow> 1 \<le> l \<longrightarrow> v ! k = v ! (l + k))"

lemma z_loop_spec:
  assumes "z_box v i l r" "length z = length v" "1 \<le> i" "\<forall>j. 1 \<le> j \<and> j < i \<and> j < length v \<longrightarrow> z_spec v j (z ! j)"
    "\<forall>j. i \<le> j \<and> j < length v \<longrightarrow> z ! j = 0"
  shows "length (z_loop v i l r z) = length v \<and>
         (\<forall>j. 1 \<le> j \<and> j < length v \<longrightarrow> z_spec v j (z_loop v i l r z ! j))"
  using assms
proof (induction v i l r z rule: z_loop.induct)
  case (1 v i l r z)
  show ?case
  proof (cases "i < length v")
    case False
    then show ?thesis using "1.prems" by (subst (1 2) z_loop.simps) auto
  next
    case True
    define z0 where "z0 = (if i \<le> r then min (r + 1 - i) (z ! (i - l)) else z ! i)"
    define zi where "zi = z_extend v i z0"
    obtain l' r' where lr: "(if r < i + zi - 1 then (i, i + zi - 1) else (l, r)) = (l', r')" by fastforce
    have box: "z_box v i l r" by (rule "1.prems"(1))
    have z0: "i + z0 \<le> length v \<and> (\<forall>k<z0. v ! k = v ! (i + k))"
    proof (cases "i \<le> r")
      case False
      then show ?thesis using "1.prems"(5) True by (simp add: z0_def)
    next
      case inside: True
      have l: "1 \<le> l" "l < i" using box inside "1.prems"(3) by (auto simp: z_box_def)
      have sp: "z_spec v (i - l) (z ! (i - l))" 
        by (rule "1.prems"(4)[rule_format]) (use l True in auto)
      have "v ! k = v ! (i + k)" if "k < z0" for k
      proof -
        have k: "k < z ! (i - l)" "i + k \<le> r" using that inside by (auto simp: z0_def)
        have "v ! k = v ! (i - l + k)" using sp k by (simp add: z_spec_def)
        also have "\<dots> = v ! (l + (i - l + k))" using box k l by (simp add: z_box_def)
        finally show ?thesis using l by simp
      qed
      moreover have "i + z0 \<le> length v" using box inside "1.prems"(3) by (auto simp: z0_def z_box_def)
      ultimately show ?thesis by blast
    qed
    have zi: "z_spec v i zi" unfolding zi_def using z_extend_spec z0 by blast
    have box': "z_box v (Suc i) l' r'"
    proof (cases "r < i + zi - 1")
      case move: True
      then have l: "l' = i" "r' = i + zi - 1" using lr by auto
      have "v ! k = v ! (i + k)" if "i + k \<le> i + zi - 1" "1 \<le> i" for k
        using zi that move by (cases zi) (auto simp: z_spec_def)
      moreover have "i + zi - 1 < length v" using zi True unfolding z_spec_def by linarith
      ultimately show ?thesis unfolding z_box_def l using "1.prems"(3) by simp
    next
      case False
      then have "l' = l" "r' = r" using lr by auto
      then show ?thesis using box by (auto simp: z_box_def)
    qed
    have spec': "\<forall>j. 1 \<le> j \<and> j < Suc i \<and> j < length v \<longrightarrow> z_spec v j (z[i := zi] ! j)"
      using "1.prems"(2,4) zi by (auto simp: nth_list_update less_Suc_eq)
    have zero': "\<forall>j. Suc i \<le> j \<and> j < length v \<longrightarrow> z[i := zi] ! j = 0"
      using "1.prems"(5) by auto
    have step: "z_loop v i l r z = z_loop v (Suc i) l' r' (z[i := zi])"
      using True by (subst z_loop.simps) (simp only: if_True Let_def z0_def [symmetric] zi_def [symmetric] lr prod.case)
    have "length (z_loop v (Suc i) l' r' (z[i := zi])) = length v \<and>
         (\<forall>j. 1 \<le> j \<and> j < length v \<longrightarrow> z_spec v j (z_loop v (Suc i) l' r' (z[i := zi]) ! j))"
      by (rule "1.IH"[OF True z0_def zi_def lr[symmetric] refl box' _ _ spec' zero']) (use "1.prems" in auto)
    then show ?thesis unfolding step .
  qed
qed

lemma z_values_spec:
  "length (z_values v) = length v"
  "1 \<le> j \<Longrightarrow> j < length v \<Longrightarrow> z_spec v j (z_values v ! j)"
proof -
  have "length (z_values v) = length v \<and> (\<forall>j. 1 \<le> j \<and> j < length v \<longrightarrow> z_spec v j (z_values v ! j))"
  proof (cases "v = []")
    case True
    then show ?thesis by (simp add: z_values_def z_loop.simps)
  next
    case False
    then show ?thesis unfolding z_values_def by (intro z_loop_spec) (auto simp: z_box_def)
  qed
  then show "length (z_values v) = length v"
    "1 \<le> j \<Longrightarrow> j < length v \<Longrightarrow> z_spec v j (z_values v ! j)" by auto
qed

lemma z_spec_ge:
  assumes "z_spec v i z"
  shows "m \<le> z \<longleftrightarrow> i + m \<le> length v \<and> (\<forall>k<m. v ! k = v ! (i + k))"
proof
  assume "m \<le> z"
  then show "i + m \<le> length v \<and> (\<forall>k<m. v ! k = v ! (i + k))" using assms by (auto simp: z_spec_def)
next
  assume R: "i + m \<le> length v \<and> (\<forall>k<m. v ! k = v ! (i + k))"
  show "m \<le> z"
  proof (rule ccontr)
    assume "\<not> m \<le> z"
    then have "i + z < length v" "v ! z = v ! (i + z)" using R by auto
    then show False using assms by (simp add: z_spec_def)
  qed
qed

text \<open>The combined sequence \<open>pattern, null, values\<close>.\<close>

lemma separated_z:
  fixes p vs :: "'a list"
  defines "v \<equiv> map Some p @ [None] @ map Some vs"
  assumes "i < length vs"
  shows "m \<le> z_values v ! (length p + 1 + i) \<longleftrightarrow>
    m \<le> length p \<and> i + m \<le> length vs \<and> take m p = take m (drop i vs)"
proof -
  have i: "length p + 1 + i < length v" using assms(2) by (simp add: v_def)
  have sp: "z_spec v (length p + 1 + i) (z_values v ! (length p + 1 + i))"
    by (rule z_values_spec(2)) (use i in auto)
  have at: "v ! (length p + 1 + i + k) = Some (vs ! (i + k))" if "i + k < length vs" for k
    using that by (simp add: v_def nth_append nth_Cons')
  have low: "v ! k = (if k < length p then Some (p ! k) else None)" if "k \<le> length p" for k
    using that by (auto simp: v_def nth_append nth_Cons')
  have len: "length v = length p + 1 + length vs" by (simp add: v_def)
  show ?thesis unfolding z_spec_ge[OF sp]
  proof
    assume L: "length p + 1 + i + m \<le> length v \<and> (\<forall>k<m. v ! k = v ! (length p + 1 + i + k))"
    then have im: "i + m \<le> length vs" using len by simp
    have mp: "m \<le> length p"
    proof (rule ccontr)
      assume "\<not> m \<le> length p"
      then have "length p < m" "v ! length p = v ! (length p + 1 + i + length p)" using L by auto
      then show False using low[of "length p"] at[of "length p"] im by simp
    qed
    have "p ! k = vs ! (i + k)" if "k < m" for k
    proof -
      have "v ! k = v ! (length p + 1 + i + k)" using L that by blast
      then show ?thesis using low[of k] at[of k] that mp im by simp
    qed
    then have "take m p = take m (drop i vs)" using mp im by (intro nth_equalityI) auto
    then show "m \<le> length p \<and> i + m \<le> length vs \<and> take m p = take m (drop i vs)" using mp im by simp
  next
    assume R: "m \<le> length p \<and> i + m \<le> length vs \<and> take m p = take m (drop i vs)"
    have "v ! k = v ! (length p + 1 + i + k)" if "k < m" for k
    proof -
      have "p ! k = take m p ! k" using that by simp
      also have "\<dots> = take m (drop i vs) ! k" using R by (simp only:)
      also have "\<dots> = vs ! (i + k)" using that R by simp
      finally show ?thesis using low[of k] at[of k] that R by simp
    qed
    then show "length p + 1 + i + m \<le> length v \<and> (\<forall>k<m. v ! k = v ! (length p + 1 + i + k))"
      using R len by simp
  qed
qed

definition occurs_at :: "'a list \<Rightarrow> 'a list \<Rightarrow> nat \<Rightarrow> bool" where
  "occurs_at p vs i \<longleftrightarrow> take (length p) (drop i vs) = p"

lemma occurs_at_separated:
  assumes "i < length vs"
  shows "length p \<le> z_values (map Some p @ [None] @ map Some vs) ! (length p + 1 + i) \<longleftrightarrow> occurs_at p vs i"
  unfolding separated_z[OF assms] occurs_at_def
proof (intro iffI)
  assume R: "take (length p) (drop i vs) = p"
  then have "length (take (length p) (drop i vs)) = length p" by simp
  then have "length p \<le> length vs - i" by simp
  with R assms show "length p \<le> length p \<and> i + length p \<le> length vs \<and> take (length p) p = take (length p) (drop i vs)"
    by simp
qed simp

text \<open>
  \<open>occurrences\<close>, a linear Z-function scan over the sequence \<open>pattern, null, values\<close>, counts
  exactly the positions at which the pattern occurs in the values, overlapping ones included,
  for every pattern and sequence of row ids.
\<close>

theorem occurrences_correct:
  "occurrences pattern values = length (filter (occurs_at pattern values) [0..<length values])"
proof -
  let ?v = "map Some pattern @ [None] @ map Some values" and ?m = "length pattern"
  have len: "length (z_values ?v) = ?m + 1 + length values" by (simp add: z_values_spec(1))
  have "drop (?m + 1) (z_values ?v) = map (\<lambda>i. z_values ?v ! (?m + 1 + i)) [0..<length values]"
    using len by (intro nth_equalityI) auto
  then have "occurrences pattern values =
      length (filter ((\<lambda>n. ?m \<le> n) \<circ> (\<lambda>i. z_values ?v ! (?m + 1 + i))) [0..<length values])"
    by (simp add: occurrences_def Let_def filter_map)
  also have "filter ((\<lambda>n. ?m \<le> n) \<circ> (\<lambda>i. z_values ?v ! (?m + 1 + i))) [0..<length values] =
      filter (occurs_at pattern values) [0..<length values]"
    using occurs_at_separated by (intro filter_cong) (auto simp del: append_Cons append_Nil)
  finally show ?thesis .
qed

end
