(* ===== verification/Row_Matcher_Sound.thy ===== *)
theory Row_Matcher_Sound
  imports Row_Matcher
begin

text \<open>
  Correctness of the row matcher of \<^verbatim>\<open>Row_Matcher\<close>: interning as a contract on row ids,
  exact triple keys, what the classification of a run covers, that the interned and the
  on-demand uniqueness tests agree, and that no reported row lacks its evidence, for the full
  matcher and for the incremental chain.
\<close>

section \<open>Interning gives equal rows equal ids\<close>

definition id_of_row :: "intern_state \<Rightarrow> captured_row \<Rightarrow> nat option" where
  "id_of_row st row =
     map_option snd (find (\<lambda>e. fst e = row) (in_buckets st (row_sample_key row)))"

definition intern_ok :: "intern_state \<Rightarrow> bool" where
  "intern_ok st \<longleftrightarrow>
     (\<forall>r i. id_of_row st r = Some i \<longrightarrow> i \<le> in_id st) \<and>
     (\<forall>r r' i. id_of_row st r = Some i \<longrightarrow> id_of_row st r' = Some i \<longrightarrow> r = r')"

lemma find_append: "find P (xs @ ys) = (case find P xs of Some x \<Rightarrow> Some x | None \<Rightarrow> find P ys)"
  by (induction xs) auto

lemma intern_row_public:
  assumes "intern_ok st" "intern_row False row st = (i, st')"
  shows "intern_ok st' \<and> id_of_row st' row = Some i \<and> in_id st \<le> in_id st' \<and> in_id st' \<le> Suc (in_id st) \<and>
    (\<forall>r k. id_of_row st r = Some k \<longrightarrow> id_of_row st' r = Some k) \<and>
    (\<forall>r k. id_of_row st' r = Some k \<longrightarrow> id_of_row st r = Some k \<or> in_id st < k)"
proof (cases "id_of_row st row")
  case (Some k)
  then have "i = k" "st' = st"
    using assms(2) by (auto simp: intern_row_def Let_def id_of_row_def split: option.splits)
  then show ?thesis using Some assms(1) by auto
next
  case None
  then have st': "i = Suc (in_id st)"
    "st' = \<lparr>in_buckets = (in_buckets st)(row_sample_key row := in_buckets st (row_sample_key row) @ [(row, i)]),
            in_id = i\<rparr>"
    using assms(2) by (auto simp: intern_row_def Let_def id_of_row_def split: option.splits)
  have new: "id_of_row st' r = (if r = row then Some i else id_of_row st r)" for r
    using None by (auto simp: st' id_of_row_def find_append split: option.splits)
  have "id_of_row st r \<noteq> Some (Suc (in_id st))" for r
    using assms(1) unfolding intern_ok_def by (metis Suc_n_not_le_n)
  then show ?thesis using assms(1) None unfolding intern_ok_def new by (auto simp: st' le_Suc_eq)
qed

lemma intern_row_private:
  "intern_row True row st = (i, st') \<Longrightarrow>
   i = Suc (in_id st) \<and> in_id st' = Suc (in_id st) \<and> (\<forall>r. id_of_row st' r = id_of_row st r)"
  by (auto simp: intern_row_def id_of_row_def)

definition part_ok ::
  "(nat \<Rightarrow> bool) \<Rightarrow> nat \<Rightarrow> captured_row list \<Rightarrow> intern_state \<Rightarrow> nat list \<Rightarrow> intern_state \<Rightarrow> bool" where
  "part_ok priv y rows st ids st' \<longleftrightarrow>
     intern_ok st' \<and> length ids = length rows \<and> in_id st \<le> in_id st' \<and> in_id st' \<le> in_id st + length rows \<and>
     (\<forall>r k. id_of_row st r = Some k \<longrightarrow> id_of_row st' r = Some k) \<and>
     (\<forall>r k. id_of_row st' r = Some k \<longrightarrow> id_of_row st r = Some k \<or> in_id st < k) \<and>
     (\<forall>k < length rows.
        ids ! k \<le> in_id st' \<and>
        (if priv (y + k) then in_id st < ids ! k \<and> (\<forall>r. id_of_row st' r \<noteq> Some (ids ! k)) \<and>
              (\<forall>j < length rows. j \<noteq> k \<longrightarrow> ids ! j \<noteq> ids ! k)
         else id_of_row st' (rows ! k) = Some (ids ! k)))"

lemma intern_part_ok:
  "intern_ok st \<Longrightarrow> intern_part priv y rows st = (ids, st') \<Longrightarrow> part_ok priv y rows st ids st'"
proof (induction rows arbitrary: y st ids)
  case Nil
  then show ?case by (simp add: part_ok_def)
next
  case (Cons row rows)
  obtain i st1 where one: "intern_row (priv y) row st = (i, st1)" by fastforce
  obtain ids1 where rest: "intern_part priv (Suc y) rows st1 = (ids1, st')" "ids = i # ids1"
    using Cons.prems(2) one by (auto split: prod.splits)
  have ok1: "intern_ok st1 \<and> in_id st \<le> in_id st1 \<and> in_id st1 \<le> Suc (in_id st) \<and> i \<le> in_id st1 \<and>
    (\<forall>r k. id_of_row st r = Some k \<longrightarrow> id_of_row st1 r = Some k) \<and>
    (\<forall>r k. id_of_row st1 r = Some k \<longrightarrow> id_of_row st r = Some k \<or> in_id st < k) \<and>
    (\<not> priv y \<longrightarrow> id_of_row st1 row = Some i) \<and>
    (priv y \<longrightarrow> i = Suc (in_id st) \<and> i = in_id st1 \<and> id_of_row st1 = id_of_row st)"
  proof (cases "priv y")
    case True
    have "intern_row True row st = (i, st1)" using one True by simp
    note one' = intern_row_private[OF this]
    then have same: "id_of_row st1 = id_of_row st" by blast
    have "intern_ok st1" using Cons.prems(1) one' unfolding intern_ok_def same by (metis le_SucI)
    then show ?thesis using one' same True by auto
  next
    case False
    then have "intern_row False row st = (i, st1)" using one by simp
    from intern_row_public[OF Cons.prems(1) this] False show ?thesis by (auto simp: intern_ok_def)
  qed
  have P: "part_ok priv (Suc y) rows st1 ids1 st'" by (rule Cons.IH[OF conjunct1[OF ok1] rest(1)])
  note Q = P[unfolded part_ok_def]
  have top: "(ids ! k \<le> in_id st' \<and>
        (if priv (y + k) then in_id st < ids ! k \<and> (\<forall>r. id_of_row st' r \<noteq> Some (ids ! k)) \<and>
              (\<forall>j < length (row # rows). j \<noteq> k \<longrightarrow> ids ! j \<noteq> ids ! k)
         else id_of_row st' ((row # rows) ! k) = Some (ids ! k)))" if k: "k < length (row # rows)" for k
  proof (cases k)
    case 0
    show ?thesis
    proof (cases "priv y")
      case True
      have i: "i = in_id st1" "in_id st < i" using ok1 True by auto
      have notin: "id_of_row st' r \<noteq> Some i" for r
      proof
        assume "id_of_row st' r = Some i"
        then have "id_of_row st1 r = Some i \<or> in_id st1 < i" using Q by blast
        then have "id_of_row st r = Some i" using ok1 True i by auto
        then have "i \<le> in_id st" using Cons.prems(1) by (auto simp: intern_ok_def)
        then show False using i by simp
      qed
      have "ids1 ! j \<noteq> i" if "j < length rows" for j
      proof (cases "priv (Suc y + j)")
        case True then show ?thesis using Q that i by auto
      next
        case False
        then have "id_of_row st' (rows ! j) = Some (ids1 ! j)" using Q that by auto
        then show ?thesis using notin by auto
      qed
      then show ?thesis using 0 True i notin Q rest(2) by (auto simp: nth_Cons')
    next
      case False
      then show ?thesis using 0 ok1 Q rest(2) by auto
    qed
  next
    case (Suc k')
    then have k': "k' < length rows" using k by simp
    show ?thesis
    proof (cases "priv (Suc y + k')")
      case False
      then show ?thesis using Q k' Suc rest(2) by auto
    next
      case True
      then have T: "in_id st1 < ids1 ! k'" "\<forall>r. id_of_row st' r \<noteq> Some (ids1 ! k')" "ids1 ! k' \<le> in_id st'"
        "\<forall>j < length rows. j \<noteq> k' \<longrightarrow> ids1 ! j \<noteq> ids1 ! k'" using Q k' by auto
      then have "i \<noteq> ids1 ! k'" using ok1 by (metis leD)
      then show ?thesis using T True Suc rest(2) ok1 by (auto simp: nth_Cons' less_Suc_eq_0_disj)
    qed
  qed
  have "in_id st \<le> in_id st'" "in_id st' \<le> in_id st + length (row # rows)" "length ids = length (row # rows)"
    using Q ok1 rest(2) by auto
  moreover have "\<forall>r k. id_of_row st r = Some k \<longrightarrow> id_of_row st' r = Some k" using Q ok1 by blast
  moreover have "\<forall>r k. id_of_row st' r = Some k \<longrightarrow> id_of_row st r = Some k \<or> in_id st < k"
    using Q ok1 by (meson le_less_trans)
  moreover have "intern_ok st'" using Q by blast
  ultimately show ?case using top unfolding part_ok_def by blast
qed

text \<open>The contract of interning: ids stand for rows, and an uncertain row equals nothing but itself.\<close>

locale row_ids =
  fixes recent captured :: "captured_row list" and unc :: "nat set" and a b :: "nat list"
  assumes length_a: "length a = length recent"
    and length_b: "length b = length captured"
    and a_eq: "i < length recent \<Longrightarrow> j < length recent \<Longrightarrow> a ! i = a ! j \<longleftrightarrow> recent ! i = recent ! j"
    and ab_eq: "i < length recent \<Longrightarrow> j < length captured \<Longrightarrow>
        a ! i = b ! j \<longleftrightarrow> j \<notin> unc \<and> recent ! i = captured ! j"
    and b_eq: "i < length captured \<Longrightarrow> j < length captured \<Longrightarrow>
        b ! i = b ! j \<longleftrightarrow> i = j \<or> i \<notin> unc \<and> j \<notin> unc \<and> captured ! i = captured ! j"
    and a_bound: "i < length recent \<Longrightarrow> a ! i \<le> length recent + length captured"
    and b_bound: "i < length captured \<Longrightarrow> b ! i \<le> length recent + length captured"

interpretation interned: row_ids recent captured unc "fst (intern_rows recent captured unc)"
    "snd (intern_rows recent captured unc)" for recent captured unc
proof -
  let ?s0 = "\<lparr>in_buckets = (\<lambda>_. []), in_id = 0\<rparr> :: intern_state"
  obtain a s1 where A: "intern_part (\<lambda>_. False) 0 recent ?s0 = (a, s1)" by fastforce
  obtain b s2 where B: "intern_part (\<lambda>y. y \<in> unc) 0 captured s1 = (b, s2)" by fastforce
  have ok0: "intern_ok ?s0" by (simp add: intern_ok_def id_of_row_def)
  note PA = intern_part_ok[OF ok0 A, unfolded part_ok_def]
  then have ok1: "intern_ok s1" by simp
  note PB = intern_part_ok[OF ok1 B, unfolded part_ok_def]
  have ok2: "intern_ok s2" using PB by simp
  have a2: "id_of_row s2 (recent ! i) = Some (a ! i)" if "i < length recent" for i
    using PA PB that by auto
  have b2: "id_of_row s2 (captured ! j) = Some (b ! j)" if "j < length captured" "j \<notin> unc" for j
    using PB that by auto
  have bp: "\<forall>r. id_of_row s2 r \<noteq> Some (b ! j)" "\<forall>k < length captured. k \<noteq> j \<longrightarrow> b ! k \<noteq> b ! j"
    if "j < length captured" "j \<in> unc" for j
    using PB that by auto
  have inj: "id_of_row s2 r = Some i \<Longrightarrow> id_of_row s2 r' = Some i \<Longrightarrow> r = r'" for r r' i
    using ok2 by (auto simp: intern_ok_def)
  have r: "intern_rows recent captured unc = (a, b)" using A B by (simp add: intern_rows_def)
  show "row_ids recent captured unc (fst (intern_rows recent captured unc)) (snd (intern_rows recent captured unc))"
    unfolding r fst_conv snd_conv
  proof
    show "length a = length recent" "length b = length captured" using PA PB by auto
    show "a ! i = a ! j \<longleftrightarrow> recent ! i = recent ! j" if "i < length recent" "j < length recent" for i j
      using a2 that inj by (metis option.inject)
    show "a ! i = b ! j \<longleftrightarrow> j \<notin> unc \<and> recent ! i = captured ! j" if "i < length recent" "j < length captured" for i j
      using a2[OF that(1)] b2[OF that(2)] bp[OF that(2)] inj by (metis option.inject)
    show "b ! i = b ! j \<longleftrightarrow> i = j \<or> i \<notin> unc \<and> j \<notin> unc \<and> captured ! i = captured ! j"
      if "i < length captured" "j < length captured" for i j
      using b2[OF that(1)] b2[OF that(2)] bp[OF that(1)] bp[OF that(2)] inj that by (metis option.inject)
    show "a ! i \<le> length recent + length captured" if "i < length recent" for i
      using PA that by fastforce
    show "b ! i \<le> length recent + length captured" if "i < length captured" for i
    proof -
      have "b ! i \<le> in_id s2" "in_id s2 \<le> in_id s1 + length captured" "in_id s1 \<le> length recent"
        using PA PB that by auto
      then show ?thesis by linarith
    qed
  qed
qed

section \<open>Triple keys are exact\<close>

lemma separated_inject:
  assumes "c \<notin> set x" "c \<notin> set y" "x @ c # u = y @ c # w"
  shows "x = y \<and> u = w"
proof -
  have "takeWhile (\<lambda>d. d \<noteq> c) (x @ c # u) = x" "takeWhile (\<lambda>d. d \<noteq> c) (y @ c # w) = y"
    using assms(1,2) by (auto simp: takeWhile_append)
  then have "x = y" using assms(3) by simp
  then show ?thesis using assms(3) by simp
qed

lemma comma_text: "js '','' = [44]"
  by (simp add: js_def)

lemma triple_key_inject:
  assumes "\<forall>k<3. v ! (i + k) < base" "\<forall>k<3. w ! (j + k) < base"
  shows "triple_key v i base = triple_key w j base \<longleftrightarrow>
    v ! i = w ! j \<and> v ! (i + 1) = w ! (j + 1) \<and> v ! (i + 2) = w ! (j + 2)"
proof -
  have b: "v ! i < base" "v ! (i + 1) < base" "v ! (i + 2) < base"
     "w ! j < base" "w ! (j + 1) < base" "w ! (j + 2) < base"
    using assms(1)[rule_format, of 0] assms(1)[rule_format, of 1] assms(1)[rule_format, of 2]
      assms(2)[rule_format, of 0] assms(2)[rule_format, of 1] assms(2)[rule_format, of 2] by auto
  have two: "x * base + y = x' * base + y' \<longleftrightarrow> x = x' \<and> y = y'" if "y < base" "y' < base" for x y x' y' :: nat
    using that by (metis add.commute add_right_cancel div_mult_self3 div_less less_nat_zero_code add_0
        mod_mult_self3 mod_less)
  show ?thesis
  proof (cases "base < 200000")
    case True
    then show ?thesis using b two by (auto simp: triple_key_def)
  next
    case False
    have "dec_nat (v ! i) @ [44] @ dec_nat (v ! (i + 1)) @ [44] @ dec_nat (v ! (i + 2)) =
          dec_nat (w ! j) @ [44] @ dec_nat (w ! (j + 1)) @ [44] @ dec_nat (w ! (j + 2)) \<longleftrightarrow>
          v ! i = w ! j \<and> v ! (i + 1) = w ! (j + 1) \<and> v ! (i + 2) = w ! (j + 2)"
      using separated_inject[OF dec_nat_no_comma dec_nat_no_comma]
      by (metis append_Cons append_Nil dec_nat_inject)
    then show ?thesis using False unfolding triple_key_def comma_text by simp
  qed
qed

lemma triple_counts_eq:
  "triple_counts values base key =
     length (filter (\<lambda>i. \<not> (values ! i = values ! (i + 1) \<and> values ! i = values ! (i + 2)) \<and>
                triple_key values i base = key) [0..<length values - 2])"
proof -
  have "foldl (\<lambda>counts i.
        if values ! i = values ! (i + 1) \<and> values ! i = values ! (i + 2) then counts
        else counts(triple_key values i base := Suc (counts (triple_key values i base)))) c xs key =
     c key + length (filter (\<lambda>i. \<not> (values ! i = values ! (i + 1) \<and> values ! i = values ! (i + 2)) \<and>
                triple_key values i base = key) xs)" for c xs
    by (induction xs arbitrary: c) auto
  then show ?thesis by (simp add: triple_counts_def)
qed

section \<open>Classification\<close>

lemma run_end_spec:
  "e \<le> hi \<Longrightarrow> e \<le> run_end eq e hi \<and> run_end eq e hi \<le> hi \<and> (\<forall>x. e \<le> x \<and> x < run_end eq e hi \<longrightarrow> eq x) \<and>
   (run_end eq e hi < hi \<longrightarrow> \<not> eq (run_end eq e hi))"
proof (induction eq e hi rule: run_end.induct)
  case (1 eq e hi)
  show ?case
  proof (cases "e < hi \<and> eq e")
    case True
    then have r: "run_end eq e hi = run_end eq (Suc e) hi" by (subst run_end.simps) simp
    have "\<forall>x. e \<le> x \<and> x < run_end eq (Suc e) hi \<longrightarrow> eq x"
    proof (intro allI impI)
      fix x assume "e \<le> x \<and> x < run_end eq (Suc e) hi"
      then show "eq x" using "1.IH"[OF True] True by (cases "x = e") auto
    qed
    then show ?thesis unfolding r using "1.IH"[OF True] True by auto
  next
    case False
    then have "run_end eq e hi = e" by (subst run_end.simps) auto
    then show ?thesis using "1.prems" False by auto
  qed
qed

lemma first_anchor_spec:
  "f + 2 \<le> e \<Longrightarrow> f \<le> first_anchor A f e \<and> first_anchor A f e + 2 \<le> e \<and>
   (\<forall>x. f \<le> x \<and> x < first_anchor A f e \<longrightarrow> \<not> A x) \<and> (first_anchor A f e + 2 < e \<longrightarrow> A (first_anchor A f e))"
proof (induction A f e rule: first_anchor.induct)
  case (1 A f e)
  show ?case
  proof (cases "f + 2 < e \<and> \<not> A f")
    case True
    then have r: "first_anchor A f e = first_anchor A (Suc f) e" by (subst first_anchor.simps) simp
    have "\<forall>x. f \<le> x \<and> x < first_anchor A (Suc f) e \<longrightarrow> \<not> A x"
    proof (intro allI impI)
      fix x assume "f \<le> x \<and> x < first_anchor A (Suc f) e"
      then show "\<not> A x" using "1.IH"[OF True] True by (cases "x = f") auto
    qed
    then show ?thesis unfolding r using "1.IH"[OF True] True by auto
  next
    case False
    then have "first_anchor A f e = f" by (subst first_anchor.simps) auto
    then show ?thesis using "1.prems" False by auto
  qed
qed

lemma last_anchor_spec:
  "first < last_anchor A first l \<Longrightarrow> last_anchor A first l \<le> l \<and> A (last_anchor A first l) \<and>
   (\<forall>x. last_anchor A first l < x \<and> x \<le> l \<longrightarrow> \<not> A x)"
proof (induction A first l rule: last_anchor.induct)
  case (1 A first l)
  show ?case
  proof (cases "first < l \<and> \<not> A l")
    case True
    then have r: "last_anchor A first l = last_anchor A first (l - 1)" by (subst last_anchor.simps) simp
    have ih: "last_anchor A first (l - 1) \<le> l - 1 \<and> A (last_anchor A first (l - 1)) \<and>
      (\<forall>x. last_anchor A first (l - 1) < x \<and> x \<le> l - 1 \<longrightarrow> \<not> A x)"
      using "1.IH"[OF True] "1.prems" r by simp
    have "\<not> A x" if "last_anchor A first (l - 1) < x" "x \<le> l" for x
      using ih True that by (cases "x = l") auto
    then show ?thesis unfolding r using ih by auto
  next
    case False
    then have "last_anchor A first l = l" by (subst last_anchor.simps) auto
    then show ?thesis using "1.prems" False by auto
  qed
qed

lemma last_anchor_below:
  "\<not> first < last_anchor A first l \<Longrightarrow> first < x \<Longrightarrow> x \<le> l \<Longrightarrow> \<not> A x"
proof (induction A first l rule: last_anchor.induct)
  case (1 A first l)
  show ?case
  proof (cases "first < l \<and> \<not> A l")
    case True
    then have r: "last_anchor A first l = last_anchor A first (l - 1)" by (subst last_anchor.simps) simp
    show ?thesis using "1.IH"[OF True] "1.prems" True r by (cases "x = l") auto
  next
    case False
    then have "last_anchor A first l = l" by (subst last_anchor.simps) auto
    then show ?thesis using "1.prems" by simp
  qed
qed

text \<open>
  What \<open>covered\<close> means: an anchor starts above the row and another one ends below it inside one
  run of rows equal at the offset, and the row differs from both its neighbours.
\<close>

definition anchor_at :: "(nat \<Rightarrow> bool) \<Rightarrow> (nat \<Rightarrow> bool) \<Rightarrow> nat \<Rightarrow> bool" where
  "anchor_at same uniq i \<longleftrightarrow> \<not> (same i \<and> same (i + 1)) \<and> uniq i"

definition between_anchors ::
  "nat \<Rightarrow> nat \<Rightarrow> (nat \<Rightarrow> bool) \<Rightarrow> (nat \<Rightarrow> bool) \<Rightarrow> (nat \<Rightarrow> bool) \<Rightarrow> nat \<Rightarrow> bool" where
  "between_anchors lo hi eq same uniq x \<longleftrightarrow>
     (\<exists>p q. lo \<le> p \<and> p < x \<and> x \<le> q + 1 \<and> p < q \<and> q + 2 < hi \<and> (\<forall>y. p \<le> y \<and> y \<le> q + 2 \<longrightarrow> eq y) \<and>
        anchor_at same uniq p \<and> anchor_at same uniq q) \<and>
     \<not> same (x - 1) \<and> \<not> same x"

lemma mark_run_spec:
  assumes "lo \<le> first" "lst + 2 < lo + length cov + 1" 
  shows "length (mark_run same lo first lst cov) = length cov \<and>
    (\<forall>k < length cov. mark_run same lo first lst cov ! k \<longleftrightarrow>
       cov ! k \<or> (first < lo + k \<and> lo + k \<le> lst + 1 \<and> \<not> same (lo + k - 1) \<and> \<not> same (lo + k)))"
proof -
  have G: "length (foldl (\<lambda>cov x. if \<not> same (x - 1) \<and> \<not> same x then cov[x - lo := True] else cov) cov xs) = length cov \<and>
    (\<forall>k < length cov. foldl (\<lambda>cov x. if \<not> same (x - 1) \<and> \<not> same x then cov[x - lo := True] else cov) cov xs ! k \<longleftrightarrow>
       cov ! k \<or> (lo + k \<in> set xs \<and> \<not> same (lo + k - 1) \<and> \<not> same (lo + k)))"
    if "\<forall>x \<in> set xs. lo \<le> x" for xs and cov :: "bool list"
    using that
  proof (induction xs arbitrary: cov)
    case (Cons x xs)
    let ?c = "if \<not> same (x - 1) \<and> \<not> same x then cov[x - lo := True] else cov"
    have x: "lo \<le> x" using Cons.prems by simp
    have ih: "length (foldl (\<lambda>cov x. if \<not> same (x - 1) \<and> \<not> same x then cov[x - lo := True] else cov) ?c xs) = length ?c \<and>
    (\<forall>k < length ?c. foldl (\<lambda>cov x. if \<not> same (x - 1) \<and> \<not> same x then cov[x - lo := True] else cov) ?c xs ! k \<longleftrightarrow>
       ?c ! k \<or> (lo + k \<in> set xs \<and> \<not> same (lo + k - 1) \<and> \<not> same (lo + k)))"
      by (rule Cons.IH) (use Cons.prems in auto)
    have "?c ! k \<longleftrightarrow> cov ! k \<or> (lo + k = x \<and> \<not> same (x - 1) \<and> \<not> same x)" if "k < length cov" for k
      using that x by (cases "k = x - lo") auto
    then show ?case using ih by auto
  qed simp
  have "\<forall>x \<in> set [first + 1..<lst + 2]. lo \<le> x" using assms(1) by auto
  from G[OF this, of cov] show ?thesis unfolding mark_run_def by (auto simp only: set_upt atLeastLessThan_iff)
qed

definition run_anchors ::
  "nat \<Rightarrow> nat \<Rightarrow> (nat \<Rightarrow> bool) \<Rightarrow> nat \<Rightarrow> bool" where
  "run_anchors start e A x \<longleftrightarrow> (\<exists>p q. start \<le> p \<and> p < x \<and> x \<le> q + 1 \<and> p < q \<and> q + 2 < e \<and> A p \<and> A q)"

lemma run_anchors_eq:
  fixes A :: "nat \<Rightarrow> bool"
  assumes "start < e"
  defines "f \<equiv> first_anchor A start e"
  defines "l \<equiv> last_anchor A f (e - 3)"
  shows "run_anchors start e A x \<longleftrightarrow> f + 2 < e \<and> f < l \<and> f < x \<and> x \<le> l + 1"
proof (cases "start + 2 \<le> e")
  case False
  then have "f = start" unfolding f_def by (subst first_anchor.simps) auto
  then show ?thesis using False by (auto simp: run_anchors_def)
next
  case True
  note F = first_anchor_spec[OF True, of A, folded f_def]
  show ?thesis
  proof
    assume "run_anchors start e A x"
    then obtain p q where pq: "start \<le> p" "p < x" "x \<le> q + 1" "p < q" "q + 2 < e" "A p" "A q"
      by (auto simp: run_anchors_def)
    have fp: "f \<le> p" using F pq by (meson not_le)
    have "f < l"
    proof (rule ccontr)
      assume "\<not> f < l"
      moreover have "q \<le> e - 3" using pq(5) by linarith
      ultimately have "\<not> A q" using last_anchor_below[of f A "e - 3" q] fp pq(4) unfolding l_def by linarith
      then show False using pq by simp
    qed
    then have L: "l \<le> e - 3 \<and> A l \<and> (\<forall>x. l < x \<and> x \<le> e - 3 \<longrightarrow> \<not> A x)"
      using last_anchor_spec[of f A "e - 3"] l_def by simp
    moreover have "q \<le> e - 3" using pq(5) by linarith
    ultimately have "q \<le> l" using pq(7) by (meson not_le)
    then show "f + 2 < e \<and> f < l \<and> f < x \<and> x \<le> l + 1" using fp pq \<open>f < l\<close> by auto
  next
    assume R: "f + 2 < e \<and> f < l \<and> f < x \<and> x \<le> l + 1"
    then have "l \<le> e - 3 \<and> A l" using last_anchor_spec[of f A "e - 3"] l_def by simp
    then show "run_anchors start e A x" unfolding run_anchors_def using F R
      by (intro exI[of _ f] exI[of _ l]) auto
  qed
qed

lemma between_in_run:
  assumes "lo \<le> start" "start < hi" "eq start"
    and bound: "start = lo \<or> \<not> eq (start - 1)"
    and e: "e = run_end eq start hi" and x: "start \<le> x" "x < e"
  shows "between_anchors lo hi eq same uniq x \<longleftrightarrow>
    run_anchors start e (anchor_at same uniq) x \<and> \<not> same (x - 1) \<and> \<not> same x"
proof -
  have E: "start \<le> e" "e \<le> hi" "\<forall>y. start \<le> y \<and> y < e \<longrightarrow> eq y" "e < hi \<longrightarrow> \<not> eq e"
    using run_end_spec[of start hi eq] assms(2) e by auto
  have "start \<le> p \<and> q + 2 < e"
    if "lo \<le> p" "p < x" "x \<le> q + 1" "q + 2 < hi" "\<forall>y. p \<le> y \<and> y \<le> q + 2 \<longrightarrow> eq y" for p q
  proof
    show "start \<le> p"
    proof (rule ccontr)
      assume "\<not> start \<le> p"
      then have "p \<le> start - 1" "start - 1 \<le> q + 2" "start \<noteq> lo" using that x by auto
      then show False using that(5) bound by blast
    qed
    show "q + 2 < e"
    proof (rule ccontr)
      assume "\<not> q + 2 < e"
      then have "p \<le> e" "e \<le> q + 2" "e < hi" using that x by auto
      then show False using that(5) E(4) by blast
    qed
  qed
  moreover have "eq y" if "start \<le> p" "p \<le> y" "y \<le> q + 2" "q + 2 < e" for p q y
    using that E(3) by auto
  moreover have "q + 2 < hi" "lo \<le> p" if "q + 2 < e" "start \<le> p" for p q
    using that E(2) assms(1) by auto
  ultimately show ?thesis unfolding between_anchors_def run_anchors_def by meson
qed

lemma between_eq: "between_anchors lo hi eq same uniq x \<Longrightarrow> eq x \<and> lo < x \<and> x < hi"
  by (fastforce simp: between_anchors_def)

lemma classify_loop_spec:
  assumes "lo \<le> start" "length cov = hi - lo"
    and "start = lo \<or> hi \<le> start \<or> \<not> eq (start - 1) \<or> \<not> eq start"
    and "\<forall>x. lo \<le> x \<and> x < hi \<longrightarrow> cov ! (x - lo) = (x < start \<and> between_anchors lo hi eq same uniq x)"
  shows "length (classify_loop lo hi eq same uniq start cov) = hi - lo \<and>
    (\<forall>x. lo \<le> x \<and> x < hi \<longrightarrow>
       classify_loop lo hi eq same uniq start cov ! (x - lo) = between_anchors lo hi eq same uniq x)"
  using assms
proof (induction lo hi eq same uniq start cov rule: classify_loop.induct)
  case (1 lo hi eq same uniq start cov)
  let ?B = "between_anchors lo hi eq same uniq"
  note IH = "1.IH" and prems = "1.prems"
  consider "\<not> start < hi" | "start < hi" "\<not> eq start" | "start < hi" "eq start" by blast
  then show ?case
  proof cases
    case 1
    note stop = 1
    then have "classify_loop lo hi eq same uniq start cov = cov" by (subst classify_loop.simps) simp
    then show ?thesis using prems stop by simp
  next
    case 2
    note skip = 2
    then have r: "classify_loop lo hi eq same uniq start cov = classify_loop lo hi eq same uniq (Suc start) cov"
      by (subst classify_loop.simps) simp
    have "\<forall>x. lo \<le> x \<and> x < hi \<longrightarrow> cov ! (x - lo) = (x < Suc start \<and> ?B x)"
      using prems(4) skip between_eq by (metis less_Suc_eq)
    then show ?thesis unfolding r using IH(1)[OF skip] prems skip by simp
  next
    case 3
    note run = 3
    define A where "A = anchor_at same uniq"
    define e where "e = run_end eq start hi"
    define f where "f = first_anchor A start e"
    define l where "l = last_anchor A f (e - 3)"
    define cov' where "cov' = (if f + 2 < e \<and> f < l then mark_run same lo f l cov else cov)"
    have Adef: "A = (\<lambda>i. \<not> (same i \<and> same (i + 1)) \<and> uniq i)" by (auto simp: A_def anchor_at_def)
    have E: "start < e" "e \<le> hi" "\<forall>y. start \<le> y \<and> y < e \<longrightarrow> eq y" "e < hi \<longrightarrow> \<not> eq e"
    proof -
      have "run_end eq start hi = run_end eq (Suc start) hi" using run by (subst run_end.simps) simp
      then show "start < e" using run_end_spec[of "Suc start" hi eq] run e_def by simp
    qed (use run_end_spec[of start hi eq] run e_def in auto)
    have r: "classify_loop lo hi eq same uniq start cov = classify_loop lo hi eq same uniq (max e (Suc start)) cov'"
      using run unfolding cov'_def l_def f_def e_def Adef by (subst classify_loop.simps) (simp only: if_True if_False Let_def simp_thms)
    have start: "lo \<le> start" "start = lo \<or> \<not> eq (start - 1)" using prems run by auto
    have mark: "length cov' = hi - lo \<and> (\<forall>k < hi - lo. cov' ! k \<longleftrightarrow>
       cov ! k \<or> (f + 2 < e \<and> f < l \<and> f < lo + k \<and> lo + k \<le> l + 1 \<and> \<not> same (lo + k - 1) \<and> \<not> same (lo + k)))"
    proof (cases "f + 2 < e \<and> f < l")
      case True
      have "start + 2 \<le> e" 
      proof (rule ccontr)
        assume "\<not> start + 2 \<le> e"
        then have "f = start" unfolding f_def by (subst first_anchor.simps) auto
        then show False using True \<open>\<not> start + 2 \<le> e\<close> by simp
      qed
      then have "start \<le> f" using first_anchor_spec f_def by blast
      moreover have "l \<le> e - 3" using last_anchor_spec True l_def by blast
      ultimately show ?thesis
        using mark_run_spec[of lo f l cov same] True start E prems(2) unfolding cov'_def by auto
    next
      case False
      then show ?thesis using prems(2) unfolding cov'_def by auto
    qed
    have cov': "\<forall>x. lo \<le> x \<and> x < hi \<longrightarrow> cov' ! (x - lo) = (x < max e (Suc start) \<and> ?B x)"
    proof (intro allI impI)
      fix x assume x: "lo \<le> x \<and> x < hi"
      have m: "cov' ! (x - lo) \<longleftrightarrow> (x < start \<and> ?B x) \<or> (run_anchors start e A x \<and> \<not> same (x - 1) \<and> \<not> same x)"
        using mark prems(4) x run_anchors_eq[OF E(1), of A x, folded f_def, folded l_def] by auto
      have in_run: "start \<le> x \<and> x < e" if "run_anchors start e A x"
        using that by (auto simp: run_anchors_def)
      show "cov' ! (x - lo) = (x < max e (Suc start) \<and> ?B x)"
      proof (cases "start \<le> x \<and> x < e")
        case True
        then show ?thesis
          using m between_in_run[OF start(1) run start(2) e_def, of x same uniq] A_def by auto
      next
        case False
        then show ?thesis using m in_run E(1) by auto
      qed
    qed
    have bound: "max e (Suc start) = lo \<or> hi \<le> max e (Suc start) \<or> \<not> eq (max e (Suc start) - 1) \<or> \<not> eq (max e (Suc start))"
    proof -
      have "max e (Suc start) = e" using E(1) by simp
      then show ?thesis using E(2,4) by auto
    qed
    have nn: "\<not> \<not> eq start" using run by simp
    show ?thesis unfolding r
      by (rule IH(2)[OF run(1) nn Adef e_def f_def l_def cov'_def _ _ bound cov']) (use start mark in auto)
  qed
qed

lemma classify_spec:
  "length (classify lo hi eq same uniq) = hi - lo"
  "lo \<le> x \<Longrightarrow> x < hi \<Longrightarrow> classify lo hi eq same uniq ! (x - lo) = between_anchors lo hi eq same uniq x"
proof -
  have "length (classify lo hi eq same uniq) = hi - lo \<and> (\<forall>x. lo \<le> x \<and> x < hi \<longrightarrow>
       classify lo hi eq same uniq ! (x - lo) = between_anchors lo hi eq same uniq x)"
    unfolding classify_def by (rule classify_loop_spec) auto
  then show "length (classify lo hi eq same uniq) = hi - lo"
    "lo \<le> x \<Longrightarrow> x < hi \<Longrightarrow> classify lo hi eq same uniq ! (x - lo) = between_anchors lo hi eq same uniq x"
    by auto
qed

section \<open>Unique triples\<close>

definition triple_of :: "'a list \<Rightarrow> nat \<Rightarrow> 'a \<times> 'a \<times> 'a" where
  "triple_of rows i = (rows ! i, rows ! (i + 1), rows ! (i + 2))"

definition flat_triple :: "'a list \<Rightarrow> nat \<Rightarrow> bool" where
  "flat_triple rows i \<longleftrightarrow> rows ! i = rows ! (i + 1) \<and> rows ! i = rows ! (i + 2)"

definition unique_triple :: "nat set \<Rightarrow> 'a list \<Rightarrow> nat \<Rightarrow> bool" where
  "unique_triple unc rows i \<longleftrightarrow>
     (\<forall>j. j + 2 < length rows \<and> j \<notin> unc \<and> j + 1 \<notin> unc \<and> j + 2 \<notin> unc \<and> triple_of rows j = triple_of rows i \<longrightarrow> j = i)"

lemma unique_triple_mono: "unique_triple {} rows i \<Longrightarrow> unique_triple unc rows i"
  by (auto simp: unique_triple_def)

lemma filter_one:
  assumes "distinct xs" "i \<in> set xs" "P i"
  shows "length (filter P xs) \<le> 1 \<longleftrightarrow> (\<forall>j \<in> set xs. P j \<longrightarrow> j = i)" "length (filter P xs) \<ge> 1"
    "filter P xs = [i] \<longleftrightarrow> (\<forall>j \<in> set xs. P j \<longrightarrow> j = i)"
proof -
  have d: "distinct (filter P xs)" "i \<in> set (filter P xs)" using assms by auto
  then show ge: "length (filter P xs) \<ge> 1" by (cases "filter P xs") auto
  show iff1: "length (filter P xs) \<le> 1 \<longleftrightarrow> (\<forall>j \<in> set xs. P j \<longrightarrow> j = i)"
  proof
    assume "length (filter P xs) \<le> 1"
    then have "filter P xs = [i]" using d(2) by (cases "filter P xs") auto
    then have "set (filter P xs) = {i}" by simp
    then show "\<forall>j \<in> set xs. P j \<longrightarrow> j = i" by auto
  next
    assume "\<forall>j \<in> set xs. P j \<longrightarrow> j = i"
    then have "set (filter P xs) \<subseteq> {i}" by auto
    then have "card (set (filter P xs)) \<le> 1" using card_mono[of "{i}" "set (filter P xs)"] by simp
    then show "length (filter P xs) \<le> 1" using distinct_card[OF d(1)] by simp
  qed
  show "filter P xs = [i] \<longleftrightarrow> (\<forall>j \<in> set xs. P j \<longrightarrow> j = i)"
  proof
    assume "filter P xs = [i]"
    then show "\<forall>j \<in> set xs. P j \<longrightarrow> j = i" using iff1 by simp
  next
    assume "\<forall>j \<in> set xs. P j \<longrightarrow> j = i"
    then have "length (filter P xs) \<le> 1" using iff1 by simp
    then show "filter P xs = [i]" using d(2) by (cases "filter P xs") auto
  qed
qed

definition pattern_at :: "captured_row list \<Rightarrow> captured_row list \<Rightarrow> nat \<Rightarrow> bool" where
  "pattern_at rows pattern i \<longleftrightarrow> rows ! i = pattern ! 0 \<and> rows ! (i + 1) = pattern ! 1 \<and> rows ! (i + 2) = pattern ! 2"

lemma locate_scan_eq:
  "locate_scan rows pattern probe is found =
     (case filter (pattern_at rows pattern) is of
        [] \<Rightarrow> found | [h] \<Rightarrow> (if 0 \<le> found then -1 else int h) | _ \<Rightarrow> -1)"
  by (induction rows pattern probe "is" found rule: locate_scan.induct)
    (auto simp: pattern_at_def split: list.split)

lemma locate_triple_eq:
  "locate_triple rows pattern =
     (if pattern ! 0 = pattern ! 1 \<and> pattern ! 0 = pattern ! 2 then -1
      else (case filter (pattern_at rows pattern) [0..<length rows - 2] of [h] \<Rightarrow> int h | _ \<Rightarrow> -1))"
  unfolding locate_triple_def locate_scan_eq equal_history_rows_eq by (auto split: list.split)

lemma locate_triple_found:
  assumes "locate_triple rows pattern = int i"
  shows "i + 2 < length rows" "pattern_at rows pattern i" "unique_triple {} rows i" "\<not> flat_triple rows i"
proof -
  have f: "filter (pattern_at rows pattern) [0..<length rows - 2] = [i]"
    "\<not> (pattern ! 0 = pattern ! 1 \<and> pattern ! 0 = pattern ! 2)"
    using assms by (auto simp: locate_triple_eq split: if_splits list.splits)
  then have s: "{j \<in> {0..<length rows - 2}. pattern_at rows pattern j} = {i}"
    by (metis list.simps(15) set_empty set_filter set_upt)
  then have i: "i < length rows - 2" "pattern_at rows pattern i" by auto
  then show "i + 2 < length rows" "pattern_at rows pattern i" by auto
  show "\<not> flat_triple rows i" using i(2) f(2) by (auto simp: flat_triple_def pattern_at_def)
  show "unique_triple {} rows i" unfolding unique_triple_def
  proof (intro allI impI, elim conjE)
    fix j assume "j + 2 < length rows" "triple_of rows j = triple_of rows i"
    then have "j \<in> {j \<in> {0..<length rows - 2}. pattern_at rows pattern j}"
      using i by (auto simp: pattern_at_def triple_of_def)
    then show "j = i" using s by blast
  qed
qed

lemma triple_index_correct:
  assumes "i + 2 < length rows" "\<not> flat_triple rows i"
  shows "triple_index indexed rows i \<longleftrightarrow> unique_triple {} rows i"
proof -
  have i: "i \<in> set [0..<length rows - 2]" using assms(1) by auto
  have uniq: "unique_triple {} rows i \<longleftrightarrow>
      (\<forall>j \<in> set [0..<length rows - 2]. triple_of rows j = triple_of rows i \<longrightarrow> j = i)"
    by (auto simp: unique_triple_def)
  show ?thesis
  proof (cases "indexed i")
    case True
    let ?k = "sampled_triple_key rows"
    let ?g = "filter (\<lambda>j. ?k j = ?k i) [0..<length rows - 2]"
    have key: "?k j = ?k i" if "triple_of rows j = triple_of rows i" for j
      using that by (simp add: sampled_triple_key_def triple_of_def)
    have "sampled_triple_unique rows i \<longleftrightarrow>
        length ?g = 1 \<or> length (filter (\<lambda>j. j = i \<or> triple_of rows j = triple_of rows i) ?g) \<le> 1"
      unfolding sampled_triple_unique_def Let_def equal_history_rows_eq triple_of_def prod.inject by (rule refl)
    also have "length (filter (\<lambda>j. j = i \<or> triple_of rows j = triple_of rows i) ?g) \<le> 1 \<longleftrightarrow> unique_triple {} rows i"
    proof -
      have g: "i \<in> set ?g" "distinct ?g" using i by auto
      have "length (filter (\<lambda>j. j = i \<or> triple_of rows j = triple_of rows i) ?g) \<le> 1 \<longleftrightarrow>
          (\<forall>j \<in> set ?g. j = i \<or> triple_of rows j = triple_of rows i \<longrightarrow> j = i)"
        by (rule filter_one(1)[OF g(2,1)]) simp
      also have "\<dots> \<longleftrightarrow> (\<forall>j \<in> set [0..<length rows - 2]. triple_of rows j = triple_of rows i \<longrightarrow> j = i)"
        using key unfolding set_filter by blast
      finally show ?thesis unfolding uniq .
    qed
    also have "length ?g = 1 \<longrightarrow> unique_triple {} rows i"
    proof
      assume "length ?g = 1"
      then have "\<forall>j \<in> set [0..<length rows - 2]. ?k j = ?k i \<longrightarrow> j = i"
        using filter_one(1)[of "[0..<length rows - 2]" i "\<lambda>j. ?k j = ?k i"] i by simp
      then show "unique_triple {} rows i" using key uniq by blast
    qed
    then have "(length ?g = 1 \<or> unique_triple {} rows i) = unique_triple {} rows i" by blast
    finally show ?thesis using True by (simp add: triple_index_def)
  next
    case False
    let ?p = "[rows ! i, rows ! (i + 1), rows ! (i + 2)]"
    have pat: "pattern_at rows ?p j \<longleftrightarrow> triple_of rows j = triple_of rows i" for j
      by (auto simp: pattern_at_def triple_of_def numeral_2_eq_2)
    have "locate_triple rows ?p = int i \<longleftrightarrow> filter (pattern_at rows ?p) [0..<length rows - 2] = [i]"
      using assms(2) by (auto simp: locate_triple_eq flat_triple_def numeral_2_eq_2 split: list.split)
    also have "\<dots> \<longleftrightarrow> unique_triple {} rows i"
      using filter_one(3)[of "[0..<length rows - 2]" i "pattern_at rows ?p"] i uniq pat by simp
    finally show ?thesis using False by (simp add: triple_index_def)
  qed
qed

section \<open>What a certification reports\<close>

definition check_of :: "history_row list \<Rightarrow> int \<Rightarrow> nat \<Rightarrow> row_check" where
  "check_of recent offset i = \<lparr>ck_line_id = hr_line_id (recent ! i), ck_row = nat (int i + offset)\<rparr>"

lemma report_rows_eq:
  "report_rows recent offset lo hi equal covered reason =
     \<lparr>rm_checks = map (check_of recent offset) (filter (\<lambda>i. equal i \<and> covered ! (i - lo)) [lo..<hi]),
      rm_content = map (check_of recent offset) (filter (\<lambda>i. equal i \<and> \<not> covered ! (i - lo)) [lo..<hi]),
      rm_repairs = [], rm_reason = reason\<rparr>"
proof -
  have G: "foldl (\<lambda>result i.
        if \<not> equal i then result
        else (let c = \<lparr>ck_line_id = hr_line_id (recent ! i), ck_row = nat (int i + offset)\<rparr> in
              if covered ! (i - lo) then result\<lparr>rm_checks := rm_checks result @ [c]\<rparr>
              else result\<lparr>rm_content := rm_content result @ [c]\<rparr>)) r xs =
     r\<lparr>rm_checks := rm_checks r @ map (check_of recent offset) (filter (\<lambda>i. equal i \<and> covered ! (i - lo)) xs),
       rm_content := rm_content r @ map (check_of recent offset) (filter (\<lambda>i. equal i \<and> \<not> covered ! (i - lo)) xs)\<rparr>"
    for r xs
    by (induction xs arbitrary: r) (auto simp: check_of_def Let_def)
  show ?thesis unfolding report_rows_def empty_match_def G by simp
qed

text \<open>The specification: rows equal at the offset, and the evidence a checked row must have.\<close>

definition aligned_row :: "captured_row list \<Rightarrow> captured_row list \<Rightarrow> nat set \<Rightarrow> int \<Rightarrow> nat \<Rightarrow> bool" where
  "aligned_row R C unc offset i \<longleftrightarrow>
     i < length R \<and> 0 \<le> int i + offset \<and> int i + offset < int (length C) \<and>
     nat (int i + offset) \<notin> unc \<and> R ! i = C ! nat (int i + offset)"

definition row_evidence ::
  "nat set \<Rightarrow> captured_row list \<Rightarrow> captured_row list \<Rightarrow> nat set \<Rightarrow> int \<Rightarrow> nat \<Rightarrow> bool" where
  "row_evidence dup R C unc offset x \<longleftrightarrow>
     (\<exists>p q. p < x \<and> x \<le> q + 1 \<and> p < q \<and>
        (\<forall>y. p \<le> y \<and> y \<le> q + 2 \<longrightarrow> aligned_row R C unc offset y) \<and>
        (\<forall>t \<in> {p, q}. \<not> flat_triple R t \<and> unique_triple {} R t \<and> unique_triple dup C (nat (int t + offset)))) \<and>
     R ! (x - 1) \<noteq> R ! x \<and> R ! x \<noteq> R ! (x + 1)"

lemma between_evidence:
  assumes eq: "\<And>i. lo \<le> i \<Longrightarrow> i < hi \<Longrightarrow> eq i = aligned_row R C unc offset i"
    and bounds: "lo = overlap_from offset" "hi = overlap_to (length R) (length C) offset"
    and same: "\<And>i. i + 1 < length R \<Longrightarrow> same i = (R ! i = R ! (i + 1))"
    and uniq: "\<And>i. lo \<le> i \<Longrightarrow> i + 2 < hi \<Longrightarrow> \<forall>y. i \<le> y \<and> y \<le> i + 2 \<longrightarrow> aligned_row R C unc offset y \<Longrightarrow>
        \<not> flat_triple R i \<Longrightarrow>
        uniq i = (unique_triple {} R i \<and> unique_triple dup C (nat (int i + offset)))"
  shows "between_anchors lo hi eq same uniq x \<longleftrightarrow> row_evidence dup R C unc offset x"
proof -
  have dom: "lo \<le> i \<and> i < hi" if "aligned_row R C unc offset i" for i
    using that unfolding aligned_row_def bounds overlap_from_def overlap_to_def by linarith
  have hiR: "hi \<le> length R" unfolding bounds overlap_to_def by linarith
  have run: "lo \<le> p \<and> q + 2 < hi \<and> (\<forall>y. p \<le> y \<and> y \<le> q + 2 \<longrightarrow> eq y) \<longleftrightarrow>
      (\<forall>y. p \<le> y \<and> y \<le> q + 2 \<longrightarrow> aligned_row R C unc offset y)" if "p < q" for p q
  proof
    assume "lo \<le> p \<and> q + 2 < hi \<and> (\<forall>y. p \<le> y \<and> y \<le> q + 2 \<longrightarrow> eq y)"
    then show "\<forall>y. p \<le> y \<and> y \<le> q + 2 \<longrightarrow> aligned_row R C unc offset y" using eq by auto
  next
    assume A: "\<forall>y. p \<le> y \<and> y \<le> q + 2 \<longrightarrow> aligned_row R C unc offset y"
    then have "lo \<le> p" "q + 2 < hi" using dom that by auto
    then show "lo \<le> p \<and> q + 2 < hi \<and> (\<forall>y. p \<le> y \<and> y \<le> q + 2 \<longrightarrow> eq y)" using A eq by auto
  qed
  have anc: "anchor_at same uniq t \<longleftrightarrow>
      \<not> flat_triple R t \<and> unique_triple {} R t \<and> unique_triple dup C (nat (int t + offset))"
    if "\<forall>y. t \<le> y \<and> y \<le> t + 2 \<longrightarrow> aligned_row R C unc offset y" for t
  proof -
    have t: "lo \<le> t" "t + 2 < hi" using that dom by auto
    have "same t \<and> same (t + 1) \<longleftrightarrow> flat_triple R t"
      using same[of t] same[of "t + 1"] t(2) hiR by (auto simp: flat_triple_def)
    then show ?thesis using uniq[OF t that] unfolding anchor_at_def by blast
  qed
  have nbr: "\<not> same (x - 1) \<and> \<not> same x \<longleftrightarrow> R ! (x - 1) \<noteq> R ! x \<and> R ! x \<noteq> R ! (x + 1)"
    if "p < x" "x \<le> q + 1" "\<forall>y. p \<le> y \<and> y \<le> q + 2 \<longrightarrow> aligned_row R C unc offset y" for p q
  proof -
    have "x + 1 < length R" using that dom[of "q + 2"] hiR by auto
    then show ?thesis using same[of "x - 1"] same[of x] that(1) by auto
  qed
  have sub: "\<forall>y. t \<le> y \<and> y \<le> t + 2 \<longrightarrow> aligned_row R C unc offset y"
    if "\<forall>y. p \<le> y \<and> y \<le> q + 2 \<longrightarrow> aligned_row R C unc offset y" "p < q" "t \<in> {p, q}" for p q t
    using that by auto
  show ?thesis
  proof
    assume "between_anchors lo hi eq same uniq x"
    then obtain p q where pq: "lo \<le> p" "p < x" "x \<le> q + 1" "p < q" "q + 2 < hi"
      "\<forall>y. p \<le> y \<and> y \<le> q + 2 \<longrightarrow> eq y" "anchor_at same uniq p" "anchor_at same uniq q"
      and n: "\<not> same (x - 1)" "\<not> same x" unfolding between_anchors_def by blast
    have A: "\<forall>y. p \<le> y \<and> y \<le> q + 2 \<longrightarrow> aligned_row R C unc offset y" using run[OF pq(4)] pq by blast
    show "row_evidence dup R C unc offset x" unfolding row_evidence_def
      using pq A n nbr[OF pq(2,3) A] anc[OF sub[OF A pq(4)]] by blast
  next
    assume "row_evidence dup R C unc offset x"
    then obtain p q where pq: "p < x" "x \<le> q + 1" "p < q"
      and A: "\<forall>y. p \<le> y \<and> y \<le> q + 2 \<longrightarrow> aligned_row R C unc offset y"
      and u: "\<forall>t \<in> {p, q}. \<not> flat_triple R t \<and> unique_triple {} R t \<and> unique_triple dup C (nat (int t + offset))"
      and n: "R ! (x - 1) \<noteq> R ! x" "R ! x \<noteq> R ! (x + 1)" unfolding row_evidence_def by blast
    show "between_anchors lo hi eq same uniq x" unfolding between_anchors_def
      using pq A run[OF pq(3)] u n nbr[OF pq(1,2) A] anc[OF sub[OF A pq(3)]] by blast
  qed
qed

text \<open>The reported match in closed form.\<close>

definition certified :: "nat set \<Rightarrow> history_row list \<Rightarrow> captured_row list \<Rightarrow> nat set \<Rightarrow> int \<Rightarrow> match_reason \<Rightarrow> row_match" where
  "certified dup recent C unc offset reason =
     (let R = map row_of recent; rows = [overlap_from offset..<overlap_to (length R) (length C) offset] in
      \<lparr>rm_checks = map (check_of recent offset)
          (filter (\<lambda>i. aligned_row R C unc offset i \<and> row_evidence dup R C unc offset i) rows),
       rm_content = map (check_of recent offset)
          (filter (\<lambda>i. aligned_row R C unc offset i \<and> \<not> row_evidence dup R C unc offset i) rows),
       rm_repairs = [], rm_reason = reason\<rparr>)"

lemma certified_report:
  assumes "\<And>i. lo \<le> i \<Longrightarrow> i < hi \<Longrightarrow> eq i = aligned_row (map row_of recent) C unc offset i"
    and "\<And>i. lo \<le> i \<Longrightarrow> i < hi \<Longrightarrow> cov ! (i - lo) = row_evidence dup (map row_of recent) C unc offset i"
    and "lo = overlap_from offset" "hi = overlap_to (length recent) (length C) offset"
  shows "report_rows recent offset lo hi eq cov reason = certified dup recent C unc offset reason"
  unfolding report_rows_eq certified_def Let_def using assms
  by (auto intro!: arg_cong[where f = "map (check_of recent offset)"] filter_cong)

lemma certify_aligned_certified:
  assumes lo: "lo = overlap_from offset"
    and len: "length equal = overlap_to (length recent) (length C) offset - lo"
    and eq: "\<And>i. lo \<le> i \<Longrightarrow> i < overlap_to (length recent) (length C) offset \<Longrightarrow>
        equal ! (i - lo) = aligned_row (map row_of recent) C unc offset i"
  shows "certify_aligned mc recent C offset lo equal reason = certified {} recent C unc offset reason"
proof -
  let ?R = "map row_of recent" and ?hi0 = "overlap_to (length recent) (length C) offset"
  define hi where "hi = lo + length equal"
  let ?same = "\<lambda>i. same_neighbour (mc_probe mc i) (?R ! i) (?R ! (i + 1))"
  let ?uniq = "\<lambda>i. triple_index (mc_recent mc) ?R i \<and> triple_index (mc_captured mc) C (nat (int i + offset))"
  have unf: "certify_aligned mc recent C offset lo equal reason =
      report_rows recent offset lo hi (\<lambda>i. equal ! (i - lo))
        (classify lo hi (\<lambda>i. equal ! (i - lo)) ?same ?uniq) reason"
    by (simp only: certify_aligned_def Let_def hi_def)
  show ?thesis
  proof (cases "lo \<le> ?hi0")
    case False
    then have "hi = lo" "?hi0 \<le> overlap_from offset" using len lo by (auto simp: hi_def)
    then show ?thesis unfolding unf by (simp add: report_rows_eq certified_def Let_def lo)
  next
    case True
    then have hi: "hi = ?hi0" using len by (simp add: hi_def)
    show ?thesis unfolding unf
    proof (rule certified_report)
      show "equal ! (i - lo) = aligned_row ?R C unc offset i" if "lo \<le> i" "i < hi" for i
        using eq that hi by blast
      show "classify lo hi (\<lambda>i. equal ! (i - lo)) ?same ?uniq ! (i - lo) = row_evidence {} ?R C unc offset i"
        if i: "lo \<le> i" "i < hi" for i
        unfolding classify_spec(2)[OF i]
      proof (rule between_evidence)
        show "equal ! (j - lo) = aligned_row ?R C unc offset j" if "lo \<le> j" "j < hi" for j
          using eq that hi by blast
        show "lo = overlap_from offset" "hi = overlap_to (length ?R) (length C) offset" using lo hi by auto
        show "?same j = (?R ! j = ?R ! (j + 1))" for j by simp
        show "?uniq j = (unique_triple {} ?R j \<and> unique_triple {} C (nat (int j + offset)))"
          if "lo \<le> j" "j + 2 < hi" "\<forall>y. j \<le> y \<and> y \<le> j + 2 \<longrightarrow> aligned_row ?R C unc offset y" "\<not> flat_triple ?R j" for j
        proof -
          have al: "aligned_row ?R C unc offset j" "aligned_row ?R C unc offset (j + 1)" "aligned_row ?R C unc offset (j + 2)"
            using that(3) by auto
          then have n: "nat (int (j + 1) + offset) = nat (int j + offset) + 1"
            "nat (int (j + 2) + offset) = nat (int j + offset) + 2"
            unfolding aligned_row_def by linarith+
          have inC: "nat (int j + offset) + 2 < length C" using al(1,3) unfolding aligned_row_def by linarith
          have inR: "j + 2 < length ?R" using al(3) by (simp add: aligned_row_def)
          have "\<not> flat_triple C (nat (int j + offset))"
            using al that(4) n unfolding aligned_row_def flat_triple_def by metis
          then show ?thesis using triple_index_correct[OF inR that(4)] triple_index_correct[OF inC] by simp
        qed
      qed
    qed (use lo hi in auto)
  qed
qed

section \<open>Certification over interned ids\<close>

lemma count_one:
  assumes "\<forall>x \<in> set v. x < base" "i + 2 < length w" "\<forall>x \<in> set w. x < base"
    and "k + 2 < length v" "triple_of v k = triple_of w i" "\<not> flat_triple w i"
  shows "triple_counts v base (triple_key w i base) = 1 \<longleftrightarrow> unique_triple {} v k"
proof -
  let ?P = "\<lambda>j. \<not> (v ! j = v ! (j + 1) \<and> v ! j = v ! (j + 2)) \<and> triple_key v j base = triple_key w i base"
  have key: "triple_key v j base = triple_key w i base \<longleftrightarrow> triple_of v j = triple_of w i" if "j + 2 < length v" for j
  proof -
    have "\<forall>m<3. v ! (j + m) < base" "\<forall>m<3. w ! (i + m) < base" using assms(1-3) that by auto
    then show ?thesis by (simp add: triple_key_inject triple_of_def)
  qed
  have P: "?P j \<longleftrightarrow> triple_of v j = triple_of v k" if "j + 2 < length v" for j
    using key[OF that] assms(5,6) by (auto simp: triple_of_def flat_triple_def)
  have kin: "k \<in> set [0..<length v - 2]" using assms(4) by auto
  have pk: "?P k" using P[OF assms(4)] by simp
  note fo = filter_one[OF distinct_upt kin, of ?P, OF pk]
  have "triple_counts v base (triple_key w i base) = 1 \<longleftrightarrow> (\<forall>j \<in> set [0..<length v - 2]. ?P j \<longrightarrow> j = k)"
    using fo(1,2) unfolding triple_counts_eq by auto
  also have "\<dots> \<longleftrightarrow> unique_triple {} v k" unfolding unique_triple_def using P by auto
  finally show ?thesis .
qed

context row_ids
begin

lemma ids_triple_recent:
  assumes "i + 2 < length recent" "j + 2 < length recent"
  shows "triple_of a i = triple_of a j \<longleftrightarrow> triple_of recent i = triple_of recent j"
  using assms a_eq by (simp add: triple_of_def)

lemma ids_triple_captured:
  assumes "i + 2 < length recent" "j + 2 < length captured"
  shows "triple_of a i = triple_of b j \<longleftrightarrow>
    j \<notin> unc \<and> j + 1 \<notin> unc \<and> j + 2 \<notin> unc \<and> triple_of recent i = triple_of captured j"
  using assms ab_eq by (auto simp: triple_of_def)

lemma ids_flat: "i + 2 < length recent \<Longrightarrow> flat_triple a i \<longleftrightarrow> flat_triple recent i"
  using a_eq by (simp add: flat_triple_def)

lemma ids_below:
  "x \<in> set a \<Longrightarrow> x < max (length a) (length b) * 2 + 2" "x \<in> set b \<Longrightarrow> x < max (length a) (length b) * 2 + 2"
proof -
  have "length recent + length captured < max (length a) (length b) * 2 + 2"
    unfolding length_a length_b by linarith
  then show "x \<in> set a \<Longrightarrow> x < max (length a) (length b) * 2 + 2" "x \<in> set b \<Longrightarrow> x < max (length a) (length b) * 2 + 2"
    using a_bound b_bound length_a length_b by (metis in_set_conv_nth le_less_trans)+
qed

lemma ids_unique:
  assumes al: "\<forall>y. i \<le> y \<and> y \<le> i + 2 \<longrightarrow> aligned_row recent captured unc offset y"
    and nf: "\<not> flat_triple recent i"
  defines "base \<equiv> max (length a) (length b) * 2 + 2"
  shows "triple_counts a base (triple_key a i base) = 1 \<and> triple_counts b base (triple_key a i base) = 1 \<longleftrightarrow>
    unique_triple {} recent i \<and> unique_triple unc captured (nat (int i + offset))"
proof -
  let ?k = "nat (int i + offset)"
  have A: "aligned_row recent captured unc offset i" "aligned_row recent captured unc offset (i + 1)"
    "aligned_row recent captured unc offset (i + 2)" using al by auto
  then have n: "nat (int (i + 1) + offset) = ?k + 1" "nat (int (i + 2) + offset) = ?k + 2"
    unfolding aligned_row_def by linarith+
  have inC: "?k + 2 < length captured" using A(1,3) unfolding aligned_row_def by linarith
  have inR: "i + 2 < length recent" using A(3) by (simp add: aligned_row_def)
  have tr: "triple_of recent i = triple_of captured ?k" "?k \<notin> unc" "?k + 1 \<notin> unc" "?k + 2 \<notin> unc"
    using A n unfolding aligned_row_def triple_of_def by auto
  have ab: "triple_of b ?k = triple_of a i" using ids_triple_captured[OF inR inC] tr by auto
  have ba: "\<forall>x \<in> set a. x < base" and bb: "\<forall>x \<in> set b. x < base"
    unfolding base_def using ids_below by blast+
  have ia: "i + 2 < length a" and ib: "?k + 2 < length b" using inR inC length_a length_b by simp_all
  have nfa: "\<not> flat_triple a i" using nf ids_flat[OF inR] by simp
  have ra: "triple_counts a base (triple_key a i base) = 1 \<longleftrightarrow> unique_triple {} a i"
    by (rule count_one[OF ba ia ba ia refl nfa])
  have rb: "triple_counts b base (triple_key a i base) = 1 \<longleftrightarrow> unique_triple {} b ?k"
    by (rule count_one[OF bb ia ba ib ab nfa])
  have ua: "unique_triple {} a i \<longleftrightarrow> unique_triple {} recent i"
    unfolding unique_triple_def length_a using ids_triple_recent[OF _ inR] by blast
  have ub: "unique_triple {} b ?k \<longleftrightarrow> unique_triple unc captured ?k"
  proof -
    have "triple_of b j = triple_of a i \<longleftrightarrow>
        j \<notin> unc \<and> j + 1 \<notin> unc \<and> j + 2 \<notin> unc \<and> triple_of captured j = triple_of captured ?k"
      if "j + 2 < length captured" for j
    proof -
      have "triple_of b j = triple_of a i \<longleftrightarrow> triple_of a i = triple_of b j" by (rule eq_commute)
      also have "\<dots> \<longleftrightarrow> j \<notin> unc \<and> j + 1 \<notin> unc \<and> j + 2 \<notin> unc \<and> triple_of recent i = triple_of captured j"
        by (rule ids_triple_captured[OF inR that])
      finally show ?thesis using tr(1) by (simp only: eq_commute[of "triple_of captured j"])
    qed
    then show ?thesis unfolding unique_triple_def ab length_b by blast
  qed
  show ?thesis using ra rb ua ub by simp
qed

lemma certify_certified:
  assumes rows: "recent = map row_of ring"
  shows "certify ring a b offset reason = certified unc ring captured unc offset reason"
proof -
  let ?lo = "overlap_from offset" and ?hi = "overlap_to (length recent) (length captured) offset"
  let ?base = "max (length a) (length b) * 2 + 2"
  let ?eq = "\<lambda>i. a ! i = b ! nat (int i + offset)"
  let ?uniq = "\<lambda>i. triple_counts a ?base (triple_key a i ?base) = 1 \<and> triple_counts b ?base (triple_key a i ?base) = 1"
  have lens: "length ring = length recent" by (simp add: rows)
  show ?thesis
  proof (cases "?hi \<le> ?lo")
    case True
    then have e: "[?lo..<?hi] = []" by simp
    then have "certify ring a b offset reason = empty_match reason"
      using True by (simp add: certify_def length_a length_b)
    moreover have "certified unc ring captured unc offset reason = empty_match reason"
      using True rows by (simp add: certified_def Let_def empty_match_def)
    ultimately show ?thesis by simp
  next
    case False
    have eq: "?eq i = aligned_row recent captured unc offset i" if "?lo \<le> i" "i < ?hi" for i
    proof -
      have "i < length recent" "0 \<le> int i + offset" "int i + offset < int (length captured)"
        using that unfolding overlap_from_def overlap_to_def by linarith+
      then show ?thesis using ab_eq[of i "nat (int i + offset)"] by (auto simp: aligned_row_def)
    qed
    have unf: "certify ring a b offset reason = report_rows ring offset ?lo ?hi ?eq
        (classify ?lo ?hi ?eq (\<lambda>i. a ! i = a ! (i + 1)) ?uniq) reason"
      using False by (simp add: certify_def Let_def length_a length_b)
    show ?thesis unfolding unf
    proof (rule certified_report)
      show "classify ?lo ?hi ?eq (\<lambda>i. a ! i = a ! (i + 1)) ?uniq ! (i - ?lo) =
          row_evidence unc (map row_of ring) captured unc offset i" if i: "?lo \<le> i" "i < ?hi" for i
        unfolding classify_spec(2)[OF i] rows[symmetric]
      proof (rule between_evidence)
        show "?eq j = aligned_row recent captured unc offset j" if "?lo \<le> j" "j < ?hi" for j by (rule eq[OF that])
        show "(a ! j = a ! (j + 1)) = (recent ! j = recent ! (j + 1))" if "j + 1 < length recent" for j
          using a_eq that by simp
        show "?uniq j = (unique_triple {} recent j \<and> unique_triple unc captured (nat (int j + offset)))"
          if "\<forall>y. j \<le> y \<and> y \<le> j + 2 \<longrightarrow> aligned_row recent captured unc offset y" "\<not> flat_triple recent j" for j
          by (rule ids_unique[OF that])
      qed (rule refl)+
      show "?eq i = aligned_row (map row_of ring) captured unc offset i" if "?lo \<le> i" "i < ?hi" for i
        unfolding rows[symmetric] by (rule eq[OF that])
      show "?hi = overlap_to (length ring) (length captured) offset" by (simp add: lens)
    qed (rule refl)
  qed
qed

end

section \<open>Soundness of the matchers\<close>

definition sound_match :: "history_row list \<Rightarrow> captured_row list \<Rightarrow> nat set \<Rightarrow> row_match \<Rightarrow> bool" where
  "sound_match recent captured unc r \<longleftrightarrow>
     rm_repairs r = [] \<and>
     (\<exists>offset.
        (\<forall>c \<in> set (rm_checks r). \<exists>i. c = check_of recent offset i \<and>
           aligned_row (map row_of recent) captured unc offset i \<and>
           row_evidence unc (map row_of recent) captured unc offset i) \<and>
        (\<forall>c \<in> set (rm_content r). \<exists>i. c = check_of recent offset i \<and>
           aligned_row (map row_of recent) captured unc offset i))"

lemma row_evidence_mono: "row_evidence {} R C unc offset x \<Longrightarrow> row_evidence unc R C unc offset x"
  unfolding row_evidence_def using unique_triple_mono by metis

lemma certified_sound:
  assumes "dup = {} \<or> dup = unc"
  shows "sound_match recent captured unc (certified dup recent captured unc offset reason)"
  unfolding sound_match_def certified_def Let_def
  using assms row_evidence_mono by (auto intro!: exI[of _ offset])

lemma empty_match_sound [simp]: "sound_match recent captured unc (empty_match reason)"
  by (simp add: sound_match_def empty_match_def)

lemma sound_match_reason [simp]:
  "sound_match recent captured unc (r\<lparr>rm_reason := x\<rparr>) = sound_match recent captured unc r"
  by (simp add: sound_match_def)

lemma settle_sound: "sound_match recent captured unc (settle r) = sound_match recent captured unc r"
  by (simp add: settle_def)

lemma settle_reason: "rm_reason (settle r) = Matched \<Longrightarrow> rm_checks (settle r) \<noteq> []"
  by (auto simp: settle_def split: if_splits)

lemma aligned_rows_spec:
  assumes "aligned_rows unc k rs cs d = (eq, d')" "length rs = length cs" "d' < 2" "d \<le> 2"
  shows "length eq = length rs \<and> (\<forall>i < length rs. eq ! i \<longleftrightarrow> k + i \<notin> unc \<and> rs ! i = cs ! i)"
proof -
  have mono: "aligned_rows unc k rs cs d = (eq, d') \<Longrightarrow> d \<le> d'" for k d rs cs eq d'
  proof (induction unc k rs cs d arbitrary: eq d' rule: aligned_rows.induct)
    case (1 unc i r rs c cs d)
    then show ?case by (fastforce split: if_splits prod.splits)
  qed auto
  show ?thesis
    using assms
  proof (induction unc k rs cs d arbitrary: eq d' rule: aligned_rows.induct)
    case (1 unc i r rs c cs d)
    show ?case
    proof (cases "d < 2")
      case False
      then show ?thesis using "1.prems" by auto
    next
      case True
      define g where "g \<longleftrightarrow> i \<notin> unc \<and> r = c"
      obtain eq1 d1 where rest: "aligned_rows unc (Suc i) rs cs (if g then d else Suc d) = (eq1, d1)" by fastforce
      then have e: "eq = g # eq1" "d' = d1" using "1.prems"(1) True by (auto simp: g_def split: if_splits)
      have "length eq1 = length rs \<and> (\<forall>j < length rs. eq1 ! j \<longleftrightarrow> Suc i + j \<notin> unc \<and> rs ! j = cs ! j)"
      proof (cases g)
        case T: True
        then show ?thesis using "1.IH"(1)[of eq1 d1] True rest "1.prems" e by (auto simp: g_def)
      next
        case F: False
        then show ?thesis using "1.IH"(2)[of eq1 d1] True rest "1.prems" e by (auto simp: g_def)
      qed
      then show ?thesis using e by (auto simp: g_def nth_Cons' less_Suc_eq_0_disj)
    qed
  qed auto
qed

lemma overlap_zero: "overlap_from 0 = 0" "overlap_to n n 0 = n"
  by (simp_all add: overlap_from_def overlap_to_def)

lemma match_interned_sound:
  "sound_match recent captured unc
     (match_interned recent (fst (intern_rows (map row_of recent) captured unc))
        (snd (intern_rows (map row_of recent) captured unc)) gap)"
  unfolding match_interned_def Let_def
  by (auto simp: settle_sound interned.certify_certified certified_sound split: prod.split)

lemma match_interned_reason:
  "rm_reason (match_interned recent a b gap) = Matched \<Longrightarrow> rm_checks (match_interned recent a b gap) \<noteq> []"
  unfolding match_interned_def Let_def
  by (auto simp: empty_match_def settle_reason split: prod.splits if_splits)

lemma full_match_report:
  "sound_match recent captured (ms_uncertain scope) (match_history_rows mc recent captured scope) \<and>
   (let r = match_history_rows mc recent captured scope in
    (rm_reason r = Matched \<longrightarrow> rm_checks r \<noteq> []) \<and>
    (rm_checks r \<noteq> [] \<or> rm_content r \<noteq> [] \<longrightarrow>
       ms_complete scope \<and> (\<forall>row \<in> set recent. hr_epoch row = ms_epoch scope \<and> hr_geometry row = ms_geometry scope)))"
proof -
  let ?R = "map row_of recent" and ?unc = "ms_uncertain scope"
  obtain equal d where al: "aligned_rows ?unc 0 ?R captured 0 = (equal, d)" by fastforce
  consider (partial) "\<not> ms_complete scope" | (gen) "ms_complete scope" "generation_differs recent scope"
    | (fast) "ms_complete scope" "\<not> generation_differs recent scope" "3 \<le> length recent" "length recent = length captured" "d < 2"
    | (slow) "ms_complete scope" "\<not> generation_differs recent scope" "\<not> (3 \<le> length recent \<and> length recent = length captured \<and> d < 2)"
    by blast
  then show ?thesis
  proof cases
    case partial
    then show ?thesis by (simp add: match_history_rows_def Let_def) (simp add: empty_match_def)
  next
    case gen
    then show ?thesis by (simp add: match_history_rows_def Let_def) (simp add: empty_match_def)
  next
    case fast
    have r: "match_history_rows mc recent captured scope = settle (certify_aligned mc recent captured 0 0 equal Matched)"
      using fast al by (simp add: match_history_rows_def Let_def)
    have E: "length equal = length ?R \<and> (\<forall>i < length ?R. equal ! i \<longleftrightarrow> i \<notin> ?unc \<and> ?R ! i = captured ! i)"
      using aligned_rows_spec[OF al] fast by simp
    have "certify_aligned mc recent captured 0 0 equal Matched = certified {} recent captured ?unc 0 Matched"
      by (rule certify_aligned_certified) (use E fast in \<open>auto simp: overlap_zero aligned_row_def\<close>)
    then show ?thesis unfolding r Let_def settle_sound
      using certified_sound[of "{}" ?unc recent captured 0 Matched] settle_reason fast
      by (auto simp: generation_differs_def list_ex_iff)
  next
    case slow
    have r: "match_history_rows mc recent captured scope =
        match_interned recent (fst (intern_rows ?R captured ?unc)) (snd (intern_rows ?R captured ?unc)) (ms_max_tail_gap scope)"
      using slow al by (auto simp: match_history_rows_def Let_def split: prod.split)
    show ?thesis unfolding r Let_def using match_interned_sound match_interned_reason slow
      by (auto simp: generation_differs_def list_ex_iff)
  qed
qed

lemma full_match_sound:
  "sound_match recent captured (ms_uncertain scope) (match_history_rows mc recent captured scope)"
  using full_match_report by blast

text \<open>
  C16: The full matcher makes no claim it cannot prove. Everything it reports lies on one offset
  between the ring and the capture and is exactly equal there, outside the uncertain captured rows; a row it
  calls checked differs from both neighbours and lies between two different triples, each
  aligned and occurring once in the ring and once among the certain captured triples. It never proposes a repair,
  reports nothing on a partial capture or a ring of another generation, and answers
  \<open>matched\<close> only with at least one checked row; hash keys, sampled indexes and memos never
  influence the answer's soundness.
\<close>

theorem match_history_rows_sound:
  "sound_match recent captured (ms_uncertain scope) (match_history_rows mc recent captured scope) \<and>
   (let r = match_history_rows mc recent captured scope in
    (rm_reason r = Matched \<longrightarrow> rm_checks r \<noteq> []) \<and>
    (rm_checks r \<noteq> [] \<or> rm_content r \<noteq> [] \<longrightarrow>
       ms_complete scope \<and> (\<forall>row \<in> set recent. hr_epoch row = ms_epoch scope \<and> hr_geometry row = ms_geometry scope)))"
  by (rule full_match_report)



section \<open>The incremental chain\<close>

lemma overlap_equal_certified:
  "certify_aligned mc recent captured offset (overlap_from offset)
     (overlap_equal unc (map row_of recent) captured offset (overlap_from offset)
        (overlap_to (length recent) (length captured) offset)) reason =
   certified {} recent captured unc offset reason"
proof (rule certify_aligned_certified)
  let ?lo = "overlap_from offset" and ?hi = "overlap_to (length recent) (length captured) offset"
  show "overlap_equal unc (map row_of recent) captured offset ?lo ?hi ! (i - ?lo) =
      aligned_row (map row_of recent) captured unc offset i" if "?lo \<le> i" "i < ?hi" for i
  proof -
    have "i < length recent" "0 \<le> int i + offset" "int i + offset < int (length captured)"
      using that unfolding overlap_from_def overlap_to_def by linarith+
    moreover have "[?lo..<?hi] ! (i - ?lo) = i" using that by (subst nth_upt) auto
    ultimately show ?thesis using that by (auto simp: overlap_equal_def aligned_row_def)
  qed
qed (auto simp: overlap_equal_def)

text \<open>
  The evidence a partial capture needs: the three remembered rows are still in the ring, in a row
  and unchanged, and form a triple that occurs exactly once in the ring and once in the capture,
  away from uncertain rows; they fix the offset.
\<close>

definition chain_link ::
  "(int \<times> captured_row) list \<Rightarrow> history_row list \<Rightarrow> captured_row list \<Rightarrow> nat set \<Rightarrow> nat \<Rightarrow> nat \<Rightarrow> bool" where
  "chain_link prior recent captured unc first pos \<longleftrightarrow>
     length prior = 3 \<and> first + 2 < length recent \<and> pos + 2 < length captured \<and>
     (\<forall>n<3. prior ! n = (hr_line_id (recent ! (first + n)), row_of (recent ! (first + n))) \<and>
            row_of (recent ! (first + n)) = captured ! (pos + n) \<and> pos + n \<notin> unc) \<and>
     \<not> flat_triple captured pos \<and> unique_triple {} captured pos \<and> unique_triple {} (map row_of recent) first"

lemma still_exact_iff:
  "still_exact recent first prior \<longleftrightarrow>
     (\<forall>n < length prior. first + n < length recent \<and>
        prior ! n = (hr_line_id (recent ! (first + n)), row_of (recent ! (first + n))))"
proof -
  have "still_exact recent first prior \<longleftrightarrow>
     (\<forall>n < length prior. (case (n, prior ! n) of (n, l, row) \<Rightarrow> first + n < length recent \<and>
        hr_line_id (recent ! (first + n)) = l \<and> row = row_of (recent ! (first + n))))"
    by (simp add: still_exact_def list_all_length)
  then show ?thesis by (auto simp: prod_eq_iff split: prod.splits)
qed

lemma match_chain_cases:
  obtains (none) reason where "match_chain mc prior recent captured scope = empty_match reason" "reason \<noteq> Matched"
  | (link) first pos x where "chain_link prior recent captured (ms_uncertain scope) first pos"
      "\<not> generation_differs recent scope"
      "match_chain mc prior recent captured scope =
         (certified {} recent captured (ms_uncertain scope) (int pos - int first) Matched)\<lparr>rm_reason := x\<rparr>"
proof (cases "generation_differs recent scope \<or> length prior \<noteq> 3 \<or> find_line 0 recent (fst (hd prior)) = None")
  case True
  then have "match_chain mc prior recent captured scope \<in> {empty_match Generation, empty_match PartialTail}"
    by (cases "generation_differs recent scope"; cases "length prior = 3")
      (simp_all add: match_chain_def cong: if_cong)
  then show ?thesis using none by blast
next
  case False
  then obtain first where f: "find_line 0 recent (fst (hd prior)) = Some first" and l3: "length prior = 3" by auto
  let ?pat = "map snd prior" and ?R = "map row_of recent"
  let ?pos = "locate_triple captured ?pat"
  let ?bad = "?pos < 0 \<or> locate_triple ?R ?pat \<noteq> int first \<or> list_ex (\<lambda>n. nat ?pos + n \<in> ms_uncertain scope) [0, 1, 2]"
  show ?thesis
  proof (cases "\<not> still_exact recent first prior \<or> ?bad")
    case True
    then have "match_chain mc prior recent captured scope \<in> {empty_match Ambiguous, empty_match PartialTail}"
      using False f l3 by (cases "still_exact recent first prior") (simp_all add: match_chain_def Let_def cong: if_cong)
    then show ?thesis using none by blast
  next
    case good: False
    obtain pos where pos: "?pos = int pos" using good by (metis nonneg_int_cases not_less)
    have loc: "locate_triple ?R ?pat = int first" using good by blast
    note LR = locate_triple_found[OF loc] and LC = locate_triple_found[OF pos]
    have ex: "\<forall>n<3. first + n < length recent \<and> prior ! n = (hr_line_id (recent ! (first + n)), row_of (recent ! (first + n)))"
      using good l3 still_exact_iff by auto
    have "pos \<notin> ms_uncertain scope \<and> pos + 1 \<notin> ms_uncertain scope \<and> pos + 2 \<notin> ms_uncertain scope"
      using good pos by simp
    moreover have "?R ! (first + n) = ?pat ! n \<and> captured ! (pos + n) = ?pat ! n" if "n = 0 \<or> n = 1 \<or> n = 2" for n
      using LR(2) LC(2) that unfolding pattern_at_def by auto
    ultimately have "row_of (recent ! (first + n)) = captured ! (pos + n) \<and> pos + n \<notin> ms_uncertain scope"
      if "n < 3" for n
    proof -
      have n: "n = 0 \<or> n = 1 \<or> n = 2" using that by auto
      then have "?R ! (first + n) = captured ! (pos + n)"
        using \<open>\<And>n. n = 0 \<or> n = 1 \<or> n = 2 \<Longrightarrow> ?R ! (first + n) = ?pat ! n \<and> captured ! (pos + n) = ?pat ! n\<close> by metis
      moreover have "first + n < length recent" using ex that by blast
      moreover have "pos + n \<notin> ms_uncertain scope" using good pos n by auto
      ultimately show ?thesis by simp
    qed
    then have link: "chain_link prior recent captured (ms_uncertain scope) first pos"
      unfolding chain_link_def using ex LR LC l3 by simp
    let ?off = "int pos - int first"
    have m: "match_chain mc prior recent captured scope =
        (let result = certified {} recent captured (ms_uncertain scope) ?off Matched in
         if int pos + 4 < int (length captured) \<and> \<not> list_ex (\<lambda>c. int pos + 3 \<le> int (ck_row c)) (rm_checks result)
         then result\<lparr>rm_reason := Ambiguous\<rparr> else result)"
      using False f l3 good pos by (simp add: match_chain_def Let_def overlap_equal_certified cong: if_cong)
    let ?result = "certified {} recent captured (ms_uncertain scope) ?off Matched"
    have "rm_reason ?result = Matched" by (simp add: certified_def Let_def)
    then have same: "?result = ?result\<lparr>rm_reason := Matched\<rparr>" by simp
    have gen: "\<not> generation_differs recent scope" using False by blast
    show ?thesis
    proof (cases "int pos + 4 < int (length captured) \<and> \<not> list_ex (\<lambda>c. int pos + 3 \<le> int (ck_row c)) (rm_checks ?result)")
      case True
      then show ?thesis using m that(2)[OF link gen, of Ambiguous] by simp
    next
      case False
      then have "match_chain mc prior recent captured scope = ?result" using m by (simp only: Let_def if_False)
      then show ?thesis using that(2)[OF link gen, of Matched] same by simp
    qed
  qed
qed

lemma chain_report:
  "sound_match recent captured (ms_uncertain scope) (match_chain mc prior recent captured scope) \<and>
   (rm_checks (match_chain mc prior recent captured scope) \<noteq> [] \<or>
    rm_content (match_chain mc prior recent captured scope) \<noteq> [] \<longrightarrow>
      \<not> generation_differs recent scope \<and>
      (\<exists>first pos. chain_link prior recent captured (ms_uncertain scope) first pos))"
proof (cases rule: match_chain_cases[of mc prior recent captured scope])
  case (none reason)
  then show ?thesis by (simp add: empty_match_def sound_match_def)
next
  case (link first pos x)
  have "sound_match recent captured (ms_uncertain scope) (match_chain mc prior recent captured scope)"
    using certified_sound[of "{}" "ms_uncertain scope"] by (simp add: link(3))
  then show ?thesis using link(1,2) by blast
qed

lemma chain_link_length: "chain_link prior recent captured unc first pos \<Longrightarrow> length prior = 3"
  by (simp add: chain_link_def)

text \<open>
  C11: The incremental matcher never bridges a gap by guessing. On any capture its report is as
  sound as the full matcher's, and on a partial capture it reports a row only when the same generation's
  remembered triple is still in the ring unchanged, occurs exactly once in the ring and once in the
  capture, and thereby fixes the offset; a new generation forgets the chain.
\<close>

theorem matcher_match_sound:
  "let r = fst (matcher_match mc m recent captured scope); m' = snd (matcher_match mc m recent captured scope);
       generation = Some (ms_epoch scope, ms_geometry scope)
   in sound_match recent captured (ms_uncertain scope) r \<and>
      im_generation m' = generation \<and>
      im_checked m' = (if im_generation m = generation then im_checked m else []) \<and>
      (\<not> ms_complete scope \<and> (rm_checks r \<noteq> [] \<or> rm_content r \<noteq> []) \<longrightarrow>
         im_generation m = generation \<and> \<not> generation_differs recent scope \<and>
         (\<exists>first pos. chain_link (im_checked m) recent captured (ms_uncertain scope) first pos))"
proof (cases "im_generation m = Some (ms_epoch scope, ms_geometry scope)")
  case True
  then have "matcher_match mc m recent captured scope =
      (if ms_complete scope then match_history_rows mc recent captured scope
       else match_chain mc (im_checked m) recent captured scope, m)"
    by (simp add: matcher_match_def Let_def)
  then show ?thesis using True chain_report full_match_sound by (simp add: Let_def)
next
  case False
  then have run: "matcher_match mc m recent captured scope =
      (if ms_complete scope then match_history_rows mc recent captured scope
       else match_chain mc [] recent captured scope,
       m\<lparr>im_checked := [], im_generation := Some (ms_epoch scope, ms_geometry scope)\<rparr>)"
    by (simp add: matcher_match_def Let_def matcher_reset_def)
  have "\<not> chain_link [] recent captured (ms_uncertain scope) first pos" for first pos
    using chain_link_length by force
  then have "rm_checks (match_chain mc [] recent captured scope) = [] \<and>
      rm_content (match_chain mc [] recent captured scope) = []"
    using chain_report by blast
  then show ?thesis using False chain_report full_match_sound unfolding run by (simp add: Let_def)
qed

section \<open>Remembering\<close>

lemma seed_triple_spec:
  assumes "seed_triple recent checks ks = Some ts" "\<forall>k \<in> set ks. 2 \<le> k \<and> k < length checks"
  shows "\<exists>t0 t1 t2 p. ts = [t0, t1, t2] \<and> {t0, t1, t2} \<subseteq> set checks \<and>
    ck_row t1 = ck_row t0 + 1 \<and> ck_row t2 = ck_row t0 + 2 \<and> p + 2 < length recent \<and>
    hr_line_id (recent ! p) = ck_line_id t0 \<and> hr_line_id (recent ! (p + 1)) = ck_line_id t1 \<and>
    hr_line_id (recent ! (p + 2)) = ck_line_id t2"
  using assms
proof (induction recent checks ks rule: seed_triple.induct)
  case (2 recent checks k ks)
  let ?t0 = "checks ! (k - 2)" and ?t1 = "checks ! (k - 1)" and ?t2 = "checks ! k"
  have k: "2 \<le> k" "k < length checks" using "2.prems"(2) by auto
  have find_line: "find_line i rs l = Some j \<Longrightarrow> i \<le> j \<and> j - i < length rs \<and> hr_line_id (rs ! (j - i)) = l"
    for i rs l j
    by (induction i rs l rule: find_line.induct) (force split: if_splits simp: nth_Cons')+
  show ?case
  proof (cases "ck_row ?t1 \<noteq> ck_row ?t0 + 1 \<or> ck_row ?t2 \<noteq> ck_row ?t1 + 1")
    case True
    then show ?thesis using "2.IH"(1)[OF refl refl refl True] "2.prems" by (auto simp: Let_def)
  next
    case rows: False
    show ?thesis
    proof (cases "last_line recent (ck_line_id ?t0)")
      case None
      then show ?thesis using "2.IH"(2)[OF refl refl refl rows None] "2.prems" rows by (auto simp: Let_def)
    next
      case (Some p)
      show ?thesis
      proof (cases "line_id_at recent (p + 1) \<noteq> Some (ck_line_id ?t1) \<or> line_id_at recent (p + 2) \<noteq> Some (ck_line_id ?t2)")
        case True
        then show ?thesis using "2.IH"(3)[OF refl refl refl rows Some True] "2.prems" rows Some by (auto simp: Let_def)
      next
        case False
        then have ts: "ts = [?t0, ?t1, ?t2]" using "2.prems"(1) rows Some by (auto simp: Let_def)
        obtain i where i: "find_line 0 (rev recent) (ck_line_id ?t0) = Some i" "p = length recent - 1 - i"
          using Some by (auto simp: last_line_def split: option.splits)
        then have "hr_line_id (recent ! p) = ck_line_id ?t0"
          using find_line[OF i(1)] by (auto simp: rev_nth)
        moreover have "p + 2 < length recent \<and> hr_line_id (recent ! (p + 1)) = ck_line_id ?t1 \<and>
            hr_line_id (recent ! (p + 2)) = ck_line_id ?t2"
          using False by (auto simp: line_id_at_def split: if_splits)
        ultimately show ?thesis using ts rows k
          by (intro exI[of _ ?t0] exI[of _ ?t1] exI[of _ ?t2] exI[of _ p]) auto
      qed
    qed
  qed
qed simp

text \<open>
  What is remembered is what was verified. After a sound match of a ring with distinct line
  ids, the chain is either empty or exactly three rows that stand in a row in the ring and in a row in the
  capture, identical in both, each of them checked by that match; the generation is left alone.
\<close>

theorem remember_keeps_checked:
  assumes "sound_match recent captured unc r" and "distinct (map hr_line_id recent)"
  shows "im_generation (matcher_remember m recent captured r) = im_generation m \<and>
    (im_checked (matcher_remember m recent captured r) = [] \<or>
     (\<exists>first pos. first + 2 < length recent \<and> pos + 2 < length captured \<and>
        im_checked (matcher_remember m recent captured r) =
          map (\<lambda>n. (hr_line_id (recent ! (first + n)), captured ! (pos + n))) [0, 1, 2] \<and>
        (\<forall>n \<in> {0, 1, 2}. row_of (recent ! (first + n)) = captured ! (pos + n) \<and> pos + n \<notin> unc \<and>
           \<lparr>ck_line_id = hr_line_id (recent ! (first + n)), ck_row = pos + n\<rparr> \<in> set (rm_checks r))))"
proof -
  let ?checks = "sorted_checks (rm_checks r)"
  have set_checks: "set ?checks = set (rm_checks r)" by (simp add: sorted_checks_def)
  have ks: "\<forall>k \<in> set (rev [2..<length ?checks]). 2 \<le> k \<and> k < length ?checks" by auto
  show ?thesis
  proof (cases "seed_triple recent ?checks (rev [2..<length ?checks])")
    case None
    then show ?thesis by (simp add: matcher_remember_def Let_def)
  next
    case (Some ts)
    from seed_triple_spec[OF Some ks, unfolded set_checks]
    obtain t0 t1 t2 p where T: "ts = [t0, t1, t2] \<and> {t0, t1, t2} \<subseteq> set (rm_checks r) \<and>
      ck_row t1 = ck_row t0 + 1 \<and> ck_row t2 = ck_row t0 + 2 \<and> p + 2 < length recent \<and>
      hr_line_id (recent ! p) = ck_line_id t0 \<and> hr_line_id (recent ! (p + 1)) = ck_line_id t1 \<and>
      hr_line_id (recent ! (p + 2)) = ck_line_id t2" by (elim exE)
    note t = T [THEN conjunct1] T [THEN conjunct2, THEN conjunct1] T [THEN conjunct2, THEN conjunct2, THEN conjunct1]
      T [THEN conjunct2, THEN conjunct2, THEN conjunct2, THEN conjunct1]
    have t5: "p + 2 < length recent" "hr_line_id (recent ! p) = ck_line_id t0"
      "hr_line_id (recent ! (p + 1)) = ck_line_id t1" "hr_line_id (recent ! (p + 2)) = ck_line_id t2"
      using T by simp_all
    obtain offset where off: "\<forall>c \<in> set (rm_checks r). \<exists>i. c = check_of recent offset i \<and>
           aligned_row (map row_of recent) captured unc offset i"
      using assms(1) unfolding sound_match_def by blast
    have inj_lines: "i = j" if "i < length recent" "j < length recent" "hr_line_id (recent ! i) = hr_line_id (recent ! j)" for i j
      using that nth_eq_iff_index_eq[OF assms(2), of i j] by simp
    have at: "row_of (recent ! i) = captured ! ck_row c \<and> ck_row c \<notin> unc \<and> ck_row c < length captured"
      if "c \<in> set (rm_checks r)" "hr_line_id (recent ! i) = ck_line_id c" "i < length recent" for c i
    proof -
      from bspec[OF off that(1)]
      obtain j where j: "c = check_of recent offset j" "aligned_row (map row_of recent) captured unc offset j"
        by (elim exE conjE)
      then have "j < length recent" by (simp add: aligned_row_def)
      moreover from this have "hr_line_id (recent ! i) = hr_line_id (recent ! j)"
        using that(2) j(1) by (simp add: check_of_def)
      ultimately have "i = j" by (rule inj_lines[OF that(3)])
      then show ?thesis using j(2) \<open>j < length recent\<close> unfolding aligned_row_def j(1) check_of_def
        by (auto simp: nat_less_iff)
    qed
    have ne: "ck_line_id t0 \<noteq> ck_line_id t1" "ck_line_id t0 \<noteq> ck_line_id t2" "ck_line_id t1 \<noteq> ck_line_id t2"
      using inj_lines[of p "p + 1"] inj_lines[of p "p + 2"] inj_lines[of "p + 1" "p + 2"] t5(1)
      unfolding t5(2-4) by linarith+
    have new: "matcher_remember m recent captured r = m\<lparr>im_checked :=
        [(ck_line_id t0, captured ! ck_row t0), (ck_line_id t1, captured ! ck_row t1), (ck_line_id t2, captured ! ck_row t2)]\<rparr>"
      using Some t(1) ne by (simp add: matcher_remember_def Let_def)
    have eta: "\<lparr>ck_line_id = ck_line_id c, ck_row = ck_row c\<rparr> = c" for c :: row_check by simp
    have mem: "t0 \<in> set (rm_checks r)" "t1 \<in> set (rm_checks r)" "t2 \<in> set (rm_checks r)" using t(2) by auto
    note a0 = at[OF mem(1) t5(2)] and a1 = at[OF mem(2) t5(3)] and a2 = at[OF mem(3) t5(4)]
    let ?good = "\<lambda>n. row_of (recent ! (p + n)) = captured ! (ck_row t0 + n) \<and> ck_row t0 + n \<notin> unc \<and>
        \<lparr>ck_line_id = hr_line_id (recent ! (p + n)), ck_row = ck_row t0 + n\<rparr> \<in> set (rm_checks r)"
    have g0: "?good 0" using a0 t5(1) mem(1) unfolding add_0_right t5(2) eta by simp
    have g1: "?good 1" using a1 t5(1) mem(2) unfolding t5(3) t(3) [symmetric] eta by simp
    have g2: "?good 2" using a2 t5(1) mem(3) unfolding t5(4) t(4) [symmetric] eta by simp
    have "ck_row t0 + 2 < length captured" using a2 t(4) t5(1) by simp
    moreover have "im_checked (matcher_remember m recent captured r) =
        map (\<lambda>n. (hr_line_id (recent ! (p + n)), captured ! (ck_row t0 + n))) [0, 1, 2]"
      unfolding new by (simp add: t(3,4) t5(2) t5(3)[simplified] t5(4)[simplified])
    moreover have "\<forall>n \<in> {0, 1, 2}. ?good n" using g0 g1 g2 by blast
    moreover have "im_generation (matcher_remember m recent captured r) = im_generation m" unfolding new by simp
    ultimately show ?thesis
      using t5(1) by (intro conjI disjI2 exI[of _ p] exI[of _ "ck_row t0"]) assumption+
  qed
qed


section \<open>Witnesses\<close>

definition example_cell :: "nat \<Rightarrow> hist_cell" where
  "example_cell n = \<lparr>hc_grapheme = [of_nat n], hc_width = 1, hc_continuation = False, hc_fg = [], hc_bg = [],
     hc_style = 0\<rparr>"

definition example_row :: "nat \<Rightarrow> captured_row" where
  "example_row n = \<lparr>cr_cells = [example_cell n], cr_soft_wrap = False\<rparr>"

definition example_ring :: "history_row list" where
  "example_ring = map (\<lambda>n. \<lparr>cr_cells = [example_cell n], cr_soft_wrap = False,
     hr_line_id = 40 + int n, hr_epoch = 1, hr_geometry = 1\<rparr>) [0, 1, 2, 3, 4, 5]"

definition example_capture :: "captured_row list" where
  "example_capture = map example_row [0, 1, 2, 3, 4, 5]"

definition example_memo :: memo_choice where
  "example_memo = \<lparr>mc_recent = (\<lambda>_. False), mc_captured = (\<lambda>_. False), mc_probe = (\<lambda>_. 0)\<rparr>"

definition example_scope :: match_scope where
  "example_scope = \<lparr>ms_epoch = 1, ms_geometry = 1, ms_complete = True, ms_max_tail_gap = None, ms_uncertain = {}\<rparr>"

definition example_result :: row_match where
  "example_result = \<lparr>rm_checks = map (\<lambda>n. \<lparr>ck_line_id = 40 + int n, ck_row = n\<rparr>) [1, 2, 3, 4],
     rm_content = map (\<lambda>n. \<lparr>ck_line_id = 40 + int n, ck_row = n\<rparr>) [0, 5], rm_repairs = [], rm_reason = Matched\<rparr>"

lemma example_match: "match_history_rows example_memo example_ring example_capture example_scope = example_result"
  by code_simp

lemma match_history_rows_sound_witness:
  "sound_match example_ring example_capture {} example_result \<and> ms_complete example_scope \<and> rm_checks example_result \<noteq> []"
  using match_history_rows_sound [of example_ring example_capture example_scope example_memo]
  unfolding example_match Let_def by (simp add: example_result_def example_scope_def)

definition example_matcher :: matcher where
  "example_matcher = \<lparr>im_checked = [(42, example_row 2), (43, example_row 3), (44, example_row 4)],
     im_generation = Some (1, 1)\<rparr>"

lemma example_remember:
  "matcher_remember \<lparr>im_checked = [], im_generation = Some (1, 1)\<rparr> example_ring example_capture example_result =
     example_matcher"
  by code_simp

lemma remember_keeps_checked_witness:
  "im_checked example_matcher = [] \<or>
   (\<exists>first pos. first + 2 < length example_ring \<and> pos + 2 < length example_capture)"
proof -
  have s: "sound_match example_ring example_capture {} example_result"
    using full_match_sound[of example_ring example_capture example_scope example_memo]
    unfolding example_match by (simp add: example_scope_def)
  have d: "distinct (map hr_line_id example_ring)" by (simp add: example_ring_def)
  show ?thesis
    using remember_keeps_checked [OF s d, of "\<lparr>im_checked = [], im_generation = Some (1, 1)\<rparr>"]
    unfolding example_remember by blast
qed

definition example_tail_scope :: match_scope where
  "example_tail_scope = example_scope\<lparr>ms_complete := False\<rparr>"

lemma example_chain:
  "rm_checks (fst (matcher_match example_memo example_matcher example_ring example_capture example_tail_scope)) \<noteq> []"
  by code_simp

lemma matcher_match_sound_witness:
  "\<exists>first pos. chain_link (im_checked example_matcher) example_ring example_capture {} first pos"
  using matcher_match_sound [of example_memo example_matcher example_ring example_capture example_tail_scope]
    example_chain
  by (simp add: Let_def example_tail_scope_def example_scope_def)

end
