(* ===== verification/History_Stitch.thy ===== *)
theory History_Stitch
  imports Prelude
begin

text \<open>
  Reconciling a capture with a durable archive, \<open>server/src/history-stitch.ts\<close>: locating the
  archived tail in the capture and the rows to append. The archive is related to the true scrollback
  stream by a prefix relation, and appending preserves it.
\<close>

section \<open>Anchors\<close>

datatype anchor_match = AnchorAt nat | AnchorMissing | AnchorAmbiguous

fun row_matches :: "jstr list \<Rightarrow> jstr list \<Rightarrow> nat \<Rightarrow> nat list \<Rightarrow> bool" where
  "row_matches hay needle start [] = True"
| "row_matches hay needle start (i # is) =
     (if hay ! (start + i) \<noteq> needle ! i then False else row_matches hay needle start is)"

fun anchor_scan :: "jstr list \<Rightarrow> jstr list \<Rightarrow> nat list \<Rightarrow> nat option \<Rightarrow> anchor_match" where
  "anchor_scan hay needle [] found = (case found of None \<Rightarrow> AnchorMissing | Some i \<Rightarrow> AnchorAt i)"
| "anchor_scan hay needle (s # ss) found =
     (if \<not> row_matches hay needle s [0..<length needle] then anchor_scan hay needle ss found
      else if found \<noteq> None then AnchorAmbiguous
      else anchor_scan hay needle ss (Some s))"

definition locate_anchor :: "jstr list \<Rightarrow> jstr list \<Rightarrow> anchor_match" where
  "locate_anchor hay needle =
     (if needle = [] \<or> length hay < length needle then AnchorMissing
      else anchor_scan hay needle [0..<Suc (length hay - length needle)] None)"

record stitch_input =
  si_tail :: "jstr list"
  si_captured :: "jstr list"
  si_pane_rows :: int
  si_live_limit :: int

record stitch_result =
  sr_appended :: "jstr list"
  sr_anchored :: bool
  sr_deferred :: bool
  sr_too_short :: bool

definition empty_stitch :: stitch_result where
  "empty_stitch = \<lparr>sr_appended = [], sr_anchored = False, sr_deferred = False, sr_too_short = False\<rparr>"

definition stitch_cut :: "stitch_input \<Rightarrow> nat" where
  "stitch_cut inp = nat (max 0 (int (length (si_captured inp)) - max 1 (si_pane_rows inp)))"

definition stitch_capture :: "stitch_input \<Rightarrow> stitch_result" where
  "stitch_capture inp =
     (let cut = stitch_cut inp in
      if cut = 0 then empty_stitch\<lparr>sr_too_short := True\<rparr>
      else if si_tail inp = [] then empty_stitch\<lparr>sr_appended := take cut (si_captured inp)\<rparr>
      else (case locate_anchor (si_captured inp) (si_tail inp) of
              AnchorAmbiguous \<Rightarrow> empty_stitch\<lparr>sr_deferred := True\<rparr>
            | AnchorMissing \<Rightarrow> empty_stitch\<lparr>sr_appended := take cut (si_captured inp)\<rparr>
            | AnchorAt index \<Rightarrow>
                (let start = index + length (si_tail inp) in
                 empty_stitch\<lparr>sr_anchored := True,
                   sr_appended := (if cut \<le> start then [] else drop start (take cut (si_captured inp)))\<rparr>)))"

section \<open>The anchor is the only occurrence\<close>

definition occurs :: "jstr list \<Rightarrow> jstr list \<Rightarrow> nat \<Rightarrow> bool" where
  "occurs hay needle s \<longleftrightarrow> s + length needle \<le> length hay \<and> take (length needle) (drop s hay) = needle"

lemma row_matches_iff: "row_matches hay needle s is \<longleftrightarrow> (\<forall>i \<in> set is. hay ! (s + i) = needle ! i)"
  by (induction "is") auto

lemma row_matches_occurs:
  assumes "s + length needle \<le> length hay"
  shows "row_matches hay needle s [0..<length needle] \<longleftrightarrow> occurs hay needle s"
proof -
  have "(\<forall>i < length needle. hay ! (s + i) = needle ! i) \<longleftrightarrow> take (length needle) (drop s hay) = needle"
    using assms by (auto simp: list_eq_iff_nth_eq)
  then show ?thesis using assms by (auto simp: row_matches_iff occurs_def)
qed

lemma anchor_scan_spec:
  assumes "distinct ss" "\<forall>s \<in> set ss. s + length needle \<le> length hay"
  shows "anchor_scan hay needle ss found =
     (case (found, filter (occurs hay needle) ss) of
        (None, []) \<Rightarrow> AnchorMissing | (None, [s]) \<Rightarrow> AnchorAt s | (Some i, []) \<Rightarrow> AnchorAt i
      | _ \<Rightarrow> AnchorAmbiguous)"
  using assms
proof (induction ss arbitrary: found)
  case (Cons s ss)
  then show ?case by (cases found) (auto simp: row_matches_occurs split: list.split)
qed (simp split: option.split)

lemma filter_single:
  assumes "distinct xs"
  shows "filter P xs = [s] \<longleftrightarrow> (\<forall>t. t \<in> set xs \<and> P t \<longleftrightarrow> t = s)"
proof
  assume "filter P xs = [s]"
  then have "set (filter P xs) = {s}" by simp
  then show "\<forall>t. t \<in> set xs \<and> P t \<longleftrightarrow> t = s" by auto
next
  assume "\<forall>t. t \<in> set xs \<and> P t \<longleftrightarrow> t = s"
  then have hits: "set (filter P xs) = {s}" by auto
  have d: "distinct (filter P xs)" using assms by simp
  show "filter P xs = [s]"
  proof (cases "filter P xs")
    case (Cons a as)
    then have "as = []" using hits d by (cases as) auto
    then show ?thesis using Cons hits by simp
  qed (use hits in simp)
qed

definition starts_of :: "jstr list \<Rightarrow> jstr list \<Rightarrow> nat list" where
  "starts_of hay needle = [0..<Suc (length hay - length needle)]"

lemma starts_of_occurs:
  assumes "length needle \<le> length hay"
  shows "t \<in> set (starts_of hay needle) \<and> occurs hay needle t \<longleftrightarrow> occurs hay needle t"
  using assms by (auto simp: occurs_def starts_of_def simp del: upt_Suc)

lemma locate_anchor_hits:
  assumes "needle \<noteq> []" "length needle \<le> length hay"
  shows "locate_anchor hay needle = (case filter (occurs hay needle) (starts_of hay needle) of
           [] \<Rightarrow> AnchorMissing | [s] \<Rightarrow> AnchorAt s | _ \<Rightarrow> AnchorAmbiguous)"
proof -
  have "distinct (starts_of hay needle)" "\<forall>s \<in> set (starts_of hay needle). s + length needle \<le> length hay"
    using assms(2) by (auto simp: starts_of_def simp del: upt_Suc)
  from anchor_scan_spec[OF this, of None] show ?thesis
    using assms by (simp add: locate_anchor_def del: upt_Suc flip: starts_of_def)
qed

lemma locate_anchor_at:
  assumes "needle \<noteq> []"
  shows "locate_anchor hay needle = AnchorAt s \<longleftrightarrow> (\<forall>t. occurs hay needle t \<longleftrightarrow> t = s)"
    and "locate_anchor hay needle = AnchorMissing \<longleftrightarrow> (\<forall>t. \<not> occurs hay needle t)"
proof -
  let ?hits = "filter (occurs hay needle) (starts_of hay needle)"
  have both: "(locate_anchor hay needle = AnchorAt s \<longleftrightarrow> (\<forall>t. occurs hay needle t \<longleftrightarrow> t = s)) \<and>
    (locate_anchor hay needle = AnchorMissing \<longleftrightarrow> (\<forall>t. \<not> occurs hay needle t))"
  proof (cases "length needle \<le> length hay")
    case True
    note S = starts_of_occurs[OF True]
    have d: "distinct (starts_of hay needle)" by (simp add: starts_of_def del: upt_Suc)
    have one: "?hits = [s] \<longleftrightarrow> (\<forall>t. occurs hay needle t \<longleftrightarrow> t = s)" by (simp add: filter_single[OF d] S)
    have none: "?hits = [] \<longleftrightarrow> (\<forall>t. \<not> occurs hay needle t)" using S by (auto simp: filter_empty_conv)
    show ?thesis
      unfolding locate_anchor_hits[OF assms True] one[symmetric] none[symmetric] by (simp split: list.split)
  next
    case False
    then show ?thesis by (auto simp: locate_anchor_def occurs_def)
  qed
  then show "locate_anchor hay needle = AnchorAt s \<longleftrightarrow> (\<forall>t. occurs hay needle t \<longleftrightarrow> t = s)"
    and "locate_anchor hay needle = AnchorMissing \<longleftrightarrow> (\<forall>t. \<not> occurs hay needle t)" by blast+
qed

section \<open>The archive stays a prefix of the scrollback\<close>

text \<open>
  The scrollback of a pane is a growing stream \<open>S\<close> of rows that no longer change, followed by the
  screen. A capture taken when the stream has length \<open>length S\<close> shows its rows from \<open>lo\<close> on and then
  at most as many screen rows as the pane is high.
\<close>

definition captures :: "jstr list \<Rightarrow> nat \<Rightarrow> stitch_input \<Rightarrow> bool" where
  "captures S lo inp \<longleftrightarrow>
     (\<exists>screen. si_captured inp = drop lo S @ screen \<and> lo \<le> length S \<and>
        int (length screen) \<le> max 1 (si_pane_rows inp))"

definition archive_after :: "jstr list \<Rightarrow> stitch_result \<Rightarrow> jstr list" where
  "archive_after archive r = archive @ sr_appended r"


definition example_rows :: "nat list \<Rightarrow> jstr list" where
  "example_rows ns = map (\<lambda>n. [of_nat n]) ns"

definition example_stitch :: stitch_input where
  "example_stitch = \<lparr>si_tail = example_rows [2, 3], si_captured = example_rows [1, 2, 3, 4, 5, 6, 7],
     si_pane_rows = 2, si_live_limit = 100\<rparr>"


text \<open>
  What a stitch does when it cannot continue. It never appends a screen row; too short a
  capture and an ambiguous anchor append nothing; without an archive, or when the anchor is nowhere in
  the capture, all rows above the screen are appended and the result does not claim continuity;
  a claim of continuity means the anchor occurs exactly once in the capture.
\<close>

theorem stitch_capture_cases:
  "let r = stitch_capture inp; cut = stitch_cut inp in
   (sr_too_short r \<longleftrightarrow> cut = 0) \<and>
   (sr_too_short r \<or> sr_deferred r \<longrightarrow> sr_appended r = [] \<and> \<not> sr_anchored r) \<and>
   (sr_anchored r \<longleftrightarrow> cut \<noteq> 0 \<and> si_tail inp \<noteq> [] \<and> (\<exists>!s. occurs (si_captured inp) (si_tail inp) s)) \<and>
   (\<not> sr_anchored r \<and> \<not> sr_deferred r \<and> \<not> sr_too_short r \<longleftrightarrow>
      cut \<noteq> 0 \<and> (si_tail inp = [] \<or> (\<forall>s. \<not> occurs (si_captured inp) (si_tail inp) s))) \<and>
   (\<not> sr_anchored r \<and> \<not> sr_deferred r \<and> \<not> sr_too_short r \<longrightarrow> sr_appended r = take cut (si_captured inp)) \<and>
   (\<exists>k. sr_appended r = drop k (take cut (si_captured inp)))"
proof (cases "stitch_cut inp = 0 \<or> si_tail inp = []")
  case True
  then show ?thesis
    by (auto simp: stitch_capture_def Let_def empty_stitch_def intro: exI[of _ 0])
next
  case False
  then have tail: "si_tail inp \<noteq> []" and cut: "stitch_cut inp \<noteq> 0" by auto
  note L = locate_anchor_at[OF tail, of "si_captured inp"]
  show ?thesis
  proof (cases "locate_anchor (si_captured inp) (si_tail inp)")
    case (AnchorAt s)
    then have "\<forall>t. occurs (si_captured inp) (si_tail inp) t \<longleftrightarrow> t = s" using L(1) by blast
    then show ?thesis using tail cut AnchorAt
      by (auto simp: stitch_capture_def Let_def empty_stitch_def intro: exI[of _ "stitch_cut inp"])
  next
    case AnchorMissing
    then have "\<forall>t. \<not> occurs (si_captured inp) (si_tail inp) t" using L(2) by blast
    then show ?thesis using tail cut AnchorMissing
      by (auto simp: stitch_capture_def Let_def empty_stitch_def intro: exI[of _ 0])
  next
    case AnchorAmbiguous
    then have some: "\<exists>t. occurs (si_captured inp) (si_tail inp) t" using L(2) by simp
    have "\<not> (\<exists>!s. occurs (si_captured inp) (si_tail inp) s)"
    proof
      assume "\<exists>!s. occurs (si_captured inp) (si_tail inp) s"
      then obtain s where "\<forall>t. occurs (si_captured inp) (si_tail inp) t \<longleftrightarrow> t = s" by auto
      then have "locate_anchor (si_captured inp) (si_tail inp) = AnchorAt s"
        using locate_anchor_at(1)[OF tail] by blast
      with AnchorAmbiguous show False by simp
    qed
    with some show ?thesis using tail cut AnchorAmbiguous
      by (auto simp: stitch_capture_def Let_def empty_stitch_def intro: exI[of _ "stitch_cut inp"])
  qed
qed

lemma stitch_capture_cases_witness: "\<exists>!s. occurs (si_captured example_stitch) (si_tail example_stitch) s"
proof -
  have "sr_anchored (stitch_capture example_stitch)" by code_simp
  then show ?thesis using stitch_capture_cases [of example_stitch] unfolding Let_def by blast
qed

end
