(* ===== verification/Watchdog.thy ===== *)
theory Watchdog
  imports Prelude
begin

text \<open>
  The two watchdogs of \<open>server/src/history-watchdog.ts\<close>. Every method is a function on the state,
  which also holds the calls the watchdog makes on its \<open>fault\<close> or \<open>notify\<close> callback and the
  number of clock readings taken so far; \<open>clk i\<close> is the \<open>i\<close>-th reading of the injected clock.
\<close>

type_synonym clock = "nat \<Rightarrow> int"

section \<open>Alarms that are raised once\<close>

text \<open>
  What the two classes share: an alarm that has been raised is remembered and not raised again until
  some call clears it. \<open>alarm_credit\<close> is the number of times an alarm has been raised, plus one
  while it is armed.
\<close>

definition alarm_credit :: "('s \<Rightarrow> 'k set) \<Rightarrow> ('s \<Rightarrow> 'k list) \<Rightarrow> 'k \<Rightarrow> 's \<Rightarrow> nat" where
  "alarm_credit emitted raised k s = count_list (raised s) k + (if k \<in> emitted s then 0 else 1)"

locale alarm_once =
  fixes emitted :: "'s \<Rightarrow> 'k set" and raised :: "'s \<Rightarrow> 'k list"
    and step :: "'c \<Rightarrow> 's \<Rightarrow> 's" and clears :: "'k \<Rightarrow> 'c \<Rightarrow> bool"
  assumes credit_step:
    "alarm_credit emitted raised k (step c s) \<le> alarm_credit emitted raised k s + (if clears k c then 1 else 0)"
begin

lemma credit_run:
  "alarm_credit emitted raised k (fold step cs s) \<le>
     alarm_credit emitted raised k s + length (filter (clears k) cs)"
proof (induction cs arbitrary: s)
  case (Cons c cs)
  show ?case using Cons[of "step c s"] credit_step[of k c s] by (auto split: if_splits)
qed simp

lemma raised_run:
  assumes "raised s = []"
  shows "count_list (raised (fold step cs s)) k \<le> Suc (length (filter (clears k) cs))"
  using credit_run[of k cs s] assms by (auto simp: alarm_credit_def split: if_splits)

end

section \<open>The history watchdog\<close>

datatype screen_kind = NormalScreen | AlternateScreen

record watchdog_context =
  wc_source_epoch :: int
  wc_geometry_generation :: int
  wc_kind :: screen_kind

datatype fault_kind =
  HeartbeatTimeout | ReaderStalled | ReaderEof | ReaderDead | WorkerDead | PipeReplaced

record history_fault =
  hf_kind :: fault_kind
  hf_at :: int
  hf_missing_count :: "int option"

text \<open>The context key is the text of the three fields; the model keeps the fields.\<close>

record history_watchdog =
  hw_heartbeat_at :: int
  hw_receive_seq :: int
  hw_image :: "jstr option"
  hw_image_seq :: int
  hw_context_key :: "(int \<times> int \<times> screen_kind) option"
  hw_movement :: "int option"
  hw_emitted :: "fault_kind set"
  hw_reads :: nat
  hw_faults :: "history_fault list"

definition hw_new :: "clock \<Rightarrow> history_watchdog" where
  "hw_new clk = \<lparr>hw_heartbeat_at = clk 0, hw_receive_seq = 0, hw_image = None, hw_image_seq = 0,
     hw_context_key = None, hw_movement = None, hw_emitted = {}, hw_reads = 1, hw_faults = []\<rparr>"

definition hw_now :: "clock \<Rightarrow> history_watchdog \<Rightarrow> int \<times> history_watchdog" where
  "hw_now clk w = (clk (hw_reads w), w\<lparr>hw_reads := Suc (hw_reads w)\<rparr>)"

definition hw_emit :: "clock \<Rightarrow> fault_kind \<Rightarrow> history_watchdog \<Rightarrow> history_watchdog" where
  "hw_emit clk k w =
     (if k \<in> hw_emitted w then w
      else let (at_time, w') = hw_now clk (w\<lparr>hw_emitted := insert k (hw_emitted w)\<rparr>) in
        w'\<lparr>hw_faults := hw_faults w' @ [\<lparr>hf_kind = k, hf_at = at_time, hf_missing_count = None\<rparr>]\<rparr>)"

definition hw_heartbeat :: "clock \<Rightarrow> history_watchdog \<Rightarrow> history_watchdog" where
  "hw_heartbeat clk w =
     (let (t, w') = hw_now clk w in
      w'\<lparr>hw_heartbeat_at := t, hw_emitted := hw_emitted w' - {HeartbeatTimeout}\<rparr>)"

definition hw_receive :: "int \<Rightarrow> history_watchdog \<Rightarrow> history_watchdog" where
  "hw_receive seq w =
     (if hw_receive_seq w < seq
      then w\<lparr>hw_receive_seq := seq, hw_movement := None, hw_emitted := hw_emitted w - {ReaderStalled}\<rparr>
      else w)"

definition hw_switch_context :: "(int \<times> int \<times> screen_kind) option \<Rightarrow> history_watchdog \<Rightarrow> history_watchdog" where
  "hw_switch_context key w =
     (if key \<noteq> hw_context_key w
      then w\<lparr>hw_context_key := key, hw_image := None, hw_movement := None,
             hw_emitted := hw_emitted w - {ReaderStalled}\<rparr>
      else w)"

definition hw_note_image :: "clock \<Rightarrow> jstr \<Rightarrow> history_watchdog \<Rightarrow> history_watchdog" where
  "hw_note_image clk img w =
     (let w' = (if hw_image w \<noteq> None \<and> Some img \<noteq> hw_image w \<and> hw_image_seq w = hw_receive_seq w
                     \<and> hw_movement w = None
                then let (t, v) = hw_now clk w in v\<lparr>hw_movement := Some t\<rparr> else w)
      in w'\<lparr>hw_image := Some img, hw_image_seq := hw_receive_seq w'\<rparr>)"

definition hw_capture :: "clock \<Rightarrow> jstr \<Rightarrow> watchdog_context option \<Rightarrow> history_watchdog \<Rightarrow> history_watchdog" where
  "hw_capture clk img ctx w =
     (let key = (case ctx of None \<Rightarrow> hw_context_key w
                 | Some c \<Rightarrow> Some (wc_source_epoch c, wc_geometry_generation c, wc_kind c))
      in hw_note_image clk img (hw_switch_context key w))"

definition hw_dead :: "clock \<Rightarrow> fault_kind \<Rightarrow> history_watchdog \<Rightarrow> history_watchdog" where
  "hw_dead clk k w = hw_emit clk k w"

definition hw_check_heartbeat :: "clock \<Rightarrow> history_watchdog \<Rightarrow> history_watchdog" where
  "hw_check_heartbeat clk w =
     (let (t, w') = hw_now clk w in
      if 3000 \<le> t - hw_heartbeat_at w' then hw_emit clk HeartbeatTimeout w' else w')"

definition hw_check_movement :: "clock \<Rightarrow> history_watchdog \<Rightarrow> history_watchdog" where
  "hw_check_movement clk w =
     (case hw_movement w of None \<Rightarrow> w
      | Some since \<Rightarrow> (let (t, w') = hw_now clk w in
          if 1000 \<le> t - since then hw_emit clk ReaderStalled w' else w'))"

definition hw_tick :: "clock \<Rightarrow> history_watchdog \<Rightarrow> history_watchdog" where
  "hw_tick clk w = hw_check_movement clk (hw_check_heartbeat clk w)"

datatype hw_call =
    HwHeartbeat
  | HwReceive int
  | HwCapture jstr "watchdog_context option"
  | HwDead fault_kind
  | HwTick

fun hw_step :: "clock \<Rightarrow> hw_call \<Rightarrow> history_watchdog \<Rightarrow> history_watchdog" where
  "hw_step clk HwHeartbeat w = hw_heartbeat clk w"
| "hw_step clk (HwReceive seq) w = hw_receive seq w"
| "hw_step clk (HwCapture img ctx) w = hw_capture clk img ctx w"
| "hw_step clk (HwDead k) w = hw_dead clk k w"
| "hw_step clk HwTick w = hw_tick clk w"

definition hw_run :: "clock \<Rightarrow> hw_call list \<Rightarrow> history_watchdog" where
  "hw_run clk cs = fold (hw_step clk) cs (hw_new clk)"

definition hw_raised :: "history_watchdog \<Rightarrow> fault_kind list" where
  "hw_raised w = map hf_kind (hw_faults w)"

fun hw_clears :: "fault_kind \<Rightarrow> hw_call \<Rightarrow> bool" where
  "hw_clears HeartbeatTimeout c = (c = HwHeartbeat)"
| "hw_clears ReaderStalled c = (case c of HwReceive _ \<Rightarrow> True | HwCapture _ (Some _) \<Rightarrow> True | _ \<Rightarrow> False)"
| "hw_clears _ c = False"

named_theorems hw_defs
declare hw_now_def [hw_defs] hw_emit_def [hw_defs] hw_heartbeat_def [hw_defs] hw_receive_def [hw_defs]
  hw_switch_context_def [hw_defs] hw_note_image_def [hw_defs] hw_capture_def [hw_defs] hw_dead_def [hw_defs]
  hw_check_heartbeat_def [hw_defs] hw_check_movement_def [hw_defs] hw_tick_def [hw_defs]

abbreviation hw_credit :: "fault_kind \<Rightarrow> history_watchdog \<Rightarrow> nat" where
  "hw_credit \<equiv> alarm_credit hw_emitted hw_raised"

lemma hw_credit_cong: "hw_emitted w = hw_emitted v \<Longrightarrow> hw_faults w = hw_faults v \<Longrightarrow> hw_credit k w = hw_credit k v"
  by (simp add: alarm_credit_def hw_raised_def)

lemma hw_credit_emit: "hw_credit k (hw_emit clk j w) = hw_credit k w"
  by (simp add: alarm_credit_def hw_raised_def hw_emit_def hw_now_def)

lemma hw_credit_now: "hw_credit k (snd (hw_now clk w)) = hw_credit k w"
  by (simp add: hw_now_def alarm_credit_def hw_raised_def)

lemma hw_credit_tick: "hw_credit k (hw_tick clk w) = hw_credit k w"
proof -
  have "hw_credit k (hw_check_heartbeat clk w) = hw_credit k w"
    using hw_credit_now[of k clk w] by (simp add: hw_check_heartbeat_def hw_credit_emit case_prod_beta Let_def)
  moreover have "hw_credit k (hw_check_movement clk v) = hw_credit k v" for v
    using hw_credit_now[of k clk v] by (simp add: hw_check_movement_def hw_credit_emit case_prod_beta Let_def split: option.split)
  ultimately show ?thesis by (simp add: hw_tick_def)
qed

lemma hw_credit_image: "hw_credit k (hw_note_image clk img w) = hw_credit k w"
  by (rule hw_credit_cong) (simp_all add: hw_note_image_def hw_now_def Let_def)

lemma hw_credit_switch:
  "hw_credit k (hw_switch_context key w) \<le> hw_credit k w + (if k = ReaderStalled \<and> key \<noteq> hw_context_key w then 1 else 0)"
  by (simp add: hw_switch_context_def alarm_credit_def hw_raised_def)

lemma hw_credit_step: "hw_credit k (hw_step clk c w) \<le> hw_credit k w + (if hw_clears k c then 1 else 0)"
proof (cases c)
  case HwHeartbeat
  then show ?thesis by (cases k) (simp_all add: alarm_credit_def hw_raised_def hw_heartbeat_def hw_now_def)
next
  case (HwReceive seq)
  then show ?thesis by (cases k) (simp_all add: alarm_credit_def hw_raised_def hw_receive_def)
next
  case (HwCapture img ctx)
  then show ?thesis
    using hw_credit_switch[of k "hw_context_key w" w]
      hw_credit_switch[of k "map_option (\<lambda>c. (wc_source_epoch c, wc_geometry_generation c, wc_kind c)) ctx" w]
    by (cases ctx; cases k) (auto simp: hw_capture_def Let_def hw_credit_image split: if_splits)
next
  case (HwDead j)
  then show ?thesis by (simp add: hw_dead_def hw_credit_emit)
qed (simp add: hw_credit_tick)

interpretation hwa: alarm_once hw_emitted hw_raised "hw_step clk" hw_clears for clk
  by unfold_locales (rule hw_credit_step)

text \<open>
  The history watchdog reports each kind of fault once per episode. However it is called, the
  terminal faults (end of file, dead reader, dead worker, replaced pipe) are reported at most once,
  a heartbeat timeout at most once more than there were heartbeats, a stalled reader at most once
  more than there were received bytes and captures naming a context; no report ever claims a
  number of missing rows.
\<close>

theorem history_watchdog_reports_once:
  "count_list (hw_raised (hw_run clk cs)) k \<le> Suc (length (filter (hw_clears k) cs)) \<and>
   hf_missing_count ` set (hw_faults (hw_run clk cs)) \<subseteq> {None}"
proof
  show "count_list (hw_raised (hw_run clk cs)) k \<le> Suc (length (filter (hw_clears k) cs))"
    unfolding hw_run_def by (rule hwa.raised_run) (simp add: hw_raised_def hw_new_def)
  have step: "hf_missing_count ` set (hw_faults (hw_step clk c w)) \<subseteq> {None}"
    if "hf_missing_count ` set (hw_faults w) \<subseteq> {None}" for c w
    using that by (cases c) (auto simp: hw_defs Let_def split: option.split)
  have "hf_missing_count ` set (hw_faults w) \<subseteq> {None} \<Longrightarrow>
    hf_missing_count ` set (hw_faults (fold (hw_step clk) cs w)) \<subseteq> {None}" for w
    by (induction cs arbitrary: w) (simp_all add: step)
  then show "hf_missing_count ` set (hw_faults (hw_run clk cs)) \<subseteq> {None}"
    unfolding hw_run_def by (simp add: hw_new_def)
qed

text \<open>
  What silence means: a pane whose captures show the same image is never reported as stalled, however
  long nothing is received.
\<close>

fun hw_shows :: "jstr \<Rightarrow> hw_call \<Rightarrow> bool" where
  "hw_shows img (HwCapture img' _) = (img' = img)"
| "hw_shows img (HwDead k) = (k \<noteq> ReaderStalled)"
| "hw_shows img _ = True"

definition hw_still :: "jstr \<Rightarrow> history_watchdog \<Rightarrow> bool" where
  "hw_still img w \<longleftrightarrow> hw_movement w = None \<and> hw_image w \<in> {None, Some img} \<and> ReaderStalled \<notin> set (hw_raised w)"

lemma hw_still_step:
  assumes "hw_still img w" "hw_shows img c"
  shows "hw_still img (hw_step clk c w)"
proof (cases c)
  case (HwCapture img' ctx)
  then show ?thesis using assms
    by (cases ctx) (auto simp: hw_still_def hw_defs hw_raised_def Let_def)
next
  case HwTick
  then show ?thesis using assms by (auto simp: hw_still_def hw_defs hw_raised_def Let_def)
qed (use assms in \<open>auto simp: hw_still_def hw_defs hw_raised_def Let_def\<close>)

text \<open>
  The reader is never reported stalled on silence alone. As long as every capture shows the
  same image, no sequence of calls (heartbeats, received bytes, changes of context, ticks, reports of
  other faults), at whatever times, makes the watchdog report a stalled reader.
\<close>

theorem unchanged_pane_never_stalled:
  assumes "\<forall>c \<in> set cs. hw_shows img c"
  shows "ReaderStalled \<notin> set (hw_raised (hw_run clk cs))"
proof -
  have "hw_still img w \<Longrightarrow> hw_still img (fold (hw_step clk) cs w)" for w
    using assms by (induction cs arbitrary: w) (simp_all add: hw_still_step)
  moreover have "hw_still img (hw_new clk)" by (simp add: hw_still_def hw_new_def hw_raised_def)
  ultimately show ?thesis by (simp add: hw_run_def hw_still_def)
qed

lemma unchanged_pane_never_stalled_witness:
  "ReaderStalled \<notin> set (hw_raised (hw_run (\<lambda>i. 5000 * int i)
     [HwReceive 7, HwCapture (js ''a'') None, HwTick, HwCapture (js ''a'') None, HwTick]))"
  by (rule unchanged_pane_never_stalled [of _ "js ''a''"]) simp

section \<open>The stream watchdog\<close>

datatype watch_reason = AckTimeout | StalledInput | SequenceFault

record stream_watchdog =
  sw_ack_pending_at :: "int option"
  sw_movement_at :: "int option"
  sw_received :: int
  sw_source :: "int option"
  sw_sent :: int
  sw_acked :: int
  sw_emitted :: "watch_reason set"
  sw_reads :: nat
  sw_notified :: "watch_reason list"

definition sw_new :: stream_watchdog where
  "sw_new = \<lparr>sw_ack_pending_at = None, sw_movement_at = None, sw_received = 0, sw_source = None,
     sw_sent = 0, sw_acked = 0, sw_emitted = {}, sw_reads = 0, sw_notified = []\<rparr>"

definition sw_now :: "clock \<Rightarrow> stream_watchdog \<Rightarrow> int \<times> stream_watchdog" where
  "sw_now clk w = (clk (sw_reads w), w\<lparr>sw_reads := Suc (sw_reads w)\<rparr>)"

definition sw_emit :: "watch_reason \<Rightarrow> stream_watchdog \<Rightarrow> stream_watchdog" where
  "sw_emit r w =
     (if r \<in> sw_emitted w then w
      else w\<lparr>sw_emitted := insert r (sw_emitted w), sw_notified := sw_notified w @ [r]\<rparr>)"

definition sw_reset :: "stream_watchdog \<Rightarrow> stream_watchdog" where
  "sw_reset w = w\<lparr>sw_source := None, sw_movement_at := None, sw_ack_pending_at := None,
     sw_acked := 0, sw_sent := 0, sw_received := 0, sw_emitted := {}\<rparr>"

definition sw_receive :: "jnum \<Rightarrow> stream_watchdog \<Rightarrow> string + stream_watchdog" where
  "sw_receive n w =
     (if \<not> is_safe_integer n \<or> num_int n < sw_received w then Inl ''receive counter''
      else let w' = (if sw_received w < num_int n
                     then w\<lparr>sw_movement_at := None, sw_emitted := sw_emitted w - {StalledInput}\<rparr> else w)
        in Inr (w'\<lparr>sw_received := num_int n\<rparr>))"

definition sw_source_progress :: "clock \<Rightarrow> jnum \<Rightarrow> stream_watchdog \<Rightarrow> string + stream_watchdog" where
  "sw_source_progress clk n w =
     (if \<not> safe_count 0 n then Inl ''source counter''
      else case sw_source w of
        None \<Rightarrow> Inr (w\<lparr>sw_source := Some (num_int n)\<rparr>)
      | Some s \<Rightarrow>
          if num_int n < s then Inr (sw_emit SequenceFault w)
          else let w' = (if s < num_int n \<and> sw_movement_at w = None
                         then let (t, v) = sw_now clk w in v\<lparr>sw_movement_at := Some t\<rparr> else w)
            in Inr (w'\<lparr>sw_source := Some (num_int n)\<rparr>))"

definition sw_submitted :: "clock \<Rightarrow> jnum \<Rightarrow> stream_watchdog \<Rightarrow> stream_watchdog" where
  "sw_submitted clk n w =
     (if \<not> is_safe_integer n \<or> num_int n \<noteq> sw_sent w + 1 then sw_emit SequenceFault w
      else let w' = w\<lparr>sw_sent := num_int n\<rparr> in
        if sw_ack_pending_at w' = None then let (t, v) = sw_now clk w' in v\<lparr>sw_ack_pending_at := Some t\<rparr> else w')"

definition sw_ack :: "clock \<Rightarrow> jnum \<Rightarrow> stream_watchdog \<Rightarrow> stream_watchdog" where
  "sw_ack clk n w =
     (if \<not> is_safe_integer n \<or> num_int n < sw_acked w \<or> sw_sent w < num_int n then sw_emit SequenceFault w
      else if sw_acked w < num_int n
      then let w1 = w\<lparr>sw_acked := num_int n\<rparr>;
               w2 = (if sw_acked w1 = sw_sent w1 then w1\<lparr>sw_ack_pending_at := None\<rparr>
                     else let (t, v) = sw_now clk w1 in v\<lparr>sw_ack_pending_at := Some t\<rparr>)
           in w2\<lparr>sw_emitted := sw_emitted w2 - {AckTimeout}\<rparr>
      else w)"

definition sw_tick :: "clock \<Rightarrow> stream_watchdog \<Rightarrow> stream_watchdog" where
  "sw_tick clk w =
     (let (now, w0) = sw_now clk w;
          w1 = (case sw_ack_pending_at w0 of
                  Some t \<Rightarrow> if 500 \<le> now - t then sw_emit AckTimeout w0 else w0 | None \<Rightarrow> w0)
      in case sw_movement_at w1 of
           Some t \<Rightarrow> if 500 \<le> now - t then sw_emit StalledInput w1 else w1 | None \<Rightarrow> w1)"

datatype sw_call =
    SwReset
  | SwReceive jnum
  | SwSource jnum
  | SwSubmitted jnum
  | SwAck jnum
  | SwTick

text \<open>A call that throws leaves the watchdog as it was.\<close>

fun sw_step :: "clock \<Rightarrow> sw_call \<Rightarrow> stream_watchdog \<Rightarrow> stream_watchdog" where
  "sw_step clk SwReset w = sw_reset w"
| "sw_step clk (SwReceive n) w = (case sw_receive n w of Inl e \<Rightarrow> w | Inr w' \<Rightarrow> w')"
| "sw_step clk (SwSource n) w = (case sw_source_progress clk n w of Inl e \<Rightarrow> w | Inr w' \<Rightarrow> w')"
| "sw_step clk (SwSubmitted n) w = sw_submitted clk n w"
| "sw_step clk (SwAck n) w = sw_ack clk n w"
| "sw_step clk SwTick w = sw_tick clk w"

definition sw_run :: "clock \<Rightarrow> sw_call list \<Rightarrow> stream_watchdog" where
  "sw_run clk cs = fold (sw_step clk) cs sw_new"

named_theorems sw_defs
declare sw_now_def [sw_defs] sw_emit_def [sw_defs] sw_reset_def [sw_defs] sw_receive_def [sw_defs]
  sw_source_progress_def [sw_defs] sw_submitted_def [sw_defs] sw_ack_def [sw_defs] sw_tick_def [sw_defs]

text \<open>The invariant of the counters and the two clocks.\<close>

definition sw_inv :: "stream_watchdog \<Rightarrow> bool" where
  "sw_inv w \<longleftrightarrow>
     0 \<le> sw_acked w \<and> sw_acked w \<le> sw_sent w \<and> sw_sent w \<le> max_safe \<and>
     0 \<le> sw_received w \<and> sw_received w \<le> max_safe \<and>
     (sw_ack_pending_at w = None \<longleftrightarrow> sw_acked w = sw_sent w) \<and>
     (sw_movement_at w \<noteq> None \<longrightarrow> sw_source w \<noteq> None) \<and>
     (AckTimeout \<in> sw_emitted w \<longrightarrow> sw_ack_pending_at w \<noteq> None) \<and>
     (StalledInput \<in> sw_emitted w \<longrightarrow> sw_movement_at w \<noteq> None) \<and>
     sw_emitted w \<subseteq> set (sw_notified w)"

lemma sw_inv_step:
  assumes "sw_inv w"
  shows "sw_inv (sw_step clk c w)"
proof (cases c)
  case (SwReceive n)
  then show ?thesis using assms is_safe_integer_bounds[of n]
    by (auto simp: sw_inv_def sw_receive_def Let_def)
next
  case (SwSource n)
  then show ?thesis using assms
    by (auto simp: sw_inv_def sw_source_progress_def sw_emit_def sw_now_def Let_def split: option.split)
next
  case (SwSubmitted n)
  then show ?thesis using assms is_safe_integer_bounds[of n]
    by (auto simp: sw_inv_def sw_submitted_def sw_emit_def sw_now_def Let_def)
next
  case (SwAck n)
  then show ?thesis using assms is_safe_integer_bounds[of n]
    by (auto simp: sw_inv_def sw_ack_def sw_emit_def sw_now_def Let_def)
next
  case SwTick
  then show ?thesis using assms
    by (auto simp: sw_inv_def sw_tick_def sw_emit_def sw_now_def Let_def split: option.split)
qed (use assms in \<open>auto simp: sw_inv_def sw_reset_def max_safe_def\<close>)

lemma sw_inv_run: "sw_inv (sw_run clk cs)"
proof -
  have "sw_inv w \<Longrightarrow> sw_inv (fold (sw_step clk) cs w)" for w
    by (induction cs arbitrary: w) (simp_all add: sw_inv_step)
  moreover have "sw_inv sw_new" by (simp add: sw_inv_def sw_new_def max_safe_def)
  ultimately show ?thesis by (simp add: sw_run_def)
qed

fun sw_clears :: "watch_reason \<Rightarrow> sw_call \<Rightarrow> bool" where
  "sw_clears AckTimeout c = (case c of SwAck _ \<Rightarrow> True | SwReset \<Rightarrow> True | _ \<Rightarrow> False)"
| "sw_clears StalledInput c = (case c of SwReceive _ \<Rightarrow> True | SwReset \<Rightarrow> True | _ \<Rightarrow> False)"
| "sw_clears SequenceFault c = (c = SwReset)"

abbreviation sw_credit :: "watch_reason \<Rightarrow> stream_watchdog \<Rightarrow> nat" where
  "sw_credit \<equiv> alarm_credit sw_emitted sw_notified"

lemma sw_credit_emit: "sw_credit r (sw_emit q w) = sw_credit r w"
  by (simp add: alarm_credit_def sw_emit_def)

lemma sw_credit_same:
  "sw_emitted v = sw_emitted w \<Longrightarrow> sw_notified v = sw_notified w \<Longrightarrow> sw_credit r v = sw_credit r w"
  by (simp add: alarm_credit_def)

lemma sw_credit_step: "sw_credit r (sw_step clk c w) \<le> sw_credit r w + (if sw_clears r c then 1 else 0)"
proof (cases c)
  case SwReset
  then show ?thesis by (cases r) (simp_all add: alarm_credit_def sw_reset_def)
next
  case (SwReceive n)
  then show ?thesis by (cases r) (simp_all add: alarm_credit_def sw_receive_def Let_def)
next
  case (SwSource n)
  have "sw_credit r (sw_step clk c w) = sw_credit r w"
    unfolding SwSource by (auto simp: sw_source_progress_def sw_credit_emit Let_def sw_now_def split: option.split
        intro!: sw_credit_same)
  then show ?thesis by simp
next
  case (SwSubmitted n)
  have "sw_credit r (sw_step clk c w) = sw_credit r w"
    unfolding SwSubmitted by (auto simp: sw_submitted_def sw_credit_emit Let_def sw_now_def intro!: sw_credit_same)
  then show ?thesis by simp
next
  case (SwAck n)
  then show ?thesis
    by (cases r) (simp_all add: sw_ack_def sw_credit_emit Let_def sw_now_def, simp_all add: alarm_credit_def)
next
  case SwTick
  have "sw_credit r (sw_tick clk w) = sw_credit r w"
    by (auto simp: sw_tick_def sw_credit_emit Let_def sw_now_def intro!: sw_credit_same split: option.split)
  then show ?thesis using SwTick by simp
qed

interpretation swa: alarm_once sw_emitted sw_notified "sw_step clk" sw_clears for clk
  by unfold_locales (rule sw_credit_step)


lemma sw_pending_step:
  assumes "sw_ack_pending_at w = Some t" "\<not> sw_clears AckTimeout c"
  shows "sw_ack_pending_at (sw_step clk c w) = Some t"
  using assms by (cases c) (auto simp: sw_defs Let_def split: option.split)

lemma sw_pending_run:
  assumes "\<forall>c \<in> set cs. \<not> sw_clears AckTimeout c" "sw_ack_pending_at w = Some t"
  shows "sw_ack_pending_at (fold (sw_step clk) cs w) = Some t"
  using assms by (induction cs arbitrary: w) (simp_all add: sw_pending_step)

lemma sw_tick_reports:
  assumes "sw_ack_pending_at w = Some t" "t + 500 \<le> clk (sw_reads w)"
  shows "AckTimeout \<in> sw_emitted (sw_tick clk w)"
  using assms by (auto simp: sw_tick_def sw_now_def sw_emit_def Let_def split: option.split)



text \<open>
  Every timing alarm is justified. A timeout is raised only by a tick that reads at least
  500 ms after the clock was started, while a submitted input is unacknowledged; a stall only by a
  tick that reads at least 500 ms after the source was first seen to advance without received bytes.
  In particular silence alone raises nothing.
\<close>

theorem stream_alarm_justified:
  assumes "r \<noteq> SequenceFault" "r \<notin> sw_emitted (sw_run clk cs)" "r \<in> sw_emitted (sw_run clk (cs @ [c]))"
  shows "let w = sw_run clk cs in c = SwTick \<and>
    (case r of
       AckTimeout \<Rightarrow> sw_acked w < sw_sent w \<and> (\<exists>t. sw_ack_pending_at w = Some t \<and> t + 500 \<le> clk (sw_reads w))
     | StalledInput \<Rightarrow> sw_source w \<noteq> None \<and> (\<exists>t. sw_movement_at w = Some t \<and> t + 500 \<le> clk (sw_reads w))
     | SequenceFault \<Rightarrow> False)"
proof -
  define w where "w = sw_run clk cs"
  have inv: "sw_inv w" by (simp add: w_def sw_inv_run)
  have new: "r \<notin> sw_emitted w" "r \<in> sw_emitted (sw_step clk c w)"
    using assms(2,3) by (simp_all add: w_def sw_run_def)
  have tick: "c = SwTick"
    using assms(1) new
    by (cases c) (auto simp: sw_defs Let_def split: if_splits option.splits)
  have sent: "sw_ack_pending_at w = Some t \<Longrightarrow> sw_acked w < sw_sent w" for t
    using inv by (auto simp: sw_inv_def less_le)
  have src: "sw_movement_at w = Some t \<Longrightarrow> sw_source w \<noteq> None" for t
    using inv by (auto simp: sw_inv_def)
  show ?thesis
    unfolding Let_def w_def[symmetric]
    using assms(1) new sent src unfolding tick
    by (cases r) (auto simp: sw_tick_def sw_now_def sw_emit_def Let_def split: if_splits option.splits)
qed

lemma stream_alarm_justified_witness:
  "0 < sw_sent (sw_run (\<lambda>i. 500 * int i) [SwSubmitted (int_num 1)])"
proof -
  have "AckTimeout \<notin> sw_emitted (sw_run (\<lambda>i. 500 * int i) [SwSubmitted (int_num 1)])"
    by (simp add: sw_run_def sw_new_def sw_submitted_def sw_now_def max_safe_def)
  moreover have "AckTimeout \<in> sw_emitted (sw_run (\<lambda>i. 500 * int i) ([SwSubmitted (int_num 1)] @ [SwTick]))"
    by (simp add: sw_run_def sw_new_def sw_submitted_def sw_tick_def sw_now_def sw_emit_def max_safe_def)
  ultimately show ?thesis
    using stream_alarm_justified [of AckTimeout "\<lambda>i. 500 * int i" "[SwSubmitted (int_num 1)]" SwTick]
    by (simp add: sw_run_def sw_new_def sw_submitted_def sw_now_def max_safe_def)
qed

end
