(* ===== verification/Input_Router.thy ===== *)
theory Input_Router
  imports Text_Codec
begin

text \<open>
  The input boundary of \<open>server/src/input-router.ts\<close>. The host's lease lookup, its tmux sender and its
  receipt store are parameters: each is a function of the host's state that returns a value or throws.
  \<open>route\<close> returns the outcome, the host's state afterwards and the calls it made, in order.
\<close>

section \<open>Operations and metadata\<close>

record pane_input_lease =
  pl_session_id :: jstr
  pl_pane_id :: jstr
  pl_generation :: jstr

datatype input_kind = TextInput | ControlInput | PasteInput | SubmitInput

record pane_input_operation =
  op_event_id :: jstr
  op_client_sequence :: jnum
  op_lease :: pane_input_lease
  op_kind :: input_kind
  op_data :: jstr

datatype input_delivery_status = Received | SentToTmux | DeliveryUnknown | RejectedStaleLease | Duplicate

record input_metadata =
  im_event_id :: jstr
  im_client_sequence :: jnum
  im_session_id :: jstr
  im_pane_id :: jstr
  im_generation :: jstr
  im_kind :: input_kind
  im_byte_length :: nat
  im_status :: input_delivery_status

record 's router_dependencies =
  rd_current_lease :: "jstr \<Rightarrow> ('s, pane_input_lease option) host_call"
  rd_send_exact_pane :: "jstr \<Rightarrow> jstr \<Rightarrow> ('s, unit) host_call"
  rd_claim :: "input_metadata \<Rightarrow> ('s, bool) host_call"
  rd_update :: "input_metadata \<Rightarrow> ('s, unit) host_call"
  rd_audit_gap :: "(input_metadata \<Rightarrow> string \<Rightarrow> ('s, unit) host_call) option"

definition same_lease :: "pane_input_lease \<Rightarrow> pane_input_lease \<Rightarrow> bool" where
  "same_lease a b \<longleftrightarrow> pl_session_id a = pl_session_id b \<and> pl_pane_id a = pl_pane_id b \<and>
     pl_generation a = pl_generation b"

definition is_digit :: "cunit \<Rightarrow> bool" where
  "is_digit u \<longleftrightarrow> 48 \<le> u \<and> u \<le> 57"

text \<open>The test \<open>^%\d+$\<close>.\<close>

fun exact_pane_id :: "jstr \<Rightarrow> bool" where
  "exact_pane_id [] = False"
| "exact_pane_id (u # us) = (u = 37 \<and> us \<noteq> [] \<and> list_all is_digit us)"

definition assert_operation :: "pane_input_operation \<Rightarrow> string option" where
  "assert_operation op =
     (if op_event_id op = [] then Some ''input eventId is required''
      else if \<not> safe_count 0 (op_client_sequence op)
      then Some ''input clientSequence must be a non-negative safe integer''
      else if \<not> exact_pane_id (pl_pane_id (op_lease op))
      then Some ''input lease paneId must be an exact tmux pane ID''
      else None)"

definition metadata_of :: "pane_input_operation \<Rightarrow> input_delivery_status \<Rightarrow> input_metadata" where
  "metadata_of op status =
     \<lparr>im_event_id = op_event_id op, im_client_sequence = op_client_sequence op,
      im_session_id = pl_session_id (op_lease op), im_pane_id = pl_pane_id (op_lease op),
      im_generation = pl_generation (op_lease op), im_kind = op_kind op,
      im_byte_length = length (utf8_encode (op_data op)), im_status = status\<rparr>"

lemma metadata_of_inject [simp]: "metadata_of op st = metadata_of op st' \<longleftrightarrow> st = st'"
  by (simp add: metadata_of_def)

section \<open>Routing\<close>

datatype router_call =
    CurrentLease jstr
  | Claim input_metadata
  | SendExactPane jstr jstr
  | Update input_metadata
  | AuditGap input_metadata

type_synonym 's route_outcome = "(string + input_metadata) \<times> 's \<times> router_call list"

text \<open>The receipt update after a send: a failing update is audited and never repeats the send.\<close>

definition record_receipt ::
  "'s router_dependencies \<Rightarrow> input_metadata \<Rightarrow> 's \<Rightarrow> router_call list \<Rightarrow> 's route_outcome" where
  "record_receipt deps m s cs =
     (case rd_update deps m s of
        (Inr _, s1) \<Rightarrow> (Inr m, s1, cs @ [Update m])
      | (Inl e, s1) \<Rightarrow>
          (case rd_audit_gap deps of
             None \<Rightarrow> (Inr m, s1, cs @ [Update m])
           | Some audit \<Rightarrow>
               (case audit m e s1 of
                  (Inl e', s2) \<Rightarrow> (Inl e', s2, cs @ [Update m, AuditGap m])
                | (Inr _, s2) \<Rightarrow> (Inr m, s2, cs @ [Update m, AuditGap m]))))"

definition deliver :: "'s router_dependencies \<Rightarrow> pane_input_operation \<Rightarrow> 's \<Rightarrow> router_call list \<Rightarrow> 's route_outcome" where
  "deliver deps op s cs =
     (let pane = pl_pane_id (op_lease op);
          (sent, s1) = rd_send_exact_pane deps pane (op_data op) s;
          cs1 = cs @ [SendExactPane pane (op_data op)]
      in case sent of
           Inl e \<Rightarrow> record_receipt deps (metadata_of op DeliveryUnknown) s1 cs1
         | Inr _ \<Rightarrow> record_receipt deps (metadata_of op SentToTmux) s1 cs1)"

definition claim_and_deliver :: "'s router_dependencies \<Rightarrow> pane_input_operation \<Rightarrow> 's \<Rightarrow> router_call list \<Rightarrow> 's route_outcome" where
  "claim_and_deliver deps op s cs =
     (let received = metadata_of op Received; (claimed, s1) = rd_claim deps received s;
          cs1 = cs @ [Claim received]
      in case claimed of
           Inl e \<Rightarrow> (Inl e, s1, cs1)
         | Inr False \<Rightarrow> (Inr (metadata_of op Duplicate), s1, cs1)
         | Inr True \<Rightarrow> deliver deps op s1 cs1)"

definition route :: "'s router_dependencies \<Rightarrow> pane_input_operation \<Rightarrow> 's \<Rightarrow> 's route_outcome" where
  "route deps op s =
     (case assert_operation op of
        Some e \<Rightarrow> (Inl e, s, [])
      | None \<Rightarrow>
          (let pane = pl_pane_id (op_lease op); (current, s1) = rd_current_lease deps pane s; cs = [CurrentLease pane]
           in case current of
                Inl e \<Rightarrow> (Inl e, s1, cs)
              | Inr None \<Rightarrow> (Inr (metadata_of op RejectedStaleLease), s1, cs)
              | Inr (Some lease) \<Rightarrow>
                  if \<not> same_lease lease (op_lease op)
                  then (Inr (metadata_of op RejectedStaleLease), s1, cs)
                  else claim_and_deliver deps op s1 cs))"

definition sends :: "router_call list \<Rightarrow> (jstr \<times> jstr) list" where
  "sends cs = concat (map (\<lambda>c. case c of SendExactPane p d \<Rightarrow> [(p, d)] | _ \<Rightarrow> []) cs)"

lemma sends_append [simp]: "sends (xs @ ys) = sends xs @ sends ys"
  by (simp add: sends_def)

lemma sends_simps [simp]:
  "sends [] = []" "sends (SendExactPane p d # cs) = (p, d) # sends cs" "sends (Claim m # cs) = sends cs"
  "sends (CurrentLease l # cs) = sends cs" "sends (Update m # cs) = sends cs" "sends (AuditGap m # cs) = sends cs"
  by (simp_all add: sends_def)

section \<open>What one call does\<close>

lemma record_receipt_log:
  assumes "record_receipt deps m s cs = (res, s', cs')"
  shows "sends cs' = sends cs \<and> (res = Inr m \<or> (\<exists>e. res = Inl e))"
  using assms by (auto simp: record_receipt_def split: prod.splits sum.splits option.splits)

abbreviation send_of :: "pane_input_operation \<Rightarrow> jstr \<times> jstr" where
  "send_of op \<equiv> (pl_pane_id (op_lease op), op_data op)"

lemma deliver_log:
  assumes "deliver deps op s cs = (res, s', cs')"
  shows "sends cs' = sends cs @ [send_of op] \<and>
    ((\<exists>e. res = Inl e) \<or>
     res = Inr (metadata_of op (if isl (fst (rd_send_exact_pane deps (pl_pane_id (op_lease op)) (op_data op) s))
                                then DeliveryUnknown else SentToTmux)))"
proof -
  obtain sent s1 where send: "rd_send_exact_pane deps (pl_pane_id (op_lease op)) (op_data op) s = (sent, s1)"
    by fastforce
  have "record_receipt deps (metadata_of op (if isl sent then DeliveryUnknown else SentToTmux)) s1
      (cs @ [SendExactPane (pl_pane_id (op_lease op)) (op_data op)]) = (res, s', cs')"
    using assms send by (cases sent) (simp_all add: deliver_def)
  from record_receipt_log[OF this] show ?thesis using send by auto
qed

text \<open>A call that sends: the guards it passed and what it returns.\<close>

definition route_admitted :: "'s router_dependencies \<Rightarrow> pane_input_operation \<Rightarrow> 's \<Rightarrow> bool" where
  "route_admitted deps op s \<longleftrightarrow>
     assert_operation op = None \<and>
     (let (current, s1) = rd_current_lease deps (pl_pane_id (op_lease op)) s in
      current = Inr (Some (op_lease op)) \<and> fst (rd_claim deps (metadata_of op Received) s1) = Inr True)"

lemma same_lease_iff: "same_lease a b \<longleftrightarrow> a = (b :: pane_input_lease)"
  by (auto simp: same_lease_def)

lemma route_log:
  assumes "route deps op s = (res, s', cs)"
  shows "sends cs = (if route_admitted deps op s then [send_of op] else []) \<and>
    ((\<exists>e. res = Inl e) \<or>
     (\<exists>st. res = Inr (metadata_of op st) \<and> (st \<in> {SentToTmux, DeliveryUnknown} \<longleftrightarrow> route_admitted deps op s) \<and> st \<noteq> Received))"
proof (cases "assert_operation op")
  case (Some e)
  then show ?thesis using assms by (auto simp: route_def route_admitted_def)
next
  case None
  obtain current s1 where cur: "rd_current_lease deps (pl_pane_id (op_lease op)) s = (current, s1)" by fastforce
  obtain claimed s2 where cl: "rd_claim deps (metadata_of op Received) s1 = (claimed, s2)" by fastforce
  let ?cs = "[CurrentLease (pl_pane_id (op_lease op)), Claim (metadata_of op Received)]"
  consider (send) "current = Inr (Some (op_lease op))" "claimed = Inr True"
    | (rest) "\<not> (current = Inr (Some (op_lease op)) \<and> claimed = Inr True)" by blast
  then show ?thesis
  proof cases
    case send
    then have "deliver deps op s2 ?cs = (res, s', cs)"
      using assms None cur cl by (simp add: route_def claim_and_deliver_def same_lease_iff)
    from deliver_log[OF this] show ?thesis using send None cur cl by (auto simp: route_admitted_def split: if_splits)
  next
    case rest
    then have "\<not> route_admitted deps op s" using cur cl by (auto simp: route_admitted_def)
    then show ?thesis using assms None cur cl rest
      by (auto simp: route_def claim_and_deliver_def same_lease_iff Let_def split: sum.splits option.splits if_splits bool.splits)
  qed
qed


section \<open>No event is delivered twice\<close>

fun route_all :: "'s router_dependencies \<Rightarrow> pane_input_operation list \<Rightarrow> 's \<Rightarrow> (pane_input_operation \<times> router_call list) list" where
  "route_all deps [] s = []"
| "route_all deps (op # ops) s =
     (let (res, s', cs) = route deps op s in (op, cs) # route_all deps ops s')"

text \<open>
  What the router asks of its host: a claim that answers yes was the first for its event, an answered
  claim marks the event as seen, and no other call forgets one.
\<close>

definition keeps_seen :: "('s \<Rightarrow> jstr set) \<Rightarrow> ('s, 'a) host_call \<Rightarrow> bool" where
  "keeps_seen seen f \<longleftrightarrow> (\<forall>s. seen s \<subseteq> seen (snd (f s)))"

definition first_writer :: "'s router_dependencies \<Rightarrow> ('s \<Rightarrow> jstr set) \<Rightarrow> bool" where
  "first_writer deps seen \<longleftrightarrow>
     (\<forall>p. keeps_seen seen (rd_current_lease deps p)) \<and> (\<forall>p d. keeps_seen seen (rd_send_exact_pane deps p d)) \<and>
     (\<forall>m. keeps_seen seen (rd_claim deps m)) \<and> (\<forall>m. keeps_seen seen (rd_update deps m)) \<and>
     (\<forall>audit m e. rd_audit_gap deps = Some audit \<longrightarrow> keeps_seen seen (audit m e)) \<and>
     (\<forall>m s. fst (rd_claim deps m s) = Inr True \<longrightarrow>
        im_event_id m \<notin> seen s \<and> im_event_id m \<in> seen (snd (rd_claim deps m s)))"

lemma first_writer_keeps:
  assumes "first_writer deps seen"
  shows "seen s \<subseteq> seen (snd (rd_current_lease deps p s))"
    "seen s \<subseteq> seen (snd (rd_send_exact_pane deps p d s))"
    "seen s \<subseteq> seen (snd (rd_claim deps m s))" "seen s \<subseteq> seen (snd (rd_update deps m s))"
    "rd_audit_gap deps = Some audit \<Longrightarrow> seen s \<subseteq> seen (snd (audit m e s))"
  using assms by (simp_all add: first_writer_def keeps_seen_def)

lemma record_receipt_keeps:
  assumes "first_writer deps seen"
  shows "seen s \<subseteq> seen (fst (snd (record_receipt deps m s cs)))"
proof -
  obtain r s1 where u: "rd_update deps m s = (r, s1)" by fastforce
  have s1: "seen s \<subseteq> seen s1" using first_writer_keeps(4)[OF assms, of s m] u by simp
  show ?thesis
  proof (cases r)
    case (Inl e)
    show ?thesis
    proof (cases "rd_audit_gap deps")
      case (Some audit)
      then show ?thesis using first_writer_keeps(5)[OF assms Some, of s1 m e] s1 u Inl
        by (auto simp: record_receipt_def split: prod.split sum.split)
    qed (use s1 u Inl in \<open>simp add: record_receipt_def\<close>)
  qed (use s1 u in \<open>simp add: record_receipt_def\<close>)
qed

lemma deliver_keeps:
  assumes "first_writer deps seen"
  shows "seen s \<subseteq> seen (fst (snd (deliver deps op s cs)))"
  using first_writer_keeps(2)[OF assms, of s "pl_pane_id (op_lease op)" "op_data op"]
    record_receipt_keeps[OF assms]
  by (auto simp: deliver_def Let_def split: prod.split sum.split) blast+

lemma claim_and_deliver_keeps:
  assumes "first_writer deps seen"
  shows "seen s \<subseteq> seen (fst (snd (claim_and_deliver deps op s cs)))"
  using first_writer_keeps(3)[OF assms, of s "metadata_of op Received"] deliver_keeps[OF assms]
  by (auto simp: claim_and_deliver_def Let_def split: prod.split sum.split bool.split) blast+

lemma route_keeps:
  assumes "first_writer deps seen"
  shows "seen s \<subseteq> seen (fst (snd (route deps op s)))"
  using first_writer_keeps(1)[OF assms, of s "pl_pane_id (op_lease op)"] claim_and_deliver_keeps[OF assms]
  by (auto simp: route_def Let_def split: prod.split sum.split option.split) blast+

lemma route_admitted_seen:
  assumes "first_writer deps seen" "route_admitted deps op s"
  shows "op_event_id op \<notin> seen s" "op_event_id op \<in> seen (fst (snd (route deps op s)))"
proof -
  obtain current s1 where cur: "rd_current_lease deps (pl_pane_id (op_lease op)) s = (current, s1)" by fastforce
  obtain claimed s2 where cl: "rd_claim deps (metadata_of op Received) s1 = (claimed, s2)" by fastforce
  have adm: "assert_operation op = None" "current = Inr (Some (op_lease op))" "claimed = Inr True"
    using assms(2) cur cl by (auto simp: route_admitted_def)
  have ev: "im_event_id (metadata_of op Received) = op_event_id op" by (simp add: metadata_of_def)
  have fw: "op_event_id op \<notin> seen s1 \<and> op_event_id op \<in> seen s2"
    using assms(1) cl adm(3) ev unfolding first_writer_def by (metis fst_conv snd_conv)
  show "op_event_id op \<notin> seen s" using first_writer_keeps(1)[OF assms(1), of s "pl_pane_id (op_lease op)"] cur fw by auto
  have "fst (snd (route deps op s)) = fst (snd (deliver deps op s2 [CurrentLease (pl_pane_id (op_lease op)), Claim (metadata_of op Received)]))"
    using adm cur cl by (simp add: route_def claim_and_deliver_def same_lease_iff)
  then show "op_event_id op \<in> seen (fst (snd (route deps op s)))"
    using fw deliver_keeps[OF assms(1), of s2] by auto
qed

definition event_sends :: "jstr \<Rightarrow> (pane_input_operation \<times> router_call list) list \<Rightarrow> (jstr \<times> jstr) list" where
  "event_sends e rs = concat (map (\<lambda>(op, cs). if op_event_id op = e then sends cs else []) rs)"

lemma seen_never_sent:
  assumes "first_writer deps seen" "e \<in> seen s"
  shows "event_sends e (route_all deps ops s) = []"
  using assms(2)
proof (induction ops arbitrary: s)
  case (Cons op ops)
  obtain res s' cs where r: "route deps op s = (res, s', cs)" by (cases "route deps op s")
  have "e \<in> seen s'" using route_keeps[OF assms(1), of s op] Cons.prems r by auto
  moreover have "op_event_id op = e \<Longrightarrow> sends cs = []"
    using route_log[OF r] route_admitted_seen(1)[OF assms(1), of op s] Cons.prems by (auto split: if_splits)
  ultimately show ?case using Cons.IH by (simp add: r event_sends_def)
qed (simp add: event_sends_def)

text \<open>
  C2: No event is delivered twice. With a store whose claims are first-writer-wins, and whatever
  operations are routed in whatever order (repeats, stale leases, throwing senders and failing
  receipts included), the bytes of one event id are handed to tmux at most once.
\<close>

theorem event_delivered_at_most_once:
  assumes "first_writer deps seen"
  shows "length (event_sends e (route_all deps ops s)) \<le> 1"
proof (induction ops arbitrary: s)
  case (Cons op ops)
  obtain res s' cs where r: "route deps op s = (res, s', cs)" by (cases "route deps op s")
  have split: "event_sends e (route_all deps (op # ops) s) =
      (if op_event_id op = e then sends cs else []) @ event_sends e (route_all deps ops s')"
    by (simp add: r event_sends_def)
  show ?case
  proof (cases "op_event_id op = e \<and> route_admitted deps op s")
    case True
    then have "e \<in> seen s'" using route_admitted_seen(2)[OF assms, of op s] r by simp
    then show ?thesis using split seen_never_sent[OF assms] route_log[OF r] True by simp
  next
    case False
    then show ?thesis using split route_log[OF r] Cons.IH[of s'] by auto
  qed
qed (simp add: event_sends_def)

text \<open>A host that remembers claimed event ids in a list.\<close>

definition example_lease :: pane_input_lease where
  "example_lease = \<lparr>pl_session_id = js ''s'', pl_pane_id = js ''%4'', pl_generation = js ''1''\<rparr>"

definition example_host :: "jstr list router_dependencies" where
  "example_host = \<lparr>rd_current_lease = (\<lambda>p s. (Inr (Some example_lease), s)),
     rd_send_exact_pane = (\<lambda>p d s. (Inl ''tmux'', s)),
     rd_claim = (\<lambda>m s. (Inr (im_event_id m \<notin> set s), im_event_id m # s)),
     rd_update = (\<lambda>m s. (Inl ''io'', s)), rd_audit_gap = None\<rparr>"

definition example_op :: pane_input_operation where
  "example_op = \<lparr>op_event_id = js ''e'', op_client_sequence = int_num 1, op_lease = example_lease,
     op_kind = TextInput, op_data = js ''ls''\<rparr>"

lemma event_delivered_at_most_once_witness:
  "length (event_sends (js ''e'') (route_all example_host [example_op, example_op] [])) \<le> 1"
proof (rule event_delivered_at_most_once [of example_host set])
  show "first_writer example_host set" by (auto simp: first_writer_def keeps_seen_def example_host_def)
qed

lemma event_delivered_once_example:
  "event_sends (js ''e'') (route_all example_host [example_op, example_op] []) = [(js ''%4'', js ''ls'')]"
  by code_simp

end
