(* ===== verification/Retention_Lane.thy ===== *)
theory Retention_Lane
  imports Prelude
begin

text \<open>
  The retention lane of \<open>server/src/retention-lane.ts\<close>, which archives sessions nobody watches. The
  host's driver, archive, clock and session list are calls of a host state that return a value or
  throw; the lane's own state is its status table, its timer and its re-entrancy flag. A tick is a
  step machine, one step per session, because other calls may arrive while it waits for a capture.
\<close>

section \<open>Splitting a capture\<close>

text \<open>The white space \<open>String.prototype.trim\<close> removes.\<close>

definition js_space :: "cunit \<Rightarrow> bool" where
  "js_space u \<longleftrightarrow> (9 \<le> u \<and> u \<le> 13) \<or> u = 32 \<or> u = 160 \<or> u = 5760 \<or> (8192 \<le> u \<and> u \<le> 8202) \<or>
     u = 8232 \<or> u = 8233 \<or> u = 8239 \<or> u = 8287 \<or> u = 12288 \<or> u = 65279"

definition blank_line :: "jstr \<Rightarrow> bool" where
  "blank_line l \<longleftrightarrow> list_all js_space l"

definition newline :: cunit where
  "newline = 10"

fun drop_blank_tail :: "jstr list \<Rightarrow> jstr list" where
  "drop_blank_tail [] = []"
| "drop_blank_tail (l # ls) =
     (case drop_blank_tail ls of
        [] \<Rightarrow> (if blank_line l then [] else [l])
      | ks \<Rightarrow> l # ks)"

definition split_capture :: "jstr \<Rightarrow> jstr list" where
  "split_capture content =
     (let terminated = (if content \<noteq> [] \<and> List.last content = newline then butlast content else content) in
      if terminated = [] then [] else drop_blank_tail (split_units newline terminated))"

section \<open>The lane\<close>

record append_result =
  ar_appended :: int
  ar_gap :: bool
  ar_needs_deeper :: bool

record lane_status =
  ls_session :: jstr
  ls_last_capture_at :: int
  ls_last_archived_at :: "int option"
  ls_archived_lines :: int
  ls_gaps :: int
  ls_last_error :: "string option"

text \<open>A row of \<open>listSessions\<close>: its name and, when it carries one, its height.\<close>

type_synonym session_row = "jstr \<times> jnum option"

record 's lane_options =
  lo_capture_pane :: "jstr \<Rightarrow> int \<Rightarrow> ('s, jstr) host_call"
  lo_get_history_limit :: "jstr \<Rightarrow> ('s, int) host_call"
  lo_list_sessions :: "('s, session_row list) host_call"
  lo_append_anchored :: "jstr \<Rightarrow> jstr list \<Rightarrow> int \<Rightarrow> int \<Rightarrow> bool \<Rightarrow> ('s, append_result) host_call"
  lo_sessions :: "('s, jstr list) host_call"
  lo_live_line_limit :: int
  lo_has_viewers :: "(jstr \<Rightarrow> ('s, bool) host_call) option"
  lo_now :: "('s, int) host_call"

record 's retention_lane =
  ln_statuses :: "(jstr \<times> lane_status) list"
  ln_ticking :: bool
  ln_timer :: bool
  ln_host :: 's
  ln_reported :: "lane_status list"

definition fresh_status :: "jstr \<Rightarrow> lane_status" where
  "fresh_status session = \<lparr>ls_session = session, ls_last_capture_at = 0, ls_last_archived_at = None,
     ls_archived_lines = 0, ls_gaps = 0, ls_last_error = None\<rparr>"

fun put_status :: "jstr \<Rightarrow> lane_status \<Rightarrow> (jstr \<times> lane_status) list \<Rightarrow> (jstr \<times> lane_status) list" where
  "put_status k v [] = [(k, v)]"
| "put_status k v ((k', v') # kvs) = (if k = k' then (k, v) # kvs else (k', v') # put_status k v kvs)"

definition status_of :: "jstr \<Rightarrow> (jstr \<times> lane_status) list \<Rightarrow> lane_status" where
  "status_of session tab = (case map_of tab session of None \<Rightarrow> fresh_status session | Some st \<Rightarrow> st)"

definition lane_start :: "'s retention_lane \<Rightarrow> 's retention_lane" where
  "lane_start lane = (if ln_timer lane then lane else lane\<lparr>ln_timer := True\<rparr>)"

definition lane_stop :: "'s retention_lane \<Rightarrow> 's retention_lane" where
  "lane_stop lane = (if \<not> ln_timer lane then lane else lane\<lparr>ln_timer := False\<rparr>)"

fun positive_finite :: "jnum \<Rightarrow> bool" where
  "positive_finite (Fin q) = (0 < q)"
| "positive_finite _ = False"

fun floor_num :: "jnum \<Rightarrow> int" where
  "floor_num (Fin q) = \<lfloor>q\<rfloor>"
| "floor_num _ = 0"

fun rows_of :: "int \<Rightarrow> jstr \<Rightarrow> session_row list \<Rightarrow> int" where
  "rows_of fallback session [] = fallback"
| "rows_of fallback session ((name, height) # rs) =
     (if name \<noteq> session then rows_of fallback session rs
      else case height of
             Some h \<Rightarrow> if positive_finite h then floor_num h else fallback
           | None \<Rightarrow> fallback)"

definition pane_rows :: "'s lane_options \<Rightarrow> jstr \<Rightarrow> ('s, int) host_call" where
  "pane_rows lo session s =
     (case lo_list_sessions lo s of
        (Inl e, s1) \<Rightarrow> (Inl e, s1)
      | (Inr rs, s1) \<Rightarrow> (Inr (rows_of (lo_live_line_limit lo) session rs), s1))"

definition bind_call :: "('s, 'a) host_call \<Rightarrow> ('a \<Rightarrow> ('s, 'b) host_call) \<Rightarrow> ('s, 'b) host_call" where
  "bind_call f g s = (case f s of (Inl e, s1) \<Rightarrow> (Inl e, s1) | (Inr a, s1) \<Rightarrow> g a s1)"

definition return_call :: "'a \<Rightarrow> ('s, 'a) host_call" where
  "return_call a s = (Inr a, s)"

text \<open>
  One capture and its append: the status carries the capture time as soon as the capture returned,
  even when the append throws, so both come back.
\<close>

type_synonym ('s, 'a) status_call = "lane_status \<Rightarrow> 's \<Rightarrow> (string + 'a) \<times> lane_status \<times> 's"

definition capture_append ::
  "'s lane_options \<Rightarrow> jstr \<Rightarrow> int \<Rightarrow> int \<Rightarrow> bool \<Rightarrow> ('s, append_result) status_call" where
  "capture_append lo session start rows deeper st s =
     (case lo_capture_pane lo session start s of
        (Inl e, s1) \<Rightarrow> (Inl e, st, s1)
      | (Inr content, s1) \<Rightarrow>
          (case lo_now lo s1 of
             (Inl e, s2) \<Rightarrow> (Inl e, st, s2)
           | (Inr t, s2) \<Rightarrow>
               (let st' = st\<lparr>ls_last_capture_at := t\<rparr>;
                    (r, s3) = lo_append_anchored lo session (split_capture content) rows (lo_live_line_limit lo) deeper s2
                in (r, st', s3))))"

definition capture_deep ::
  "'s lane_options \<Rightarrow> jstr \<Rightarrow> int \<Rightarrow> ('s, append_result) status_call" where
  "capture_deep lo session rows st s =
     (case lo_get_history_limit lo session s of
        (Inl e, s1) \<Rightarrow> (Inl e, st, s1)
      | (Inr limit, s1) \<Rightarrow>
          capture_append lo session (- max limit (lo_live_line_limit lo)) rows False st s1)"

definition capture_try :: "'s lane_options \<Rightarrow> jstr \<Rightarrow> int \<Rightarrow> ('s, append_result) status_call" where
  "capture_try lo session rows st s =
     (case capture_append lo session (- (lo_live_line_limit lo * 2)) rows True st s of
        (Inl e, st1, s1) \<Rightarrow> (Inl e, st1, s1)
      | (Inr r, st1, s1) \<Rightarrow>
          (if ar_needs_deeper r then capture_deep lo session rows st1 s1 else (Inr r, st1, s1)))"

definition settle_status :: "'s lane_options \<Rightarrow> append_result \<Rightarrow> lane_status \<Rightarrow> 's \<Rightarrow> lane_status \<times> 's" where
  "settle_status lo r st s =
     (let (st1, s1, err) =
        (if 0 < ar_appended r
         then let st' = st\<lparr>ls_archived_lines := ls_archived_lines st + ar_appended r\<rparr> in
              (case lo_now lo s of
                 (Inl e, s1) \<Rightarrow> (st', s1, Some e)
               | (Inr t, s1) \<Rightarrow> (st'\<lparr>ls_last_archived_at := Some t\<rparr>, s1, None))
         else (st, s, None))
      in case err of
           Some e \<Rightarrow> (st1\<lparr>ls_last_error := Some e\<rparr>, s1)
         | None \<Rightarrow> (st1\<lparr>ls_gaps := ls_gaps st1 + (if ar_gap r then 1 else 0), ls_last_error := None\<rparr>, s1))"

text \<open>
  One attempt. Reading the pane height is outside the \<open>try\<close>, so a driver that throws there aborts
  the tick; every other failure becomes the status's last error. Either way an attempt that got as far
  as the \<open>try\<close> reports its status once. Throwing \<open>log\<close> and \<open>onStatus\<close> callbacks are swallowed.
\<close>

definition lane_capture :: "'s lane_options \<Rightarrow> jstr \<Rightarrow> 's retention_lane \<Rightarrow> string option \<times> 's retention_lane" where
  "lane_capture lo session lane =
     (let st0 = status_of session (ln_statuses lane);
          lane0 = lane\<lparr>ln_statuses := put_status session st0 (ln_statuses lane)\<rparr>
      in case pane_rows lo session (ln_host lane) of
           (Inl e, s1) \<Rightarrow> (Some e, lane0\<lparr>ln_host := s1\<rparr>)
         | (Inr rows, s1) \<Rightarrow>
             (let (r, st1, s2) = capture_try lo session rows st0 s1;
                  (st2, s3) = (case r of Inl e \<Rightarrow> (st1\<lparr>ls_last_error := Some e\<rparr>, s2) | Inr a \<Rightarrow> settle_status lo a st1 s2)
              in (None, lane0\<lparr>ln_statuses := put_status session st2 (ln_statuses lane0), ln_host := s3,
                            ln_reported := ln_reported lane0 @ [st2]\<rparr>)))"

section \<open>Ticks\<close>

text \<open>
  A tick in progress is the list of sessions it still has to visit. \<open>tick_begin\<close> runs up to the first
  wait, \<open>tick_step\<close> handles one session, and the flag is cleared when the list is empty or an error
  leaves the loop.
\<close>

definition tick_begin :: "'s lane_options \<Rightarrow> 's retention_lane \<Rightarrow> jstr list option \<times> 's retention_lane" where
  "tick_begin lo lane =
     (if ln_ticking lane then (None, lane)
      else case lo_sessions lo (ln_host lane) of
             (Inl e, s1) \<Rightarrow> (None, lane\<lparr>ln_ticking := False, ln_host := s1\<rparr>)
           | (Inr sessions, s1) \<Rightarrow> (Some sessions, lane\<lparr>ln_ticking := True, ln_host := s1\<rparr>))"

definition visit_session :: "'s lane_options \<Rightarrow> jstr \<Rightarrow> 's retention_lane \<Rightarrow> string option \<times> 's retention_lane" where
  "visit_session lo session lane =
     (case lo_has_viewers lo of
        None \<Rightarrow> lane_capture lo session lane
      | Some f \<Rightarrow>
          (case f session (ln_host lane) of
             (Inl e, s1) \<Rightarrow> (Some e, lane\<lparr>ln_host := s1\<rparr>)
           | (Inr True, s1) \<Rightarrow> (None, lane\<lparr>ln_host := s1\<rparr>)
           | (Inr False, s1) \<Rightarrow> lane_capture lo session (lane\<lparr>ln_host := s1\<rparr>)))"

definition tick_step :: "'s lane_options \<Rightarrow> jstr list \<Rightarrow> 's retention_lane \<Rightarrow> jstr list option \<times> 's retention_lane" where
  "tick_step lo todo lane =
     (case todo of
        [] \<Rightarrow> (None, lane\<lparr>ln_ticking := False\<rparr>)
      | session # rest \<Rightarrow>
          (case visit_session lo session lane of
             (Some e, lane') \<Rightarrow> (None, lane'\<lparr>ln_ticking := False\<rparr>)
           | (None, lane') \<Rightarrow> (Some rest, lane')))"

text \<open>
  The lane with the ticks that wait for a capture, in the order they were started, and the calls that
  may arrive in any order. \<open>Resume i\<close> is the \<open>i\<close>-th waiting tick continuing.
\<close>

datatype lane_event = TickCalled | Resume nat | StartCalled | StopCalled

fun lane_event_step :: "'s lane_options \<Rightarrow> lane_event \<Rightarrow> jstr list list \<times> 's retention_lane \<Rightarrow> jstr list list \<times> 's retention_lane" where
  "lane_event_step lo TickCalled (waiting, lane) =
     (case tick_begin lo lane of
        (None, lane') \<Rightarrow> (waiting, lane')
      | (Some todo, lane') \<Rightarrow> (waiting @ [todo], lane'))"
| "lane_event_step lo (Resume i) (waiting, lane) =
     (if i < length waiting
      then (case tick_step lo (waiting ! i) lane of
              (None, lane') \<Rightarrow> (take i waiting @ drop (Suc i) waiting, lane')
            | (Some todo, lane') \<Rightarrow> (waiting[i := todo], lane'))
      else (waiting, lane))"
| "lane_event_step lo StartCalled (waiting, lane) = (waiting, lane_start lane)"
| "lane_event_step lo StopCalled (waiting, lane) = (waiting, lane_stop lane)"

definition lane_new :: "'s \<Rightarrow> 's retention_lane" where
  "lane_new s = \<lparr>ln_statuses = [], ln_ticking = False, ln_timer = False, ln_host = s, ln_reported = []\<rparr>"

definition lane_run :: "'s lane_options \<Rightarrow> lane_event list \<Rightarrow> 's \<Rightarrow> jstr list list \<times> 's retention_lane" where
  "lane_run lo es s = fold (lane_event_step lo) es ([], lane_new s)"

section \<open>One tick at a time\<close>

definition lane_ok :: "jstr list list \<times> 's retention_lane \<Rightarrow> bool" where
  "lane_ok c \<longleftrightarrow> length (fst c) \<le> 1 \<and> (ln_ticking (snd c) \<longleftrightarrow> fst c \<noteq> [])"

lemma lane_capture_ticking: "ln_ticking (snd (lane_capture lo session lane)) = ln_ticking lane"
  by (simp add: lane_capture_def Let_def split: prod.split sum.split)

lemma visit_session_ticking: "ln_ticking (snd (visit_session lo session lane)) = ln_ticking lane"
  using lane_capture_ticking[of lo session]
  by (simp add: visit_session_def split: option.split prod.split sum.split bool.split)

lemma tick_step_ticking:
  assumes "ln_ticking lane"
  shows "ln_ticking (snd (tick_step lo todo lane)) \<longleftrightarrow> fst (tick_step lo todo lane) \<noteq> None"
  using assms visit_session_ticking[of lo "hd todo" lane]
  by (auto simp: tick_step_def split: list.split prod.split option.split)

lemma lane_ok_step:
  assumes "lane_ok c"
  shows "lane_ok (lane_event_step lo e c)"
proof (cases c)
  case (Pair waiting lane)
  show ?thesis
  proof (cases e)
    case TickCalled
    then show ?thesis using assms
      by (auto simp: Pair lane_ok_def tick_begin_def split: prod.split option.split sum.split)
  next
    case (Resume i)
    show ?thesis
    proof (cases "i < length waiting")
      case True
      then obtain todo where w: "waiting = [todo]" "i = 0" "ln_ticking lane"
        using assms by (auto simp: Pair lane_ok_def length_Suc_conv le_Suc_eq)
      show ?thesis using tick_step_ticking[OF w(3), of lo todo] w Resume
        by (auto simp: Pair lane_ok_def split: prod.split option.split)
    qed (use assms Resume in \<open>simp add: Pair\<close>)
  qed (use assms in \<open>auto simp: Pair lane_ok_def lane_start_def lane_stop_def\<close>)
qed

lemma lane_ok_run: "lane_ok (lane_run lo es s)"
proof -
  have "lane_ok c \<Longrightarrow> lane_ok (fold (lane_event_step lo) es c)" for c
    by (induction es arbitrary: c) (simp_all add: lane_ok_step)
  moreover have "lane_ok ([], lane_new s)" by (simp add: lane_ok_def lane_new_def)
  ultimately show ?thesis by (simp add: lane_run_def)
qed

lemma resumes_finish:
  "fst (fold (lane_event_step lo) (replicate (Suc (length todo)) (Resume 0)) ([todo], lane)) = []"
proof (induction todo arbitrary: lane)
  case (Cons session rest)
  have idle: "fst (fold (lane_event_step lo) (replicate n (Resume 0)) ([], lane')) = []" for n lane'
    by (induction n) simp_all
  obtain e lane' where v: "visit_session lo session lane = (e, lane')" by fastforce
  show ?case
    using Cons[of lane'] idle[of "Suc (length rest)"] by (cases e) (simp_all add: tick_step_def v)
qed (simp add: tick_step_def)


section \<open>What one attempt reports\<close>

lemma put_status_lookup [simp]: "map_of (put_status k v tab) j = (if j = k then Some v else map_of tab j)"
  by (induction k v tab rule: put_status.induct) auto

lemma put_status_keys: "distinct (map fst tab) \<Longrightarrow> distinct (map fst (put_status k v tab))"
proof (induction k v tab rule: put_status.induct)
  case (2 k v k' v' kvs)
  have "set (map fst (put_status k v kvs)) = insert k (set (map fst kvs))" for k v kvs
    by (induction k v kvs rule: put_status.induct) auto
  then show ?case using 2 by auto
qed simp

lemma capture_append_keeps:
  assumes "capture_append lo session start rows deeper st s = (r, st', s')"
  shows "ls_archived_lines st' = ls_archived_lines st \<and> ls_gaps st' = ls_gaps st \<and> ls_session st' = ls_session st \<and>
    ls_last_archived_at st' = ls_last_archived_at st"
  using assms by (auto simp: capture_append_def split: prod.splits sum.splits)

lemma capture_try_keeps:
  assumes "capture_try lo session rows st s = (r, st', s')"
  shows "ls_archived_lines st' = ls_archived_lines st \<and> ls_gaps st' = ls_gaps st \<and> ls_session st' = ls_session st \<and>
    ls_last_archived_at st' = ls_last_archived_at st"
  using assms
  by (auto simp: capture_try_def capture_deep_def dest!: capture_append_keeps split: prod.splits sum.splits if_splits)


text \<open>A host with one pane whose first append asks for a deeper capture.\<close>

definition example_lane_options :: "nat lane_options" where
  "example_lane_options = \<lparr>lo_capture_pane = (\<lambda>session start s. (Inr (js ''a''), Suc s)),
     lo_get_history_limit = (\<lambda>session s. (Inr 50, s)), lo_list_sessions = (\<lambda>s. (Inr [(js ''x'', Some (int_num 24))], s)),
     lo_append_anchored = (\<lambda>session lines rows live deeper s.
        (Inr \<lparr>ar_appended = (if deeper then 0 else 3), ar_gap = \<not> deeper, ar_needs_deeper = deeper\<rparr>, Suc s)),
     lo_sessions = (\<lambda>s. (Inr [js ''x'', js ''y''], s)), lo_live_line_limit = 10, lo_has_viewers = None,
     lo_now = (\<lambda>s. (Inr (int s), s))\<rparr>"



end
