(* ===== verification/Canonical_Json.thy ===== *)
theory Canonical_Json
  imports Text_Codec "HOL-Library.List_Lexorder" "HOL-Library.Multiset"
begin

text \<open>
  The canonical codec of \<open>server/src/stream-contract.ts\<close>: every digest and every comparison of
  contract values goes through it. Values are the JSON values of \<open>Text_Codec\<close>; the encoder's two memo
  tables only cache results and are left out. The main result is that the encoding is injective: equal
  canonical texts come from values that differ at most in the order of object keys.
\<close>

section \<open>The encoder\<close>

definition well_formed :: "jstr \<Rightarrow> bool" where
  "well_formed s \<longleftrightarrow> (\<forall>c \<in> set (js_chars s). length c = 1 \<longrightarrow> \<not> is_high_surrogate (hd c) \<and> \<not> is_low_surrogate (hd c))"

text \<open>\<open>Object.keys(object).sort()\<close>: ASCII keys compare lexicographically by character.\<close>

definition sort_keys :: "(string \<times> 'a) list \<Rightarrow> (string \<times> 'a) list" where
  "sort_keys kvs = sort_key fst kvs"

fun canonical_value :: "wire \<Rightarrow> wire" where
  "canonical_value (WArr vs) = WArr (map canonical_value vs)"
| "canonical_value (WObj kvs) = WObj (sort_keys (map (\<lambda>(k, v). (k, canonical_value v)) kvs))"
| "canonical_value v = v"

fun strings_well_formed :: "wire \<Rightarrow> bool" where
  "strings_well_formed (WStr s) = well_formed s"
| "strings_well_formed (WArr vs) = list_all strings_well_formed vs"
| "strings_well_formed (WObj kvs) = list_all (\<lambda>(k, v). strings_well_formed v) kvs"
| "strings_well_formed v = True"

definition stream_canonical :: "wire \<Rightarrow> string + jstr" where
  "stream_canonical v =
     (if strings_well_formed v then Inr (json_text (canonical_value v)) else Inl ''invalid Unicode'')"

text \<open>\<open>streamDigest\<close> and \<open>v2Digest\<close>, for a given SHA-256 of the UTF-8 text.\<close>

definition stream_digest :: "(jstr \<Rightarrow> jstr) \<Rightarrow> jstr \<Rightarrow> wire \<Rightarrow> string + jstr" where
  "stream_digest sha kind payload =
     (case stream_canonical (WObj [(''version'', WInt 1), (''kind'', WStr kind), (''payload'', payload)]) of
        Inl e \<Rightarrow> Inl e | Inr text \<Rightarrow> Inr (sha text))"

definition v2_digest_json :: "(jstr \<Rightarrow> jstr) \<Rightarrow> jstr \<Rightarrow> wire \<Rightarrow> string + jstr" where
  "v2_digest_json sha kind payload =
     (case stream_canonical (WObj [(''schema'', WStr (js ''newarch-v2'')), (''kind'', WStr kind), (''payload'', payload)]) of
        Inl e \<Rightarrow> Inl e | Inr text \<Rightarrow> Inr (sha text))"

definition same_contract :: "wire \<Rightarrow> wire \<Rightarrow> string + bool" where
  "same_contract a b =
     (case stream_canonical a of Inl e \<Rightarrow> Inl e
      | Inr s \<Rightarrow> (case stream_canonical b of Inl e \<Rightarrow> Inl e | Inr t \<Rightarrow> Inr (s = t)))"

section \<open>Strings decode uniquely\<close>

lemma hex_digit_value: "m < 16 \<Longrightarrow> unat (hex_digit m) = (if m < 10 then 48 + m else 87 + m)"
proof -
  assume m: "m < 16"
  have v: "unat (of_nat (87 + m) :: cunit) = 87 + m" using m by (simp only: unat_of_nat take_bit_nat_def) simp
  show ?thesis using digit_unit_value[of m] v unfolding hex_digit_def by (simp only: split: if_split) blast
qed

lemma hex_digit_inject: "m < 16 \<Longrightarrow> n < 16 \<Longrightarrow> hex_digit m = hex_digit n \<longleftrightarrow> m = n"
proof -
  assume b: "m < 16" "n < 16"
  have "m = n" if "hex_digit m = hex_digit n"
  proof -
    have "(if m < 10 then 48 + m else 87 + m) = (if n < 10 then 48 + n else 87 + n)"
      using hex_digit_value[OF b(1)] hex_digit_value[OF b(2)] that by metis
    then show ?thesis by presburger
  qed
  then show ?thesis by blast
qed

lemma hex_pad_inject: "m < 16 ^ k \<Longrightarrow> n < 16 ^ k \<Longrightarrow> hex_pad k m = hex_pad k n \<longleftrightarrow> m = n"
proof (induction k arbitrary: m n)
  case (Suc k)
  then have "m div 16 < 16 ^ k" "n div 16 < 16 ^ k" by (auto simp: less_mult_imp_div_less mult.commute)
  then have "hex_pad (Suc k) m = hex_pad (Suc k) n \<longleftrightarrow> m div 16 = n div 16 \<and> m mod 16 = n mod 16"
    using Suc.IH by (simp add: hex_digit_inject)
  then show ?case by (metis div_mult_mod_eq)
qed simp

text \<open>The pieces \<open>js_chars\<close> makes: single units and surrogate pairs.\<close>

definition valid_piece :: "jstr \<Rightarrow> bool" where
  "valid_piece c \<longleftrightarrow> (\<exists>u. c = [u]) \<or> (\<exists>u v. c = [u, v] \<and> is_high_surrogate u \<and> is_low_surrogate v)"

lemma js_chars_valid: "c \<in> set (js_chars s) \<Longrightarrow> valid_piece c"
  by (induction s rule: js_chars.induct) (auto simp: valid_piece_def split: if_splits)

definition escape_unit :: "cunit \<Rightarrow> cunit option" where
  "escape_unit u = (if u = 0x22 then Some 0x22 else if u = 0x5c then Some 0x5c else if u = 8 then Some 0x62
     else if u = 9 then Some 0x74 else if u = 10 then Some 0x6e else if u = 12 then Some 0x66
     else if u = 13 then Some 0x72 else None)"

definition hex_escaped :: "cunit \<Rightarrow> bool" where
  "hex_escaped u \<longleftrightarrow> escape_unit u = None \<and> (u < 0x20 \<or> is_high_surrogate u \<or> is_low_surrogate u)"

lemma json_unit_cases:
  "json_unit u = (case escape_unit u of Some e \<Rightarrow> [0x5c, e]
     | None \<Rightarrow> if hex_escaped u then 0x5c # 0x75 # hex_pad 4 (unat u) else [u])"
  by (auto simp: json_unit_def escape_unit_def hex_escaped_def js_def)

lemma escape_unit_inject: "escape_unit u = Some e \<Longrightarrow> escape_unit v = Some e \<Longrightarrow> u = v"
  by (auto simp: escape_unit_def split: if_splits)

lemma escape_unit_not_u: "escape_unit u \<noteq> Some 0x75"
  by (auto simp: escape_unit_def split: if_splits)

lemma plain_unit: "escape_unit u = None \<Longrightarrow> \<not> hex_escaped u \<Longrightarrow> u \<noteq> 0x5c \<and> u \<noteq> 0x22 \<and> \<not> is_high_surrogate u"
  by (auto simp: escape_unit_def hex_escaped_def split: if_splits)

lemma json_unit_decodes:
  assumes "json_unit u @ r = json_unit v @ r'"
  shows "u = v \<and> r = r'"
proof -
  have hex: "hex_pad 4 (unat u) = hex_pad 4 (unat v) \<longleftrightarrow> u = v"
    using unsigned_less[of u, where 'a=nat] unsigned_less[of v, where 'a=nat] by (subst hex_pad_inject) (simp_all add: word_unat_eq_iff)
  show ?thesis
    using assms hex plain_unit[of u] plain_unit[of v] escape_unit_inject[of u _ v] escape_unit_not_u[of u] escape_unit_not_u[of v]
    by (auto simp: json_unit_cases split: option.splits if_splits)
qed

lemma high_surrogate_not_escape: "is_high_surrogate u \<Longrightarrow> u \<noteq> 0x5c \<and> u \<noteq> 0x22"
  by (auto simp: is_high_surrogate_def)

lemma json_piece_decodes:
  assumes "valid_piece c" "valid_piece d" "json_piece c @ r = json_piece d @ r'"
  shows "c = d \<and> r = r'"
proof -
  have mixed: False if "is_high_surrogate a" "[a, b] @ s = json_unit v @ s'" for a b v s s'
    using that high_surrogate_not_escape[of a] plain_unit[of v]
    by (auto simp: json_unit_cases split: option.splits if_splits)
  consider u v where "c = [u]" "d = [v]" | u a b where "c = [u]" "d = [a, b]" "is_high_surrogate a"
    | u a b where "d = [u]" "c = [a, b]" "is_high_surrogate a" | u v a b where "c = [u, v]" "d = [a, b]"
    using assms(1,2) by (auto simp: valid_piece_def)
  then show ?thesis
  proof cases
    case 1 then show ?thesis using assms(3) json_unit_decodes by simp
  next
    case 2 then show ?thesis using assms(3) mixed[of a b r' u r] by auto
  next
    case 3 then show ?thesis using assms(3) mixed[of a b r u r'] by auto
  next
    case 4 then show ?thesis using assms(3) by simp
  qed
qed

lemma json_piece_head: "valid_piece c \<Longrightarrow> \<exists>h t. json_piece c = h # t \<and> h \<noteq> 0x22"
  by (auto simp: valid_piece_def json_unit_cases dest: high_surrogate_not_escape plain_unit split: option.split)

lemma json_pieces_decode:
  assumes "\<forall>c \<in> set cs. valid_piece c" "\<forall>d \<in> set ds. valid_piece d"
    and "concat (map json_piece cs) @ 0x22 # r = concat (map json_piece ds) @ 0x22 # r'"
  shows "cs = ds \<and> r = r'"
  using assms
proof (induction cs arbitrary: ds)
  case Nil
  then show ?case using json_piece_head[of "hd ds"] by (cases ds) auto
next
  case (Cons c cs)
  show ?case
  proof (cases ds)
    case Nil
    then show ?thesis using Cons.prems json_piece_head[of c] by auto
  next
    case (Cons d ds')
    then show ?thesis
      using Cons.prems Cons.IH[of ds'] \<open>ds = d # ds'\<close>
        json_piece_decodes[of c d "concat (map json_piece cs) @ 0x22 # r" "concat (map json_piece ds') @ 0x22 # r'"]
      by auto
  qed
qed

lemma json_string_decodes:
  assumes "json_string s @ r = json_string t @ r'"
  shows "s = t \<and> r = r'"
proof -
  have "js_chars s = js_chars t \<and> r = r'"
    using assms by (intro json_pieces_decode) (auto simp: json_string_def js_chars_valid)
  then show ?thesis by (metis concat_js_chars)
qed

section \<open>Values decode uniquely\<close>

definition digit_unit :: "cunit \<Rightarrow> bool" where
  "digit_unit c \<longleftrightarrow> 48 \<le> unat c \<and> unat c \<le> 57"

lemma dec_nat_all_digits: "\<forall>c \<in> set (dec_nat n). digit_unit c"
  using dec_nat_digits by (auto simp: digit_unit_def)

lemma dec_nat_not_Nil: "dec_nat n \<noteq> []"
  by (subst dec_nat.simps) simp

text \<open>What may follow a value: nothing, a comma or a closing bracket.\<close>

definition delimited :: "jstr \<Rightarrow> bool" where
  "delimited r \<longleftrightarrow> (case r of [] \<Rightarrow> True | c # _ \<Rightarrow> c \<in> {44, 93, 125})"

lemma delimited_no_digit: "delimited (c # r) \<Longrightarrow> \<not> digit_unit c"
  by (auto simp: delimited_def digit_unit_def)

lemma delimited_simps [simp]: "delimited []" "delimited (44 # r)" "delimited (93 # r)" "delimited (125 # r)"
  by (simp_all add: delimited_def)

lemma dec_nat_take: "delimited r \<Longrightarrow> takeWhile digit_unit (dec_nat n @ r) = dec_nat n"
  using dec_nat_all_digits[of n] delimited_no_digit by (cases r) (auto simp: takeWhile_append)

lemma dec_nat_decodes:
  assumes "delimited r" "delimited r'" "dec_nat m @ r = dec_nat n @ r'"
  shows "m = n \<and> r = r'"
proof -
  have "dec_nat m = dec_nat n" using assms dec_nat_take by metis
  then show ?thesis using assms(3) by simp
qed

lemma dec_nat_head: "\<exists>h t. dec_nat n = h # t \<and> digit_unit h"
  using dec_nat_not_Nil[of n] dec_nat_all_digits[of n] by (cases "dec_nat n") auto

lemma dec_int_decodes:
  assumes "delimited r" "delimited r'" "dec_int i @ r = dec_int j @ r'"
  shows "i = j \<and> r = r'"
proof -
  have minus: "45 # s \<noteq> dec_nat n @ s'" for s n s'
    using dec_nat_head[of n] by (auto simp: digit_unit_def)
  note nat_case = dec_nat_decodes[OF assms(1,2)]
  consider "i < 0" "j < 0" | "i < 0" "0 \<le> j" | "0 \<le> i" "j < 0" | "0 \<le> i" "0 \<le> j" by linarith
  then show ?thesis
  proof cases
    case 1
    then have "dec_nat (nat (- i)) @ r = dec_nat (nat (- j)) @ r'" using assms(3) by (simp add: dec_int_def)
    from nat_case[OF this] show ?thesis using 1 by (auto simp: nat_eq_iff)
  next
    case 2
    then show ?thesis using assms(3) minus[of "dec_nat (nat (- i)) @ r"] by (simp add: dec_int_def)
  next
    case 3
    then show ?thesis using assms(3) minus[of "dec_nat (nat (- j)) @ r'", symmetric] by (simp add: dec_int_def)
  next
    case 4
    then have "dec_nat (nat i) @ r = dec_nat (nat j) @ r'" using assms(3) by (simp add: dec_int_def)
    from nat_case[OF this] show ?thesis using 4 by (auto simp: eq_nat_nat_iff)
  qed
qed

lemma dec_int_head: "\<exists>h t. dec_int i = h # t \<and> (digit_unit h \<or> h = 45)"
  using dec_nat_head[of "nat i"] by (auto simp: dec_int_def)

text \<open>The first unit of a text tells what kind of value it is.\<close>

fun head_kind :: "cunit \<Rightarrow> nat" where
  "head_kind c = (if c = 110 then 0 else if c = 116 then 1 else if c = 102 then 2 else if c = 34 then 3
     else if c = 91 then 4 else if c = 123 then 5 else if digit_unit c \<or> c = 45 then 6 else 7)"

fun value_kind :: "wire \<Rightarrow> nat" where
  "value_kind WNull = 0" | "value_kind (WBool b) = (if b then 1 else 2)" | "value_kind (WInt i) = 6"
| "value_kind (WStr s) = 3" | "value_kind (WArr vs) = 4" | "value_kind (WObj kvs) = 5"

lemma head_kind_number: "digit_unit h \<or> h = 45 \<Longrightarrow> head_kind h = 6"
  by (auto simp: digit_unit_def)

lemma json_text_head: "\<exists>h t. json_text v = h # t \<and> head_kind h = value_kind v"
proof (cases v)
  case (WInt i)
  obtain h t where "dec_int i = h # t" "digit_unit h \<or> h = 45" using dec_int_head[of i] by blast
  then show ?thesis using head_kind_number[of h] WInt by (simp del: head_kind.simps)
qed (auto simp: json_string_def js_def)

lemma value_kind_less: "value_kind v < 7"
  by (cases v) auto

lemma same_head:
  assumes "json_text v @ r = json_text w @ r'"
  shows "value_kind v = value_kind w"
proof -
  obtain h t where "json_text v = h # t" "head_kind h = value_kind v" using json_text_head by blast
  moreover obtain h' t' where "json_text w = h' # t'" "head_kind h' = value_kind w" using json_text_head by blast
  ultimately show ?thesis using assms by (metis append_Cons list.inject)
qed

abbreviation decodes :: "wire \<Rightarrow> bool" where
  "decodes v \<equiv> (\<forall>w r r'. delimited r \<longrightarrow> delimited r' \<longrightarrow> json_text v @ r = json_text w @ r' \<longrightarrow> v = w \<and> r = r')"

lemma join_units_Cons: "join_units d (l # ls) = l @ (if ls = [] then [] else d # join_units d ls)"
  by (cases ls) auto

text \<open>A comma-separated list closed by \<open>e\<close>, for any item texts that decode uniquely.\<close>

lemma join_decodes:
  assumes item: "\<And>x y r r'. x \<in> set xs \<Longrightarrow> delimited r \<Longrightarrow> delimited r' \<Longrightarrow> f x @ r = f y @ r' \<Longrightarrow> x = y \<and> r = r'"
    and head: "\<And>x. \<exists>h t. f x = h # t \<and> h \<noteq> e"
    and e: "e \<in> {93, 125}"
    and eq: "join_units 44 (map f xs) @ e # r = join_units 44 (map f ys) @ e # r'"
  shows "xs = ys \<and> r = r'"
  using item eq
proof (induction xs arbitrary: ys)
  case Nil
  then show ?case using head[of "hd ys"] by (cases ys) (auto simp: join_units_Cons)
next
  case (Cons x xs)
  show ?case
  proof (cases ys)
    case Nil
    then show ?thesis using Cons.prems(2) head[of x] by (auto simp: join_units_Cons)
  next
    case ys: (Cons y ys')
    define a where "a = (if xs = [] then [] else 44 # join_units 44 (map f xs)) @ e # r"
    define b where "b = (if ys' = [] then [] else 44 # join_units 44 (map f ys')) @ e # r'"
    have "delimited a" "delimited b" using e by (auto simp: a_def b_def)
    moreover have "f x @ a = f y @ b"
      using Cons.prems(2) by (simp add: ys join_units_Cons a_def b_def)
    ultimately have xy: "x = y" and ab: "a = b" using Cons.prems(1)[of x a b y] by auto
    have "xs = [] \<longleftrightarrow> ys' = []" using ab e by (auto simp: a_def b_def split: if_splits)
    then have "join_units 44 (map f xs) @ e # r = join_units 44 (map f ys') @ e # r'"
      using ab by (auto simp: a_def b_def split: if_splits)
    then show ?thesis using Cons.IH[of ys'] Cons.prems(1) xy ys by auto
  qed
qed

lemma comma_unit: "(of_char CHR '','' :: cunit) = 44"
  by simp

lemma json_text_array: "json_text (WArr vs) @ r = 91 # join_units 44 (map json_text vs) @ 93 # r"
  by (simp add: js_def)

definition member_text :: "string \<times> wire \<Rightarrow> jstr" where
  "member_text kv = json_string (js (fst kv)) @ 58 # json_text (snd kv)"

lemma json_text_object: "json_text (WObj kvs) @ r = 123 # join_units 44 (map member_text kvs) @ 125 # r"
  proof -
  have "member_text = (\<lambda>(k, v). json_string (js k) @ js '':'' @ json_text v)"
    by (auto simp: member_text_def js_def fun_eq_iff)
  then show ?thesis by (simp add: js_def)
qed

lemma ascii_js_inject: "js a = js b \<longleftrightarrow> a = b"
proof
  have val: "unat (of_char c :: cunit) = of_char c" for c
  proof -
    have "unat (of_nat (of_char c) :: cunit) = of_char c"
      using nat_of_char_less_256[of c] unfolding unat_of_nat take_bit_nat_def by (intro mod_less) (simp add: less_trans[of _ 256])
    then show ?thesis by (simp only: of_nat_of_char)
  qed
  have "of_char c = (of_char d :: cunit) \<Longrightarrow> c = d" for c d
    using val[of c] val[of d] by (metis of_char_eq_iff)
  then show "js a = js b \<Longrightarrow> a = b" by (auto simp: js_def dest!: map_injective intro!: injI)
qed simp

lemma member_decodes:
  assumes "\<And>w r r'. delimited r \<Longrightarrow> delimited r' \<Longrightarrow> json_text v @ r = json_text w @ r' \<Longrightarrow> v = w \<and> r = r'"
    and "delimited r" "delimited r'" "member_text (k, v) @ r = member_text kv @ r'"
  shows "(k, v) = kv \<and> r = r'"
proof -
  have "json_string (js k) @ 58 # json_text v @ r = json_string (js (fst kv)) @ 58 # json_text (snd kv) @ r'"
    using assms(4) by (simp add: member_text_def)
  from json_string_decodes[OF this] have "k = fst kv" "json_text v @ r = json_text (snd kv) @ r'"
    by (auto simp: ascii_js_inject)
  then show ?thesis using assms(1)[OF assms(2,3)] by (cases kv) auto
qed

lemma value_kind_inv:
  "0 = value_kind w \<Longrightarrow> w = WNull" "(if b then 1 else 2) = value_kind w \<Longrightarrow> w = WBool b"
  "6 = value_kind w \<Longrightarrow> \<exists>j. w = WInt j" "3 = value_kind w \<Longrightarrow> \<exists>s. w = WStr s"
  "4 = value_kind w \<Longrightarrow> \<exists>vs. w = WArr vs" "5 = value_kind w \<Longrightarrow> \<exists>kvs. w = WObj kvs"
  by (cases w; simp split: if_splits)+

lemma json_text_no_close: "\<exists>h t. json_text x = h # t \<and> h \<noteq> 93"
proof -
  obtain h t where "json_text x = h # t" "head_kind h = value_kind x" using json_text_head by blast
  moreover have "head_kind 93 = 7" by (simp add: digit_unit_def)
  ultimately show ?thesis using value_kind_less[of x] by (metis less_irrefl)
qed

lemma member_text_no_close: "\<exists>h t. member_text x = h # t \<and> h \<noteq> 125"
  by (simp add: member_text_def json_string_def)

lemma json_text_decodes: "decodes v"
proof (induction v)
  case WNull
  show ?case
  proof (intro allI impI)
    fix w r r' assume eq: "json_text WNull @ r = json_text w @ r'"
    have "w = WNull" using same_head[OF eq] by (simp add: value_kind_inv)
    then show "WNull = w \<and> r = r'" using eq by simp
  qed
next
  case (WBool b)
  show ?case
  proof (intro allI impI)
    fix w r r' assume eq: "json_text (WBool b) @ r = json_text w @ r'"
    have "w = WBool b" using same_head[OF eq] by (simp add: value_kind_inv)
    then show "WBool b = w \<and> r = r'" using eq by simp
  qed
next
  case (WInt i)
  show ?case
  proof (intro allI impI)
    fix w r r' assume d: "delimited r" "delimited r'" and eq: "json_text (WInt i) @ r = json_text w @ r'"
    obtain j where w: "w = WInt j" using same_head[OF eq] value_kind_inv(3)[of w] by auto
    then show "WInt i = w \<and> r = r'" using dec_int_decodes[OF d, of i j] eq by simp
  qed
next
  case (WStr s)
  show ?case
  proof (intro allI impI)
    fix w r r' assume eq: "json_text (WStr s) @ r = json_text w @ r'"
    obtain t where w: "w = WStr t" using same_head[OF eq] value_kind_inv(4)[of w] by auto
    then show "WStr s = w \<and> r = r'" using json_string_decodes[of s r t r'] eq by simp
  qed
next
  case (WArr vs)
  show ?case
  proof (intro allI impI)
    fix w r r' assume eq: "json_text (WArr vs) @ r = json_text w @ r'"
    obtain ws where w: "w = WArr ws" using same_head[OF eq] value_kind_inv(5)[of w] by auto
    have body: "join_units 44 (map json_text vs) @ 93 # r = join_units 44 (map json_text ws) @ 93 # r'"
      using eq unfolding w json_text_array by blast
    have item: "x = y \<and> s = s'"
      if "x \<in> set vs" "delimited s" "delimited s'" "json_text x @ s = json_text y @ s'" for x y s s'
      using WArr.IH[OF that(1)] that(2-4) by blast
    have "vs = ws \<and> r = r'" by (rule join_decodes[OF item json_text_no_close _ body]) simp_all
    then show "WArr vs = w \<and> r = r'" using w by simp
  qed
next
  case (WObj kvs)
  show ?case
  proof (intro allI impI)
    fix w r r' assume eq: "json_text (WObj kvs) @ r = json_text w @ r'"
    obtain ws where w: "w = WObj ws" using same_head[OF eq] value_kind_inv(6)[of w] by auto
    have body: "join_units 44 (map member_text kvs) @ 125 # r = join_units 44 (map member_text ws) @ 125 # r'"
      using eq unfolding w json_text_object by blast
    have item: "x = y \<and> s = s'"
      if "x \<in> set kvs" "delimited s" "delimited s'" "member_text x @ s = member_text y @ s'" for x y s s'
    proof -
      obtain k v where x: "x = (k, v)" by fastforce
      have "decodes v" using WObj.IH[of x v] that(1) x by simp
      then show ?thesis using member_decodes[of v s s' k y] that x by blast
    qed
    have "kvs = ws \<and> r = r'" by (rule join_decodes[OF item member_text_no_close _ body]) simp_all
    then show "WObj kvs = w \<and> r = r'" using w by simp
  qed
qed

lemma json_text_inject: "json_text v = json_text w \<longleftrightarrow> v = w"
  using json_text_decodes[of v] by (metis append_Nil2 delimited_simps(1))

section \<open>Canonical text is canonical\<close>

text \<open>
  The value an object stands for, without the order of its keys. Keys of one object are distinct, as
  in every JavaScript object.
\<close>

datatype meaning =
    MNull
  | MBool bool
  | MInt int
  | MStr jstr
  | MArr "meaning list"
  | MObj "string \<Rightarrow> meaning option"

fun meaning_of :: "wire \<Rightarrow> meaning" where
  "meaning_of WNull = MNull"
| "meaning_of (WBool b) = MBool b"
| "meaning_of (WInt i) = MInt i"
| "meaning_of (WStr s) = MStr s"
| "meaning_of (WArr vs) = MArr (map meaning_of vs)"
| "meaning_of (WObj kvs) = MObj (map_of (map (\<lambda>(k, v). (k, meaning_of v)) kvs))"

fun distinct_keys :: "wire \<Rightarrow> bool" where
  "distinct_keys (WArr vs) = list_all distinct_keys vs"
| "distinct_keys (WObj kvs) = (distinct (map fst kvs) \<and> list_all (\<lambda>(k, v). distinct_keys v) kvs)"
| "distinct_keys v = True"

lemma map_of_map_snd: "map_of (map (\<lambda>(k, v). (k, f v)) kvs) k = map_option f (map_of kvs k)"
  by (induction kvs) auto

lemma fst_map_snd: "map fst (map (\<lambda>(k, v). (k, f v)) kvs) = map fst kvs"
  by (induction kvs) auto

lemma sort_keys_props:
  "set (sort_keys kvs) = set kvs" "sorted (map fst (sort_keys kvs))"
  "distinct (map fst (sort_keys kvs)) \<longleftrightarrow> distinct (map fst kvs)"
proof -
  show "set (sort_keys kvs) = set kvs" "sorted (map fst (sort_keys kvs))"
    by (simp_all add: sort_keys_def)
  have "mset (map fst (sort_keys kvs)) = image_mset fst (mset (sort_key fst kvs))" by (simp only: sort_keys_def mset_map)
  also have "\<dots> = mset (map fst kvs)" by (simp only: mset_sort mset_map)
  finally have "mset (map fst (sort_keys kvs)) = mset (map fst kvs)" .
  then show "distinct (map fst (sort_keys kvs)) \<longleftrightarrow> distinct (map fst kvs)"
    by (rule mset_eq_imp_distinct_iff)
qed

lemma map_of_sort_keys: "distinct (map fst kvs) \<Longrightarrow> map_of (sort_keys kvs) = map_of kvs"
  using map_of_inject_set[of "sort_keys kvs" kvs] by (simp add: sort_keys_props)

lemma sort_keys_unique:
  assumes "distinct (map fst xs)" "distinct (map fst ys)" "map_of xs = map_of ys"
  shows "sort_keys xs = sort_keys ys"
proof (rule map_sorted_distinct_set_unique[where f = fst])
  have "set xs = set ys" using map_of_inject_set[OF assms(1,2)] assms(3) by blast
  then show "set (sort_keys xs) = set (sort_keys ys)" by (simp add: sort_keys_props)
  then show "inj_on fst (set (sort_keys xs) \<union> set (sort_keys ys))"
    using assms(2) by (simp add: sort_keys_props distinct_map)
qed (simp_all add: sort_keys_props assms)

lemma meaning_canonical: "distinct_keys v \<Longrightarrow> meaning_of (canonical_value v) = meaning_of v"
proof (induction v)
  case (WArr vs)
  then show ?case by (auto simp: list_all_iff)
next
  case (WObj kvs)
  let ?ws = "map (\<lambda>(k, v). (k, canonical_value v)) kvs"
  have d: "distinct (map fst ?ws)" using WObj.prems unfolding fst_map_snd by simp
  have "map_option meaning_of (map_of (sort_keys ?ws) k) = map_option meaning_of (map_of kvs k)" for k
  proof (cases "map_of kvs k")
    case (Some v)
    then have "(k, v) \<in> set kvs" by (rule map_of_SomeD)
    then have "distinct_keys v" "meaning_of (canonical_value v) = meaning_of v"
      using WObj by (auto simp: list_all_iff)
    then show ?thesis using Some by (simp add: map_of_sort_keys[OF d] map_of_map_snd)
  qed (simp add: map_of_sort_keys[OF d] map_of_map_snd)
  then show ?case by (simp add: map_of_map_snd fun_eq_iff)
qed simp_all

lemma canonical_of_meaning:
  "distinct_keys v \<Longrightarrow> distinct_keys w \<Longrightarrow> meaning_of v = meaning_of w \<Longrightarrow> canonical_value v = canonical_value w"
proof (induction v arbitrary: w)
  case (WArr vs)
  obtain ws where w: "w = WArr ws" "map meaning_of vs = map meaning_of ws" using WArr.prems(3) by (cases w) auto
  have "length vs = length ws" using w(2) by (metis length_map)
  moreover have "canonical_value (vs ! i) = canonical_value (ws ! i)" if "i < length vs" for i
    using WArr.IH[of "vs ! i" "ws ! i"] WArr.prems that w \<open>length vs = length ws\<close>
    by (metis distinct_keys.simps(1) list_all_length nth_map nth_mem)
  ultimately show ?case using w(1) by (simp add: list_eq_iff_nth_eq)
next
  case (WObj kvs)
  obtain ws where w: "w = WObj ws"
    and m: "map_of (map (\<lambda>(k, v). (k, meaning_of v)) kvs) = map_of (map (\<lambda>(k, v). (k, meaning_of v)) ws)"
    using WObj.prems(3) by (cases w) auto
  let ?cv = "map (\<lambda>(k, v). (k, canonical_value v))"
  have "map_of (?cv kvs) k = map_of (?cv ws) k" for k
  proof -
    have mk: "map_option meaning_of (map_of kvs k) = map_option meaning_of (map_of ws k)"
      using fun_cong[OF m, of k] by (simp add: map_of_map_snd)
    show ?thesis
    proof (cases "map_of kvs k")
      case (Some v)
      then obtain u where u: "map_of ws k = Some u" "meaning_of v = meaning_of u" using mk by (cases "map_of ws k") auto
      have "(k, v) \<in> set kvs" "(k, u) \<in> set ws" using Some u(1) by (auto dest: map_of_SomeD)
      then have "canonical_value v = canonical_value u"
        using WObj.IH[of "(k, v)" v u] WObj.prems w u(2) by (auto simp: list_all_iff)
      then show ?thesis using Some u(1) by (simp add: map_of_map_snd)
    qed (use mk in \<open>simp add: map_of_map_snd\<close>)
  qed
  then have "map_of (?cv kvs) = map_of (?cv ws)" by (rule ext)
  moreover have "distinct (map fst (?cv kvs))" "distinct (map fst (?cv ws))"
    using WObj.prems w unfolding fst_map_snd by simp_all
  ultimately show ?case using sort_keys_unique[of "?cv kvs" "?cv ws"] w by simp
next
  case WNull then show ?case by (cases w) auto
next
  case (WBool b) then show ?case by (cases w) auto
next
  case (WInt i) then show ?case by (cases w) auto
next
  case (WStr s) then show ?case by (cases w) auto
qed



end
