(* ===== verification/Sgr_Style.thy ===== *)
theory Sgr_Style
  imports Canonical_Json
begin

unbundle bit_operations_syntax

text \<open>
  Durable cell styles, \<open>server/src/stream-contract.ts\<close>: the conversion between the decoder's semantic
  style and the canonical list of SGR parameters stored with a cell, in both directions, and the
  conversion of whole cells. Numbers are integers here; both converters refuse every other number.
\<close>

section \<open>Styles and cells\<close>

record semantic_style =
  ss_attrs :: int
  ss_fg :: int
  ss_bg :: int

record semantic_cell =
  sc_text :: jstr
  sc_width :: int
  sc_style :: semantic_style

record stream_cell =
  cell_text :: jstr
  cell_width :: int
  cell_style :: "int list"

definition contract_uint :: "int \<Rightarrow> bool" where
  "contract_uint n \<longleftrightarrow> safe_nonneg n"

text \<open>The bits of \<open>attrs\<close> that are set, as SGR codes.\<close>

definition attr_codes :: "int \<Rightarrow> int list" where
  "attr_codes attrs = filter (\<lambda>n. bit attrs (nat (n - 1))) [1..9] @ (if attrs AND 512 \<noteq> 0 then [21] else [])"

definition color_codes :: "int \<Rightarrow> int \<Rightarrow> int \<Rightarrow> int \<Rightarrow> string + int list" where
  "color_codes c base bright extended =
     (if \<not> safe_int c \<or> c < - 1 \<or> 0xffffff + 256 < c then Inl ''unsupported semantic color''
      else if c = - 1 then Inr []
      else if c < 8 then Inr [base + c]
      else if c < 16 then Inr [bright + c - 8]
      else if c < 256 then Inr [extended, 5, c]
      else let rgb = c - 256 in
        Inr [extended, 2, drop_bit 16 rgb, drop_bit 8 rgb AND 255, rgb AND 255])"

definition semantic_style_to_sgr :: "semantic_style \<Rightarrow> string + int list" where
  "semantic_style_to_sgr style =
     (if \<not> contract_uint (ss_attrs style) then Inl ''contract unsafe counter''
      else if 1023 < ss_attrs style then Inl ''unsupported semantic attributes''
      else case color_codes (ss_fg style) 30 90 38 of
             Inl e \<Rightarrow> Inl e
           | Inr fg \<Rightarrow>
               (case color_codes (ss_bg style) 40 100 48 of
                  Inl e \<Rightarrow> Inl e
                | Inr bg \<Rightarrow> Inr (attr_codes (ss_attrs style) @ fg @ bg)))"

text \<open>Reading \<open>sgr[++i]\<close> past the end gives \<open>undefined\<close>, which no check accepts.\<close>

fun sgr_byte :: "int list \<Rightarrow> string + (int \<times> int list)" where
  "sgr_byte [] = Inl ''contract unsafe counter''"
| "sgr_byte (v # rest) =
     (if \<not> contract_uint v then Inl ''contract unsafe counter''
      else if 255 < v then Inl ''SGR color byte'' else Inr (v, rest))"

fun sgr_color :: "int list \<Rightarrow> string + (int \<times> int list)" where
  "sgr_color [] = Inl ''unsupported SGR color mode''"
| "sgr_color (mode # rest) =
     (if mode = 5 then sgr_byte rest
      else if mode = 2 then
        (case sgr_byte rest of Inl e \<Rightarrow> Inl e
         | Inr (r, rest1) \<Rightarrow>
            (case sgr_byte rest1 of Inl e \<Rightarrow> Inl e
             | Inr (g, rest2) \<Rightarrow>
                (case sgr_byte rest2 of Inl e \<Rightarrow> Inl e
                 | Inr (b, rest3) \<Rightarrow> Inr (256 + r * 65536 + g * 256 + b, rest3))))
      else Inl ''unsupported SGR color mode'')"

lemma sgr_byte_shorter: "sgr_byte xs = Inr (v, rest) \<Longrightarrow> length rest < length xs"
  by (cases xs) (auto split: if_splits)

lemma sgr_color_shorter: "sgr_color xs = Inr (c, rest) \<Longrightarrow> length rest < length xs"
  by (cases xs) (auto split: if_splits sum.splits dest!: sgr_byte_shorter)

function sgr_loop :: "int list \<Rightarrow> semantic_style \<Rightarrow> string + semantic_style" where
  "sgr_loop [] st = Inr st"
| "sgr_loop (n # rest) st =
     (if \<not> contract_uint n then Inl ''contract unsafe counter''
      else if 1 \<le> n \<and> n \<le> 9 then sgr_loop rest (st\<lparr>ss_attrs := ss_attrs st OR push_bit (nat (n - 1)) 1\<rparr>)
      else if n = 21 then sgr_loop rest (st\<lparr>ss_attrs := ss_attrs st OR 512\<rparr>)
      else if 30 \<le> n \<and> n \<le> 37 then sgr_loop rest (st\<lparr>ss_fg := n - 30\<rparr>)
      else if 90 \<le> n \<and> n \<le> 97 then sgr_loop rest (st\<lparr>ss_fg := n - 90 + 8\<rparr>)
      else if 40 \<le> n \<and> n \<le> 47 then sgr_loop rest (st\<lparr>ss_bg := n - 40\<rparr>)
      else if 100 \<le> n \<and> n \<le> 107 then sgr_loop rest (st\<lparr>ss_bg := n - 100 + 8\<rparr>)
      else if n = 38 \<or> n = 48 then
        (case sgr_color rest of Inl e \<Rightarrow> Inl e
         | Inr (c, rest') \<Rightarrow> sgr_loop rest' (if n = 38 then st\<lparr>ss_fg := c\<rparr> else st\<lparr>ss_bg := c\<rparr>))
      else Inl ''noncanonical SGR'')"
  by pat_completeness auto
termination
  by (relation "measure (length \<circ> fst)") (auto dest: sgr_color_shorter)

declare sgr_loop.simps(2) [simp del]

definition sgr_to_semantic_style :: "int list \<Rightarrow> string + semantic_style" where
  "sgr_to_semantic_style sgr =
     (case sgr_loop sgr \<lparr>ss_attrs = 0, ss_fg = - 1, ss_bg = - 1\<rparr> of
        Inl e \<Rightarrow> Inl e
      | Inr style \<Rightarrow>
          (case semantic_style_to_sgr style of
             Inl e \<Rightarrow> Inl e
           | Inr back \<Rightarrow> if back \<noteq> sgr then Inl ''noncanonical SGR order/alias'' else Inr style))"

definition semantic_cell_to_cell :: "semantic_cell \<Rightarrow> string + stream_cell" where
  "semantic_cell_to_cell c =
     (if sc_width c \<notin> {0, 1, 2} \<or> \<not> well_formed (sc_text c) then Inl ''invalid cell''
      else case semantic_style_to_sgr (sc_style c) of
             Inl e \<Rightarrow> Inl e
           | Inr sgr \<Rightarrow> Inr \<lparr>cell_text = sc_text c, cell_width = sc_width c, cell_style = sgr\<rparr>)"

definition cell_to_semantic_cell :: "stream_cell \<Rightarrow> string + semantic_cell" where
  "cell_to_semantic_cell c =
     (if cell_width c \<notin> {0, 1, 2} \<or> \<not> well_formed (cell_text c) then Inl ''invalid cell''
      else case sgr_to_semantic_style (cell_style c) of
             Inl e \<Rightarrow> Inl e
           | Inr st \<Rightarrow> Inr \<lparr>sc_text = cell_text c, sc_width = cell_width c, sc_style = st\<rparr>)"

section \<open>Reading back what was written\<close>

text \<open>The attribute codes accumulate to the attributes.\<close>

definition code_bit :: "int \<Rightarrow> nat" where
  "code_bit n = (if n = 21 then 9 else nat (n - 1))"

lemma sgr_loop_attr:
  assumes "n \<in> {1..9} \<union> {21}"
  shows "sgr_loop (n # rest) st = sgr_loop rest (st\<lparr>ss_attrs := ss_attrs st OR push_bit (code_bit n) 1\<rparr>)"
proof -
  have "(512 :: int) = push_bit 9 1" by simp
  then show ?thesis using assms
    by (auto simp: sgr_loop.simps(2) contract_uint_def safe_nonneg_def max_safe_def code_bit_def)
qed

lemma sgr_loop_attrs:
  assumes "set ns \<subseteq> {1..9} \<union> {21}"
  shows "sgr_loop (ns @ rest) st =
    sgr_loop rest (st\<lparr>ss_attrs := foldl (\<lambda>a n. a OR push_bit (code_bit n) 1) (ss_attrs st) ns\<rparr>)"
  using assms by (induction ns arbitrary: st) (simp_all add: sgr_loop_attr)

lemma bit_fold_codes:
  "bit (foldl (\<lambda>a n. a OR push_bit (code_bit n) 1) a ns :: int) k \<longleftrightarrow> bit a k \<or> k \<in> code_bit ` set ns"
  by (induction ns arbitrary: a) (auto simp: bit_or_iff bit_exp_iff)

lemma attr_codes_set: "set (attr_codes attrs) \<subseteq> {1..9} \<union> {21}"
  by (auto simp: attr_codes_def)

lemma bit_512: "(a :: int) AND 512 \<noteq> 0 \<longleftrightarrow> bit a 9"
proof -
  have "a AND 512 = a AND push_bit 9 1" by simp
  then show ?thesis by (simp only: and_exp_eq_0_iff_not_bit push_bit_of_1) simp
qed

lemma attr_codes_bits: "code_bit ` set (attr_codes attrs) = {k. k < 10 \<and> bit attrs k}"
proof -
  have "k \<in> code_bit ` set (attr_codes attrs)" if "k < 10" "bit attrs k" for k
  proof (cases "k = 9")
    case True
    then show ?thesis using that by (auto simp: attr_codes_def bit_512 code_bit_def image_iff)
  next
    case False
    then have "int k + 1 \<in> set (attr_codes attrs)" "code_bit (int k + 1) = k"
      using that by (auto simp: attr_codes_def code_bit_def)
    then show ?thesis by (metis imageI)
  qed
  moreover have "k < 10 \<and> bit attrs k" if "k \<in> code_bit ` set (attr_codes attrs)" for k
    using that by (auto simp: attr_codes_def code_bit_def bit_512 split: if_splits)
  ultimately show ?thesis by auto
qed

lemma fold_attr_codes:
  assumes "0 \<le> attrs" "attrs \<le> 1023"
  shows "foldl (\<lambda>a n. a OR push_bit (code_bit n) 1) (0 :: int) (attr_codes attrs) = attrs"
proof (rule bit_eqI)
  fix k
  have "attrs = take_bit 10 attrs" using assms by (simp add: take_bit_int_eq_self)
  then have "bit attrs k \<Longrightarrow> k < 10" by (metis bit_take_bit_iff)
  then show "bit (foldl (\<lambda>a n. a OR push_bit (code_bit n) 1) (0 :: int) (attr_codes attrs)) k = bit attrs k"
    unfolding bit_fold_codes attr_codes_bits by auto
qed

text \<open>A colour written with one of the two bases reads back.\<close>

lemma rgb_parts:
  fixes rgb :: int
  assumes "0 \<le> rgb" "rgb \<le> 0xffffff"
  shows "drop_bit 16 rgb * 65536 + (drop_bit 8 rgb AND 255) * 256 + (rgb AND 255) = rgb"
    "0 \<le> drop_bit 16 rgb" "drop_bit 16 rgb \<le> 255" "0 \<le> drop_bit 8 rgb AND 255" "drop_bit 8 rgb AND 255 \<le> 255"
    "0 \<le> rgb AND 255" "rgb AND 255 \<le> 255"
proof -
  have low: "x AND 255 = x mod 256" for x :: int
    using take_bit_eq_mask[of 8 x] by (simp add: take_bit_eq_mod mask_eq_exp_minus_1)
  have d: "drop_bit 16 rgb = rgb div 65536" "drop_bit 8 rgb = rgb div 256" by (simp_all add: drop_bit_eq_div)
  have "rgb div 65536 = rgb div 256 div 256" using zdiv_zmult2_eq[of 256 rgb 256] by simp
  then show "drop_bit 16 rgb * 65536 + (drop_bit 8 rgb AND 255) * 256 + (rgb AND 255) = rgb"
    unfolding low d using div_mult_mod_eq[of rgb 256] div_mult_mod_eq[of "rgb div 256" 256] by linarith
  show "0 \<le> drop_bit 16 rgb" "drop_bit 16 rgb \<le> 255" "0 \<le> drop_bit 8 rgb AND 255" "drop_bit 8 rgb AND 255 \<le> 255"
    "0 \<le> rgb AND 255" "rgb AND 255 \<le> 255"
    unfolding low d using assms by simp_all
qed

lemma sgr_byte_small: "0 \<le> v \<Longrightarrow> v \<le> 255 \<Longrightarrow> sgr_byte (v # rest) = Inr (v, rest)"
  by (simp add: contract_uint_def safe_nonneg_def max_safe_def)

lemma sgr_color_codes:
  assumes "color_codes c base bright extended = Inr codes" "16 \<le> c"
  shows "\<exists>tail. codes = extended # tail \<and> sgr_color (tail @ rest) = Inr (c, rest)"
proof (cases "c < 256")
  case True
  then show ?thesis using assms sgr_byte_small[of c rest] by (auto simp: color_codes_def split: if_splits)
next
  case False
  then have b: "0 \<le> c - 256" "c - 256 \<le> 0xffffff" using assms by (auto simp: color_codes_def split: if_splits)
  note p = rgb_parts[OF b]
  have "codes = [extended, 2, drop_bit 16 (c - 256), drop_bit 8 (c - 256) AND 255, (c - 256) AND 255]"
    using assms False by (auto simp: color_codes_def Let_def split: if_splits)
  then show ?thesis using p by (simp add: sgr_byte_small del: sgr_byte.simps)
qed

lemma sgr_loop_fg:
  assumes "color_codes c 30 90 38 = Inr codes" "ss_fg st = - 1"
  shows "sgr_loop (codes @ rest) st = sgr_loop rest (st\<lparr>ss_fg := c\<rparr>)"
proof (cases "c < 16")
  case True
  then show ?thesis using assms
    by (cases st) (auto simp: color_codes_def sgr_loop.simps(2) contract_uint_def safe_nonneg_def max_safe_def split: if_splits)
next
  case False
  then obtain tail where t: "codes = 38 # tail" "sgr_color (tail @ rest) = Inr (c, rest)"
    using sgr_color_codes[OF assms(1), of rest] by auto
  then show ?thesis by (simp add: sgr_loop.simps(2) contract_uint_def safe_nonneg_def max_safe_def)
qed

lemma sgr_loop_bg:
  assumes "color_codes c 40 100 48 = Inr codes" "ss_bg st = - 1"
  shows "sgr_loop (codes @ rest) st = sgr_loop rest (st\<lparr>ss_bg := c\<rparr>)"
proof (cases "c < 16")
  case True
  then show ?thesis using assms
    by (cases st) (auto simp: color_codes_def sgr_loop.simps(2) contract_uint_def safe_nonneg_def max_safe_def split: if_splits)
next
  case False
  then obtain tail where t: "codes = 48 # tail" "sgr_color (tail @ rest) = Inr (c, rest)"
    using sgr_color_codes[OF assms(1), of rest] by auto
  then show ?thesis by (simp add: sgr_loop.simps(2) contract_uint_def safe_nonneg_def max_safe_def)
qed

lemma sgr_loop_written:
  assumes "semantic_style_to_sgr st = Inr sgr"
  shows "sgr_loop sgr \<lparr>ss_attrs = 0, ss_fg = - 1, ss_bg = - 1\<rparr> = Inr st"
proof -
  obtain fg bg where codes: "color_codes (ss_fg st) 30 90 38 = Inr fg" "color_codes (ss_bg st) 40 100 48 = Inr bg"
    and sgr: "sgr = attr_codes (ss_attrs st) @ fg @ bg" and attrs: "0 \<le> ss_attrs st" "ss_attrs st \<le> 1023"
    using assms by (auto simp: semantic_style_to_sgr_def contract_uint_def safe_nonneg_def split: if_splits sum.splits)
  show ?thesis
    using fold_attr_codes[OF attrs] sgr_loop_bg[OF codes(2), of _ "[]"]
    unfolding sgr by (simp add: sgr_loop_attrs[OF attr_codes_set] sgr_loop_fg[OF codes(1)])
qed

text \<open>
  C35: Styles survive storage, and stored styles are canonical. A semantic style is written as a given
  parameter list exactly when that list reads back as the style: nothing written is misread, and
  the reader accepts no list but the one the writer produces (no reset, alias, duplicate or reordering).
  The same holds for whole cells.
\<close>

theorem cell_style_roundtrip:
  "(semantic_style_to_sgr st = Inr sgr \<longleftrightarrow> sgr_to_semantic_style sgr = Inr st) \<and>
   (semantic_cell_to_cell sc = Inr c \<longleftrightarrow> cell_to_semantic_cell c = Inr sc)"
proof -
  have style: "semantic_style_to_sgr st = Inr sgr \<longleftrightarrow> sgr_to_semantic_style sgr = Inr st" for st sgr
    using sgr_loop_written[of st sgr]
    by (auto simp: sgr_to_semantic_style_def split: sum.splits if_splits)
  have "semantic_cell_to_cell sc = Inr c \<longleftrightarrow> cell_to_semantic_cell c = Inr sc"
    using style[of "sc_style sc" "cell_style c"]
    by (cases c; cases sc) (auto simp: semantic_cell_to_cell_def cell_to_semantic_cell_def split: sum.splits if_splits)
  with style show ?thesis by blast
qed

end
