(* ===== verification/Stream_Contract.thy ===== *)
theory Stream_Contract
  imports Sgr_Style
begin

text \<open>
  The stream contract's shared records and the pure checks over them,
  \<open>server/src/stream-contract.ts\<close>: attach receipt sets, archive inventories, ordered control replay,
  gap updates and read grants. Counters are integers (every check that relies on one being a
  nonnegative safe integer says so); strings are well-formed Unicode, as read from JSON; SHA-256 is the
  parameter \<open>sha\<close>, applied to canonical text. Comparing two contract values by their canonical texts is
  equality here, by \<open>stream_canonical_injective\<close>.
\<close>

section \<open>Identities and positions\<close>

record pane_key =
  pk_server_identity :: jstr
  pk_pane_id :: jstr
  pk_birth_generation :: int

record geometry =
  geo_columns :: int
  geo_rows :: int

record segment_row_id =
  sr_pane :: pane_key
  sr_segment_id :: jstr
  sr_row_ordinal :: int

record segment_row_range =
  rr_pane :: pane_key
  rr_segment_id :: jstr
  rr_start :: int
  rr_end :: int

record pipe_epoch =
  pe_pane :: pane_key
  pe_attach_id :: jstr
  pe_collector_incarnation :: jstr

record raw_position =
  rp_epoch :: pipe_epoch
  rp_byte_offset :: int

record raw_range =
  rw_epoch :: pipe_epoch
  rw_start :: int
  rw_end :: int

record evidence_file =
  ev_path :: jstr
  ev_bytes :: int
  ev_sha256 :: jstr

datatype missing_count = MissingUnknown | MissingExact int | MissingEstimate int

datatype gap_reason = PipeEof | CollectorExit | AmbiguousOverlap | UnprovenOverlap | UnknownVtState
  | InterruptedCapture | StorageOutageGap | Corruption | IdentityChangeGap | GeometryChange | OwnershipLost
  | VisibleDivergence

datatype gap_quality = Degraded | Resolved

record contract_gap =
  gp_episode_id :: jstr
  gp_parent_episode_id :: "jstr option"
  gp_pane :: pane_key
  gp_left_row_id :: "segment_row_id option"
  gp_right_segment_id :: "jstr option"
  gp_reason :: gap_reason
  gp_withheld_rows :: int
  gp_lower_bound :: int
  gp_opened_at :: int
  gp_closed_at :: "int option"
  gp_clock_epoch :: jstr
  gp_quality :: gap_quality
  gp_missing :: missing_count

datatype coverage_part =
    RowsPart segment_row_range jstr
  | GapPart contract_gap jstr

section \<open>Canonical JSON of the records that are measured or hashed\<close>

definition ascii :: "string \<Rightarrow> wire" where
  "ascii s = WStr (js s)"

fun opt_wire :: "('a \<Rightarrow> wire) \<Rightarrow> 'a option \<Rightarrow> wire" where
  "opt_wire f None = WNull"
| "opt_wire f (Some x) = f x"

definition pane_wire :: "pane_key \<Rightarrow> wire" where
  "pane_wire p = WObj [(''serverIdentity'', WStr (pk_server_identity p)), (''paneId'', WStr (pk_pane_id p)),
     (''birthGeneration'', WInt (pk_birth_generation p))]"

definition row_id_wire :: "segment_row_id \<Rightarrow> wire" where
  "row_id_wire r = WObj [(''pane'', pane_wire (sr_pane r)), (''segmentId'', WStr (sr_segment_id r)),
     (''rowOrdinal'', WInt (sr_row_ordinal r))]"

definition row_range_wire :: "segment_row_range \<Rightarrow> wire" where
  "row_range_wire r = WObj [(''pane'', pane_wire (rr_pane r)), (''segmentId'', WStr (rr_segment_id r)),
     (''start'', WInt (rr_start r)), (''end'', WInt (rr_end r))]"

definition epoch_wire :: "pipe_epoch \<Rightarrow> wire" where
  "epoch_wire e = WObj [(''pane'', pane_wire (pe_pane e)), (''attachId'', WStr (pe_attach_id e)),
     (''collectorIncarnation'', WStr (pe_collector_incarnation e))]"

definition raw_position_wire :: "raw_position \<Rightarrow> wire" where
  "raw_position_wire p = WObj [(''epoch'', epoch_wire (rp_epoch p)), (''byteOffset'', WInt (rp_byte_offset p))]"

definition raw_range_wire :: "raw_range \<Rightarrow> wire" where
  "raw_range_wire r = WObj [(''epoch'', epoch_wire (rw_epoch r)), (''start'', WInt (rw_start r)), (''end'', WInt (rw_end r))]"

definition geometry_wire :: "geometry \<Rightarrow> wire" where
  "geometry_wire g = WObj [(''columns'', WInt (geo_columns g)), (''rows'', WInt (geo_rows g))]"

fun gap_reason_name :: "gap_reason \<Rightarrow> string" where
  "gap_reason_name PipeEof = ''pipe-eof''" | "gap_reason_name CollectorExit = ''collector-exit''"
| "gap_reason_name AmbiguousOverlap = ''ambiguous-overlap''" | "gap_reason_name UnprovenOverlap = ''unproven-overlap''"
| "gap_reason_name UnknownVtState = ''unknown-vt-state''" | "gap_reason_name InterruptedCapture = ''interrupted-capture''"
| "gap_reason_name StorageOutageGap = ''storage-outage''" | "gap_reason_name Corruption = ''corruption''"
| "gap_reason_name IdentityChangeGap = ''identity-change''" | "gap_reason_name GeometryChange = ''geometry-change''"
| "gap_reason_name OwnershipLost = ''ownership-lost''" | "gap_reason_name VisibleDivergence = ''visible-divergence''"

fun missing_wire :: "missing_count \<Rightarrow> (string \<times> wire) list" where
  "missing_wire MissingUnknown = [(''countKind'', ascii ''unknown''), (''missingCount'', WNull)]"
| "missing_wire (MissingExact n) = [(''countKind'', ascii ''exact''), (''missingCount'', WInt n)]"
| "missing_wire (MissingEstimate n) = [(''countKind'', ascii ''estimate''), (''missingCount'', WInt n)]"

definition gap_wire :: "contract_gap \<Rightarrow> wire" where
  "gap_wire g = WObj (missing_wire (gp_missing g) @
     [(''version'', WInt 1), (''episodeId'', WStr (gp_episode_id g)),
      (''parentEpisodeId'', opt_wire WStr (gp_parent_episode_id g)), (''pane'', pane_wire (gp_pane g)),
      (''leftRowId'', opt_wire row_id_wire (gp_left_row_id g)),
      (''rightSegmentId'', opt_wire WStr (gp_right_segment_id g)), (''reason'', ascii (gap_reason_name (gp_reason g))),
      (''withheldRows'', WInt (gp_withheld_rows g)), (''lowerBound'', WInt (gp_lower_bound g)),
      (''openedAt'', WInt (gp_opened_at g)), (''closedAt'', opt_wire WInt (gp_closed_at g)),
      (''clockEpoch'', WStr (gp_clock_epoch g)),
      (''quality'', ascii (case gp_quality g of Degraded \<Rightarrow> ''degraded'' | Resolved \<Rightarrow> ''resolved''))])"

fun coverage_wire :: "coverage_part \<Rightarrow> wire" where
  "coverage_wire (RowsPart r dg) = WObj [(''kind'', ascii ''rows''), (''range'', row_range_wire r), (''digest'', WStr dg)]"
| "coverage_wire (GapPart g dg) = WObj [(''kind'', ascii ''gap''), (''gap'', gap_wire g), (''digest'', WStr dg)]"

text \<open>\<open>Buffer.byteLength(streamCanonical(v))\<close> and a digest, for values whose strings are well formed.\<close>

definition canonical_bytes :: "wire \<Rightarrow> nat" where
  "canonical_bytes v = utf8_size (json_text (canonical_value v))"

definition digest_of :: "(jstr \<Rightarrow> jstr) \<Rightarrow> string \<Rightarrow> wire \<Rightarrow> jstr" where
  "digest_of sha kind payload =
     sha (json_text (canonical_value (WObj [(''version'', WInt 1), (''kind'', ascii kind), (''payload'', payload)])))"

lemma digest_of_stream_digest:
  "strings_well_formed payload \<Longrightarrow> well_formed (js kind) \<Longrightarrow> stream_digest sha (js kind) payload = Inr (digest_of sha kind payload)"
  by (simp add: stream_digest_def digest_of_def stream_canonical_def ascii_def)

text \<open>A crude bound on the size of a text, easy to evaluate.\<close>

fun wire_bound :: "wire \<Rightarrow> nat" where
  "wire_bound WNull = 4"
| "wire_bound (WBool b) = 5"
| "wire_bound (WInt i) = nat \<bar>i\<bar> + 2"
| "wire_bound (WStr s) = 6 * length s + 2"
| "wire_bound (WArr vs) = 2 + sum_list (map (\<lambda>v. wire_bound v + 1) vs)"
| "wire_bound (WObj kvs) = 2 + sum_list (map (\<lambda>(k, v). 6 * length k + 4 + wire_bound v) kvs)"

lemma length_json_string: "length (json_string s) \<le> 6 * length s + 2"
proof -
  have piece: "length (json_piece c) \<le> 6 * length c" for c
    by (cases c rule: json_piece.cases) (auto simp: json_unit_def)
  have "length (concat (map json_piece cs)) \<le> 6 * length (concat cs)" for cs
  proof (induction cs)
    case (Cons c cs)
    then show ?case using piece[of c] by simp
  qed simp
  from this[of "js_chars s"] show ?thesis by (simp add: json_string_def)
qed

lemma length_dec_nat: "length (dec_nat n) \<le> n + 1"
proof (induction n rule: dec_nat.induct)
  case (1 n)
  show ?case
  proof (cases "n < 10")
    case False
    then have "n div 10 + 1 \<le> n" by simp
    then show ?thesis using 1[OF False] False by (subst dec_nat.simps) simp
  qed (subst dec_nat.simps, simp)
qed

lemma length_join: "length (join_units d ls) \<le> sum_list (map (\<lambda>l. length l + 1) ls)"
  by (induction ls) (auto simp: join_units_Cons)

lemma length_json_text: "length (json_text v) \<le> wire_bound v"
proof (induction v)
  case (WInt i)
  show ?case using length_dec_nat[of "nat \<bar>i\<bar>"] by (auto simp: dec_int_def)
next
  case (WStr s)
  show ?case using length_json_string[of s] by simp
next
  case (WArr vs)
  have "sum_list (map (\<lambda>v. length (json_text v) + 1) vs) \<le> sum_list (map (\<lambda>v. wire_bound v + 1) vs)"
    using WArr.IH by (intro sum_list_mono) simp
  then show ?case using length_join[of 44 "map json_text vs"] by (simp add: comp_def)
next
  case (WObj kvs)
  have "length (member_text kv) + 1 \<le> (\<lambda>(k, v). 6 * length k + 4 + wire_bound v) kv" if "kv \<in> set kvs" for kv
    using WObj.IH[of kv "snd kv"] that length_json_string[of "js (fst kv)"] by (cases kv) (auto simp: member_text_def)
  then have "sum_list (map (\<lambda>kv. length (member_text kv) + 1) kvs) \<le> sum_list (map (\<lambda>(k, v). 6 * length k + 4 + wire_bound v) kvs)"
    by (intro sum_list_mono)
  then show ?case using length_join[of 44 "map member_text kvs"] json_text_object[of kvs "[]"] by (simp add: comp_def)
qed simp_all

lemma utf8_size_bound: "utf8_size s \<le> 4 * length s"
proof -
  have "length cs \<le> length (concat cs)" if "[] \<notin> set cs" for cs :: "jstr list"
    using that
  proof (induction cs)
    case (Cons c cs)
    then have "1 \<le> length c" "length cs \<le> length (concat cs)" by (auto simp: Suc_le_eq)
    then show ?case unfolding concat.simps length_append list.size(4) by linarith
  qed simp
  from this[of "js_chars s"] have n: "length (code_points s) \<le> length s"
    using js_chars_not_Nil by (auto simp: code_points_def)
  have "sum_list (map utf8_cp_length cps) \<le> 4 * length cps" for cps
    by (induction cps) (use utf8_cp_length_bounds(2) in \<open>auto intro: add_mono\<close>)
  from this[of "code_points s"] show ?thesis unfolding utf8_size_def length_utf8_encode using n by linarith
qed

lemma canonical_bytes_bound: "canonical_bytes v \<le> 4 * wire_bound (canonical_value v)"
  using utf8_size_bound[of "json_text (canonical_value v)"] length_json_text[of "canonical_value v"]
  by (simp add: canonical_bytes_def)

definition hex_lower :: "cunit \<Rightarrow> bool" where
  "hex_lower u \<longleftrightarrow> (48 \<le> u \<and> u \<le> 57) \<or> (97 \<le> u \<and> u \<le> 102)"

definition contract_hash :: "jstr \<Rightarrow> bool" where
  "contract_hash h \<longleftrightarrow> length h = 64 \<and> list_all hex_lower h"

definition mib :: int where
  "mib = 1024 * 1024"

text \<open>Values the examples share.\<close>

definition example_hash :: jstr where
  "example_hash = replicate 64 97"

definition example_pane :: pane_key where
  "example_pane = \<lparr>pk_server_identity = js ''s'', pk_pane_id = js ''%1'', pk_birth_generation = 1\<rparr>"

definition example_epoch :: pipe_epoch where
  "example_epoch = \<lparr>pe_pane = example_pane, pe_attach_id = js ''a'', pe_collector_incarnation = js ''c''\<rparr>"

lemma example_hash_ok: "contract_hash example_hash"
  by (simp add: contract_hash_def example_hash_def hex_lower_def list_all_iff)

section \<open>Attach receipt sets\<close>

record receipt_entry =
  ae_ordinal :: int
  ae_operation_id :: jstr
  ae_commit_id :: jstr
  ae_digest :: jstr
  ae_rows :: int
  ae_payload_bytes :: int

record receipt_set =
  rs_revision :: int
  rs_transaction_id :: jstr
  rs_pane :: pane_key
  rs_epoch :: pipe_epoch
  rs_decision_id :: jstr
  rs_expected_generation :: int
  rs_entries :: "receipt_entry list"
  rs_terminal_commit_id :: jstr
  rs_aggregate_digest :: jstr

record rows_receipt =
  rc_kind :: string
  rc_operation_id :: jstr
  rc_commit_id :: jstr
  rc_generation :: int
  rc_coverage :: "coverage_part list"
  rc_digest :: jstr

definition entry_wire :: "receipt_entry \<Rightarrow> wire" where
  "entry_wire e = WObj [(''ordinal'', WInt (ae_ordinal e)), (''operationId'', WStr (ae_operation_id e)),
     (''commitId'', WStr (ae_commit_id e)), (''digest'', WStr (ae_digest e)), (''rows'', WInt (ae_rows e)),
     (''payloadBytes'', WInt (ae_payload_bytes e))]"

definition receipt_set_wire :: "receipt_set \<Rightarrow> wire" where
  "receipt_set_wire s = WObj [(''revision'', WInt (rs_revision s)), (''transactionId'', WStr (rs_transaction_id s)),
     (''pane'', pane_wire (rs_pane s)), (''epoch'', epoch_wire (rs_epoch s)), (''decisionId'', WStr (rs_decision_id s)),
     (''expectedGeneration'', WInt (rs_expected_generation s)), (''entries'', WArr (map entry_wire (rs_entries s))),
     (''terminalCommitId'', WStr (rs_terminal_commit_id s)), (''aggregateDigest'', WStr (rs_aggregate_digest s))]"

definition receipt_wire :: "rows_receipt \<Rightarrow> wire" where
  "receipt_wire r = WObj [(''kind'', ascii (rc_kind r)), (''operationId'', WStr (rc_operation_id r)),
     (''commitId'', WStr (rc_commit_id r)), (''generation'', WInt (rc_generation r)),
     (''coverage'', WArr (map coverage_wire (rc_coverage r))), (''digest'', WStr (rc_digest r))]"

definition receipt_set_entries_limit :: nat where
  "receipt_set_entries_limit = 256"

definition attach_receipt_set_digest :: "(jstr \<Rightarrow> jstr) \<Rightarrow> receipt_entry list \<Rightarrow> jstr" where
  "attach_receipt_set_digest sha es = digest_of sha ''attach-receipt-set-r2'' (WArr (map entry_wire es))"

fun part_pane :: "coverage_part \<Rightarrow> pane_key" where
  "part_pane (RowsPart r _) = rr_pane r"
| "part_pane (GapPart g _) = gp_pane g"

text \<open>The inner loop: the rows the parts of one receipt cover.\<close>

fun covered_rows :: "pane_key \<Rightarrow> coverage_part list \<Rightarrow> int \<Rightarrow> string + int" where
  "covered_rows pane [] n = Inr n"
| "covered_rows pane (part # parts) n =
     (if part_pane part \<noteq> pane then Inl ''attach cross-pane coverage''
      else case part of
             GapPart g dg \<Rightarrow> covered_rows pane parts n
           | RowsPart r dg \<Rightarrow>
               if \<not> contract_uint (rr_start r) \<or> \<not> contract_uint (rr_end r) then Inl ''contract unsafe counter''
               else if rr_end r < rr_start r then Inl ''attach inverted coverage''
               else covered_rows pane parts (n + (rr_end r - rr_start r)))"

text \<open>One entry with its receipt: the first check that fails.\<close>

definition entry_error :: "receipt_set \<Rightarrow> nat \<Rightarrow> jstr set \<Rightarrow> jstr set \<Rightarrow> receipt_entry \<Rightarrow> rows_receipt \<Rightarrow> string option" where
  "entry_error s i ids ops e r =
     (if \<not> contract_uint (ae_rows e) \<or> \<not> contract_uint (ae_payload_bytes e) then Some ''contract unsafe counter''
      else if \<not> contract_hash (ae_digest e) then Some ''contract invalid SHA-256''
      else if ae_ordinal e \<noteq> int i \<or> 256 < ae_rows e \<or> mib < ae_payload_bytes e \<or> ae_commit_id e = [] \<or>
        ae_operation_id e = [] \<or> ae_commit_id e \<in> ids \<or> ae_operation_id e \<in> ops \<or>
        rc_kind r \<noteq> ''rows-gaps-durable'' \<or> rc_commit_id r \<noteq> ae_commit_id e \<or>
        rc_operation_id r \<noteq> ae_operation_id e \<or> rc_digest r \<noteq> ae_digest e \<or>
        rc_generation r \<noteq> rs_expected_generation s
      then Some ''attach receipt order/identity''
      else case covered_rows (rs_pane s) (rc_coverage r) 0 of
             Inl msg \<Rightarrow> Some msg
           | Inr n \<Rightarrow> if n \<noteq> ae_rows e then Some ''attach row coverage'' else None)"

fun attach_loop :: "receipt_set \<Rightarrow> nat \<Rightarrow> jstr set \<Rightarrow> jstr set \<Rightarrow> (receipt_entry \<times> rows_receipt) list \<Rightarrow> string + coverage_part list" where
  "attach_loop s i ids ops [] = Inr []"
| "attach_loop s i ids ops ((e, r) # rest) =
     (case entry_error s i ids ops e r of
        Some msg \<Rightarrow> Inl msg
      | None \<Rightarrow>
          (case attach_loop s (Suc i) (insert (ae_commit_id e) ids) (insert (ae_operation_id e) ops) rest of
             Inl msg \<Rightarrow> Inl msg
           | Inr cov \<Rightarrow> Inr (rc_coverage r @ cov)))"

definition attach_coverage :: "(jstr \<Rightarrow> jstr) \<Rightarrow> receipt_set \<Rightarrow> rows_receipt list \<Rightarrow> string + coverage_part list" where
  "attach_coverage sha s receipts =
     (if rs_revision s \<noteq> 2 \<or> rs_transaction_id s = [] \<or> rs_decision_id s = [] \<or> rs_pane s \<noteq> pe_pane (rs_epoch s) \<or>
        rs_entries s = [] \<or> receipt_set_entries_limit < length (rs_entries s) \<or>
        length receipts \<noteq> length (rs_entries s) \<or> mib < int (canonical_bytes (receipt_set_wire s)) \<or>
        mib < int (canonical_bytes (WArr (map receipt_wire receipts)))
      then Inl ''attach manifest bound/identity''
      else if \<not> contract_uint (rs_expected_generation s) then Inl ''contract unsafe counter''
      else if rs_aggregate_digest s \<noteq> attach_receipt_set_digest sha (rs_entries s) then Inl ''attach aggregate digest''
      else case attach_loop s 0 {} {} (zip (rs_entries s) receipts) of
             Inl msg \<Rightarrow> Inl msg
           | Inr cov \<Rightarrow>
               if rs_terminal_commit_id s \<noteq> ae_commit_id (List.last (rs_entries s)) then Inl ''attach terminal receipt''
               else Inr cov)"

text \<open>What an accepted set is: the rows each receipt covers are counted once, in order, on one pane.\<close>

fun part_rows :: "coverage_part \<Rightarrow> int" where
  "part_rows (RowsPart r _) = rr_end r - rr_start r"
| "part_rows (GapPart _ _) = 0"

fun part_ok :: "pane_key \<Rightarrow> coverage_part \<Rightarrow> bool" where
  "part_ok pane (RowsPart r _) = (rr_pane r = pane \<and> contract_uint (rr_start r) \<and> contract_uint (rr_end r) \<and> rr_start r \<le> rr_end r)"
| "part_ok pane (GapPart g _) = (gp_pane g = pane)"

definition entry_accepts :: "receipt_set \<Rightarrow> nat \<Rightarrow> receipt_entry \<Rightarrow> rows_receipt \<Rightarrow> bool" where
  "entry_accepts s i e r \<longleftrightarrow>
     ae_ordinal e = int i \<and> 0 \<le> ae_rows e \<and> ae_rows e \<le> 256 \<and> 0 \<le> ae_payload_bytes e \<and> ae_payload_bytes e \<le> mib \<and>
     contract_hash (ae_digest e) \<and> ae_commit_id e \<noteq> [] \<and> ae_operation_id e \<noteq> [] \<and>
     r = \<lparr>rc_kind = ''rows-gaps-durable'', rc_operation_id = ae_operation_id e, rc_commit_id = ae_commit_id e,
          rc_generation = rs_expected_generation s, rc_coverage = rc_coverage r, rc_digest = ae_digest e\<rparr> \<and>
     list_all (part_ok (rs_pane s)) (rc_coverage r) \<and> ae_rows e = sum_list (map part_rows (rc_coverage r))"

lemma covered_rows_iff:
  "covered_rows pane parts n = Inr m \<longleftrightarrow> list_all (part_ok pane) parts \<and> m = n + sum_list (map part_rows parts)"
proof (induction parts arbitrary: n)
  case (Cons part parts)
  show ?case
  proof (cases part)
    case (RowsPart r dg)
    have "covered_rows pane (part # parts) n = Inr m \<longleftrightarrow>
        part_ok pane part \<and> covered_rows pane parts (n + (rr_end r - rr_start r)) = Inr m"
      by (simp add: RowsPart not_less) blast
    then show ?thesis unfolding Cons.IH by (simp add: RowsPart add.assoc)
  next
    case (GapPart g dg)
    then show ?thesis using Cons.IH by simp
  qed
qed auto

lemma entry_error_None_iff:
  "entry_error s i ids ops e r = None \<longleftrightarrow>
     entry_accepts s i e r \<and> ae_commit_id e \<notin> ids \<and> ae_operation_id e \<notin> ops"
proof -
  have mib: "x \<le> mib \<Longrightarrow> x \<le> max_safe" "x \<le> 256 \<Longrightarrow> x \<le> max_safe" for x by (simp_all add: mib_def max_safe_def)
  have cov: "(case covered_rows (rs_pane s) cs 0 of Inl msg \<Rightarrow> Some msg
      | Inr n \<Rightarrow> if n \<noteq> ae_rows e then Some ''attach row coverage'' else None) = None \<longleftrightarrow>
      list_all (part_ok (rs_pane s)) cs \<and> ae_rows e = sum_list (map part_rows cs)" for cs
    using covered_rows_iff[of "rs_pane s" cs 0] by (cases "covered_rows (rs_pane s) cs 0") auto
  show ?thesis
    unfolding entry_error_def entry_accepts_def
    by (cases r) (auto simp: cov contract_uint_def safe_nonneg_def mib split: if_splits)
qed

lemma attach_loop_iff:
  "attach_loop s i ids ops ers = Inr cov \<longleftrightarrow>
     (\<forall>k < length ers. entry_accepts s (i + k) (fst (ers ! k)) (snd (ers ! k))) \<and>
     distinct (map (ae_commit_id \<circ> fst) ers) \<and> distinct (map (ae_operation_id \<circ> fst) ers) \<and>
     (ae_commit_id \<circ> fst) ` set ers \<inter> ids = {} \<and> (ae_operation_id \<circ> fst) ` set ers \<inter> ops = {} \<and>
     cov = concat (map (rc_coverage \<circ> snd) ers)"
proof (induction ers arbitrary: i ids ops cov)
  case (Cons er ers)
  obtain e r where er: "er = (e, r)" by fastforce
  have all: "(\<forall>k < length (er # ers). entry_accepts s (i + k) (fst ((er # ers) ! k)) (snd ((er # ers) ! k))) \<longleftrightarrow>
      entry_accepts s i e r \<and> (\<forall>k < length ers. entry_accepts s (Suc i + k) (fst (ers ! k)) (snd (ers ! k)))"
    unfolding er by (simp add: All_less_Suc2)
  have IH: "attach_loop s (Suc i) (insert (ae_commit_id e) ids) (insert (ae_operation_id e) ops) ers = Inr c \<longleftrightarrow>
      (\<forall>k < length ers. entry_accepts s (Suc i + k) (fst (ers ! k)) (snd (ers ! k))) \<and>
      distinct (map (ae_commit_id \<circ> fst) ers) \<and> distinct (map (ae_operation_id \<circ> fst) ers) \<and>
      (ae_commit_id \<circ> fst) ` set ers \<inter> insert (ae_commit_id e) ids = {} \<and>
      (ae_operation_id \<circ> fst) ` set ers \<inter> insert (ae_operation_id e) ops = {} \<and>
      c = concat (map (rc_coverage \<circ> snd) ers)" for c
    by (rule Cons.IH)
  show ?case
  proof (cases "entry_error s i ids ops e r")
    case (Some msg)
    then show ?thesis unfolding all using entry_error_None_iff[of s i ids ops e r] by (auto simp: er)
  next
    case None
    then have ok: "entry_accepts s i e r" "ae_commit_id e \<notin> ids" "ae_operation_id e \<notin> ops"
      by (simp_all add: entry_error_None_iff)
    have "attach_loop s i ids ops (er # ers) = Inr cov \<longleftrightarrow>
        (\<exists>c. attach_loop s (Suc i) (insert (ae_commit_id e) ids) (insert (ae_operation_id e) ops) ers = Inr c \<and>
             cov = rc_coverage r @ c)"
      using None by (auto simp: er split: sum.split)
    also have "\<dots> \<longleftrightarrow>
        (\<forall>k < length ers. entry_accepts s (Suc i + k) (fst (ers ! k)) (snd (ers ! k))) \<and>
        distinct (map (ae_commit_id \<circ> fst) (er # ers)) \<and> distinct (map (ae_operation_id \<circ> fst) (er # ers)) \<and>
        (ae_commit_id \<circ> fst) ` set (er # ers) \<inter> ids = {} \<and> (ae_operation_id \<circ> fst) ` set (er # ers) \<inter> ops = {} \<and>
        cov = concat (map (rc_coverage \<circ> snd) (er # ers))"
      unfolding IH using ok(2,3) by (simp add: er) blast
    finally show ?thesis unfolding all using ok(1) by blast
  qed
qed auto

text \<open>
  C36: An attach receipt set is accepted exactly when it is in order and complete. The coverage
  returned is that of all receipts in entry order; entry \<open>k\<close> has ordinal \<open>k\<close> and its own receipt, from
  the expected generation, covering exactly the declared rows on the set's pane; no commit or operation
  occurs twice; the last commit is the terminal one and the aggregate digest is that of the entries.
\<close>

theorem attach_coverage_exact:
  "attach_coverage sha s receipts = Inr cov \<longleftrightarrow>
     rs_revision s = 2 \<and> rs_transaction_id s \<noteq> [] \<and> rs_decision_id s \<noteq> [] \<and> rs_pane s = pe_pane (rs_epoch s) \<and>
     0 < length (rs_entries s) \<and> length (rs_entries s) \<le> receipt_set_entries_limit \<and>
     length receipts = length (rs_entries s) \<and>
     int (canonical_bytes (receipt_set_wire s)) \<le> mib \<and> int (canonical_bytes (WArr (map receipt_wire receipts))) \<le> mib \<and>
     contract_uint (rs_expected_generation s) \<and>
     rs_aggregate_digest s = attach_receipt_set_digest sha (rs_entries s) \<and>
     (\<forall>k < length receipts. entry_accepts s k (rs_entries s ! k) (receipts ! k)) \<and>
     distinct (map ae_commit_id (rs_entries s)) \<and> distinct (map ae_operation_id (rs_entries s)) \<and>
     rs_terminal_commit_id s = ae_commit_id (List.last (rs_entries s)) \<and>
     cov = concat (map rc_coverage receipts)"
proof (cases "length receipts = length (rs_entries s)")
  case True
  have loop: "attach_loop s 0 {} {} (zip (rs_entries s) receipts) = Inr c \<longleftrightarrow>
      (\<forall>k < length receipts. entry_accepts s k (rs_entries s ! k) (receipts ! k)) \<and>
      distinct (map ae_commit_id (rs_entries s)) \<and> distinct (map ae_operation_id (rs_entries s)) \<and>
      c = concat (map rc_coverage receipts)" for c
    using True by (simp add: attach_loop_iff map_map[symmetric] del: map_map)
  have "attach_coverage sha s receipts = Inr cov \<longleftrightarrow>
      \<not> (rs_revision s \<noteq> 2 \<or> rs_transaction_id s = [] \<or> rs_decision_id s = [] \<or> rs_pane s \<noteq> pe_pane (rs_epoch s) \<or>
        rs_entries s = [] \<or> receipt_set_entries_limit < length (rs_entries s) \<or>
        mib < int (canonical_bytes (receipt_set_wire s)) \<or> mib < int (canonical_bytes (WArr (map receipt_wire receipts)))) \<and>
      contract_uint (rs_expected_generation s) \<and> rs_aggregate_digest s = attach_receipt_set_digest sha (rs_entries s) \<and>
      rs_terminal_commit_id s = ae_commit_id (List.last (rs_entries s)) \<and>
      attach_loop s 0 {} {} (zip (rs_entries s) receipts) = Inr cov"
    using True by (cases "attach_loop s 0 {} {} (zip (rs_entries s) receipts)") (simp_all add: attach_coverage_def, blast+)
  then show ?thesis unfolding loop using True by (simp add: not_less) blast
qed (simp add: attach_coverage_def)

definition example_entry :: receipt_entry where
  "example_entry = \<lparr>ae_ordinal = 0, ae_operation_id = js ''o'', ae_commit_id = js ''c'', ae_digest = example_hash,
     ae_rows = 3, ae_payload_bytes = 10\<rparr>"

definition example_receipt_set :: receipt_set where
  "example_receipt_set = \<lparr>rs_revision = 2, rs_transaction_id = js ''t'', rs_pane = example_pane, rs_epoch = example_epoch,
     rs_decision_id = js ''d'', rs_expected_generation = 1, rs_entries = [example_entry],
     rs_terminal_commit_id = js ''c'', rs_aggregate_digest = example_hash\<rparr>"

definition example_receipt :: rows_receipt where
  "example_receipt = \<lparr>rc_kind = ''rows-gaps-durable'', rc_operation_id = js ''o'', rc_commit_id = js ''c'', rc_generation = 1,
     rc_coverage = [RowsPart \<lparr>rr_pane = example_pane, rr_segment_id = js ''g'', rr_start = 4, rr_end = 7\<rparr> example_hash],
     rc_digest = example_hash\<rparr>"

lemma attach_coverage_exact_witness:
  "attach_coverage (\<lambda>_. example_hash) example_receipt_set [example_receipt] = Inr (rc_coverage example_receipt)"
proof -
  have "int (canonical_bytes (receipt_set_wire example_receipt_set)) \<le> mib"
    using canonical_bytes_bound[of "receipt_set_wire example_receipt_set"]
    by (simp add: receipt_set_wire_def example_receipt_set_def entry_wire_def example_entry_def epoch_wire_def
        pane_wire_def example_epoch_def example_pane_def example_hash_def sort_keys_def mib_def)
  moreover have "int (canonical_bytes (WArr (map receipt_wire [example_receipt]))) \<le> mib"
    using canonical_bytes_bound[of "WArr (map receipt_wire [example_receipt])"]
    by (simp add: receipt_wire_def example_receipt_def row_range_wire_def pane_wire_def example_pane_def
        example_hash_def ascii_def sort_keys_def mib_def)
  moreover have "attach_receipt_set_digest (\<lambda>_. example_hash) es = example_hash" for es
    by (simp add: attach_receipt_set_digest_def digest_of_def)
  ultimately show ?thesis
    unfolding attach_coverage_exact [of "\<lambda>_. example_hash" example_receipt_set "[example_receipt]"]
    using example_hash_ok
    by (simp add: example_receipt_set_def example_receipt_def example_entry_def example_epoch_def
        receipt_set_entries_limit_def contract_uint_def safe_nonneg_def max_safe_def entry_accepts_def mib_def)
qed

section \<open>Archive inventories\<close>

record member_mapping =
  mm_source_path :: jstr
  mm_relative_path :: jstr
  mm_bytes :: int
  mm_sha256 :: jstr

record archive_inventory =
  ai_revision :: int
  ai_seal_generation :: int
  ai_seal_commit_id :: jstr
  ai_seal_manifest_sha256 :: jstr
  ai_bundle_manifest_sha256 :: jstr
  ai_members :: "member_mapping list"

text \<open>The fields of a sealed export and of a bundle the comparison reads.\<close>

record sealed_export =
  se_store_uuid :: jstr
  se_pane :: pane_key
  se_segment_id :: jstr
  se_generation :: int
  se_coverage :: "coverage_part list"
  se_files :: "evidence_file list"
  se_manifest :: evidence_file
  se_seal_commit_id :: jstr

record archive_bundle =
  ab_store_uuid :: jstr
  ab_pane :: pane_key
  ab_segment_id :: jstr
  ab_coverage :: "coverage_part list"
  ab_manifest_sha256 :: jstr
  ab_members :: "evidence_file list"

definition forbidden_path_unit :: "cunit \<Rightarrow> bool" where
  "forbidden_path_unit u \<longleftrightarrow> u \<le> 31 \<or> u = 127 \<or> u = 58"

definition safe_relative_path :: "jstr \<Rightarrow> bool" where
  "safe_relative_path p \<longleftrightarrow> p \<noteq> [] \<and> 92 \<notin> set p \<and>
     \<not> list_ex (\<lambda>part. part = [] \<or> part = js ''.'' \<or> part = js ''..'') (split_units 47 p) \<and>
     \<not> list_ex forbidden_path_unit p"

definition same_file :: "member_mapping \<Rightarrow> evidence_file \<Rightarrow> bool" where
  "same_file m f \<longleftrightarrow> ev_bytes f = mm_bytes m \<and> ev_sha256 f = mm_sha256 m"

definition member_matches :: "evidence_file list \<Rightarrow> evidence_file list \<Rightarrow> member_mapping \<Rightarrow> bool" where
  "member_matches sources members m =
     (case (List.find (\<lambda>f. ev_path f = mm_source_path m) sources, List.find (\<lambda>f. ev_path f = mm_relative_path m) members) of
        (Some src, Some mem) \<Rightarrow> same_file m src \<and> same_file m mem
      | _ \<Rightarrow> False)"

fun inventory_loop :: "evidence_file list \<Rightarrow> evidence_file list \<Rightarrow> jstr set \<Rightarrow> jstr set \<Rightarrow> member_mapping list \<Rightarrow> bool" where
  "inventory_loop sources members used_source used_relative [] = True"
| "inventory_loop sources members used_source used_relative (m # ms) =
     (if \<not> safe_relative_path (mm_relative_path m) \<or> mm_source_path m \<in> used_source \<or>
        mm_relative_path m \<in> used_relative \<or> \<not> safe_nonneg (mm_bytes m) \<or> \<not> contract_hash (mm_sha256 m)
      then False
      else if \<not> member_matches sources members m then False
      else inventory_loop sources members (insert (mm_source_path m) used_source) (insert (mm_relative_path m) used_relative) ms)"

definition archive_inventory_matches :: "sealed_export \<Rightarrow> archive_bundle \<Rightarrow> archive_inventory \<Rightarrow> bool" where
  "archive_inventory_matches seal bundle inventory =
     (let sources = se_files seal @ [se_manifest seal] in
      if ai_revision inventory \<noteq> 2 \<or> ai_seal_generation inventory \<noteq> se_generation seal \<or>
        ai_seal_commit_id inventory \<noteq> se_seal_commit_id seal \<or>
        ai_seal_manifest_sha256 inventory \<noteq> ev_sha256 (se_manifest seal) \<or>
        ai_bundle_manifest_sha256 inventory \<noteq> ab_manifest_sha256 bundle \<or> ab_store_uuid bundle \<noteq> se_store_uuid seal \<or>
        ab_segment_id bundle \<noteq> se_segment_id seal \<or> ab_pane bundle \<noteq> se_pane seal \<or>
        ab_coverage bundle \<noteq> se_coverage seal \<or> length sources \<noteq> length (ai_members inventory) \<or>
        length (ab_members bundle) \<noteq> length sources \<or> 256 < length sources
      then False
      else inventory_loop sources (ab_members bundle) {} {} (ai_members inventory))"

lemma find_some_path:
  "List.find (\<lambda>f. ev_path f = p) fs = Some f \<Longrightarrow> f \<in> set fs \<and> ev_path f = p"
  by (auto simp: find_Some_iff)

lemma inventory_loop_sound:
  assumes "inventory_loop sources members us ur ms"
  shows "distinct (map mm_source_path ms) \<and> distinct (map mm_relative_path ms) \<and>
    mm_source_path ` set ms \<inter> us = {} \<and> mm_relative_path ` set ms \<inter> ur = {} \<and>
    (\<forall>m \<in> set ms. safe_relative_path (mm_relative_path m) \<and>
       (\<exists>f \<in> set sources. ev_path f = mm_source_path m \<and> same_file m f) \<and>
       (\<exists>f \<in> set members. ev_path f = mm_relative_path m \<and> same_file m f))"
  using assms
proof (induction sources members us ur ms rule: inventory_loop.induct)
  case (2 sources members us ur m ms)
  have guards: "safe_relative_path (mm_relative_path m)" "mm_source_path m \<notin> us" "mm_relative_path m \<notin> ur"
    "member_matches sources members m"
    and rest: "inventory_loop sources members (insert (mm_source_path m) us) (insert (mm_relative_path m) ur) ms"
    using "2.prems" by (auto split: if_splits)
  have here: "(\<exists>f \<in> set sources. ev_path f = mm_source_path m \<and> same_file m f) \<and>
      (\<exists>f \<in> set members. ev_path f = mm_relative_path m \<and> same_file m f)"
    using guards(4) by (auto simp: member_matches_def split: option.splits dest!: find_some_path)
  show ?case using "2.IH"[OF _ _ rest] guards here "2.prems" by (auto split: if_splits)
qed simp

text \<open>A list of \<open>n\<close> files whose paths are hit by \<open>n\<close> different mappings is hit completely.\<close>

lemma all_files_hit:
  assumes "length fs = length ms" "distinct (map h ms)" "h ` set ms \<subseteq> ev_path ` set fs"
  shows "distinct (map ev_path fs) \<and> ev_path ` set fs = h ` set ms"
proof -
  have "card (h ` set ms) = length ms" using distinct_card[OF assms(2)] by simp
  moreover have "card (ev_path ` set fs) \<le> length fs"
    using card_length[of "map ev_path fs"] by simp
  moreover have "card (h ` set ms) \<le> card (ev_path ` set fs)" by (rule card_mono) (simp_all add: assms(3))
  ultimately have c: "card (ev_path ` set fs) = length fs" using assms(1) by linarith
  then have "distinct (map ev_path fs)" by (intro card_distinct) simp
  moreover have "h ` set ms = ev_path ` set fs"
    using assms(1,3) c \<open>card (h ` set ms) = length ms\<close> by (intro card_subset_eq) simp_all
  ultimately show ?thesis by simp
qed

lemma hits_subset: "\<forall>m \<in> ms. \<exists>f \<in> fs. ev_path f = h m \<and> P m f \<Longrightarrow> h ` ms \<subseteq> ev_path ` fs"
  by (metis image_eqI image_subsetI)

text \<open>
  C37: A matching inventory accounts for every file. Each sealed file, the manifest included, and
  each member of the bundle is the file of exactly one mapping, with the same size and hash, under a
  relative path that stays inside the archive; no path occurs twice on either side.
\<close>

theorem inventory_accounts_for_all:
  assumes "archive_inventory_matches seal bundle inventory"
  shows "distinct (map ev_path (se_files seal @ [se_manifest seal])) \<and> distinct (map ev_path (ab_members bundle)) \<and>
    (\<forall>f \<in> set (se_files seal @ [se_manifest seal]). \<exists>!m. m \<in> set (ai_members inventory) \<and> mm_source_path m = ev_path f \<and> same_file m f) \<and>
    (\<forall>f \<in> set (ab_members bundle). \<exists>!m. m \<in> set (ai_members inventory) \<and> mm_relative_path m = ev_path f \<and> same_file m f \<and>
       safe_relative_path (mm_relative_path m))"
proof -
  let ?src = "se_files seal @ [se_manifest seal]" and ?ms = "ai_members inventory" and ?mem = "ab_members bundle"
  have loop: "inventory_loop ?src ?mem {} {} ?ms" and len: "length ?src = length ?ms" "length ?mem = length ?ms"
    using assms by (auto simp: archive_inventory_matches_def Let_def split: if_splits)
  note L = inventory_loop_sound[OF loop]
  have one: "\<exists>!m. m \<in> set ?ms \<and> h m = ev_path f \<and> same_file m f \<and> Q m"
    if d: "distinct (map h ?ms)" and hit: "\<forall>m \<in> set ?ms. Q m \<and> (\<exists>g \<in> set fs. ev_path g = h m \<and> same_file m g)"
      and fs: "length fs = length ?ms" and f: "f \<in> set fs" for h Q fs f
  proof -
    have "h ` set ?ms \<subseteq> ev_path ` set fs" using hit by (intro hits_subset[where P = same_file]) blast
    note A = all_files_hit[OF fs d this]
    obtain m where m: "m \<in> set ?ms" "h m = ev_path f" using A f by (metis imageE imageI)
    obtain g where g: "g \<in> set fs" "ev_path g = h m" "same_file m g" using hit m(1) by blast
    have "g = f" using A g m(2) f by (metis distinct_map inj_onD)
    then show ?thesis using m g(3) d hit by (metis distinct_map inj_onD)
  qed
  have D: "distinct (map ev_path ?src)" "distinct (map ev_path ?mem)"
    using all_files_hit[OF len(1), of mm_source_path] all_files_hit[OF len(2), of mm_relative_path] L
      hits_subset[of "set ?ms" "set ?src" mm_source_path same_file]
      hits_subset[of "set ?ms" "set ?mem" mm_relative_path same_file] by blast+
  have "\<exists>!m. m \<in> set ?ms \<and> mm_source_path m = ev_path f \<and> same_file m f" if "f \<in> set ?src" for f
    using one[of mm_source_path "\<lambda>_. True" ?src f] L len(1) that by simp
  moreover have "\<exists>!m. m \<in> set ?ms \<and> mm_relative_path m = ev_path f \<and> same_file m f \<and> safe_relative_path (mm_relative_path m)"
    if "f \<in> set ?mem" for f
    using one[of mm_relative_path "\<lambda>m. safe_relative_path (mm_relative_path m)" ?mem f] L len(2) that by simp
  ultimately show ?thesis using D by blast
qed

definition example_file :: "string \<Rightarrow> evidence_file" where
  "example_file p = \<lparr>ev_path = js p, ev_bytes = 5, ev_sha256 = example_hash\<rparr>"

definition example_mapping :: "string \<Rightarrow> string \<Rightarrow> member_mapping" where
  "example_mapping p q = \<lparr>mm_source_path = js p, mm_relative_path = js q, mm_bytes = 5, mm_sha256 = example_hash\<rparr>"

definition example_seal :: sealed_export where
  "example_seal = \<lparr>se_store_uuid = [], se_pane = example_pane, se_segment_id = [], se_generation = 1, se_coverage = [],
     se_files = [example_file ''/d/a''], se_manifest = example_file ''/d/m'', se_seal_commit_id = []\<rparr>"

definition example_bundle :: archive_bundle where
  "example_bundle = \<lparr>ab_store_uuid = [], ab_pane = example_pane, ab_segment_id = [], ab_coverage = [],
     ab_manifest_sha256 = [], ab_members = [example_file ''x/a'', example_file ''m'']\<rparr>"

definition example_inventory :: archive_inventory where
  "example_inventory = \<lparr>ai_revision = 2, ai_seal_generation = 1, ai_seal_commit_id = [],
     ai_seal_manifest_sha256 = example_hash, ai_bundle_manifest_sha256 = [],
     ai_members = [example_mapping ''/d/m'' ''m'', example_mapping ''/d/a'' ''x/a'']\<rparr>"

lemma inventory_accounts_for_all_witness:
  "\<exists>!m. m \<in> set (ai_members example_inventory) \<and> mm_source_path m = js ''/d/a'' \<and> same_file m (example_file ''/d/a'')"
proof -
  have "archive_inventory_matches example_seal example_bundle example_inventory"
    using example_hash_ok
    by (simp add: archive_inventory_matches_def example_seal_def example_bundle_def example_inventory_def
        example_file_def example_mapping_def member_matches_def same_file_def safe_relative_path_def
        forbidden_path_unit_def safe_nonneg_def max_safe_def)
  from inventory_accounts_for_all [OF this] show ?thesis by (simp add: example_seal_def example_file_def)
qed

end
