(* ===== verification/Control_Replay.thy ===== *)
theory Control_Replay
  imports Stream_Contract
begin

text \<open>
  More checks of \<open>server/src/stream-contract.ts\<close>: replaying a page of the durable control journal
  (\<open>replayOrderedControls\<close>), gap identities and updates, read grants and legacy readback claims.
\<close>

section \<open>The control journal\<close>

datatype control_payload =
    GeometryControl geometry geometry
  | NamedControl jstr jstr

record ordered_control =
  oc_revision :: int
  oc_event_id :: jstr
  oc_position :: raw_position
  oc_order :: int
  oc_decoder_version :: jstr
  oc_payload :: control_payload
  oc_digest :: jstr

record control_entry =
  ce_commit_id :: jstr
  ce_event :: ordered_control

text \<open>The fields of a replay watermark that a control read depends on.\<close>

record replay_watermark =
  wm_revision :: int
  wm_pane :: pane_key
  wm_checkpoint_id :: jstr
  wm_through :: raw_position
  wm_control_order :: int
  wm_decoder_version :: jstr

record control_read =
  cr_pane :: pane_key
  cr_after :: replay_watermark
  cr_cursor :: "jstr option"
  cr_max_entries :: int
  cr_max_bytes :: int

record control_page =
  cp_revision :: int
  cp_pane :: pane_key
  cp_checkpoint_id :: jstr
  cp_entries :: "control_entry list"
  cp_payload_bytes :: int
  cp_next :: "jstr option"
  cp_at_durable_head :: bool

record control_replay =
  cx_last :: "ordered_control option"
  cx_geometry :: geometry

fun payload_wire :: "control_payload \<Rightarrow> wire" where
  "payload_wire (GeometryControl b a) =
     WObj [(''kind'', ascii ''geometry''), (''before'', geometry_wire b), (''after'', geometry_wire a)]"
| "payload_wire (NamedControl n d) = WObj [(''kind'', ascii ''control''), (''name'', WStr n), (''data'', WStr d)]"

definition control_fields :: "ordered_control \<Rightarrow> (string \<times> wire) list" where
  "control_fields c =
     [(''revision'', WInt (oc_revision c)), (''eventId'', WStr (oc_event_id c)),
      (''position'', raw_position_wire (oc_position c)), (''order'', WInt (oc_order c)),
      (''decoderVersion'', WStr (oc_decoder_version c)), (''payload'', payload_wire (oc_payload c))]"

definition control_entry_wire :: "control_entry \<Rightarrow> wire" where
  "control_entry_wire e = WObj [(''commitId'', WStr (ce_commit_id e)),
     (''event'', WObj (control_fields (ce_event e) @ [(''digest'', WStr (oc_digest (ce_event e)))]))]"

definition ordered_control_digest :: "(jstr \<Rightarrow> jstr) \<Rightarrow> ordered_control \<Rightarrow> jstr" where
  "ordered_control_digest sha c = digest_of sha ''ordered-control-r2'' (WObj (control_fields c))"

definition read_entries_limit :: int where
  "read_entries_limit = 256"

definition offset_of :: "ordered_control \<Rightarrow> int" where
  "offset_of c = rp_byte_offset (oc_position c)"

definition geometry_positive :: "geometry \<Rightarrow> bool" where
  "geometry_positive g \<longleftrightarrow> safe_int (geo_columns g) \<and> 1 \<le> geo_columns g \<and> safe_int (geo_rows g) \<and> 1 \<le> geo_rows g"

fun payload_step :: "geometry \<Rightarrow> control_payload \<Rightarrow> string + geometry" where
  "payload_step geo (GeometryControl b a) =
     (if \<not> geometry_positive b \<or> \<not> geometry_positive a then Inl ''control geometry''
      else if b \<noteq> geo then Inl ''control geometry chain'' else Inr a)"
| "payload_step geo (NamedControl n d) = (if n = [] then Inl ''control name'' else Inr geo)"

text \<open>The checks of one entry, in order, up to its payload.\<close>

definition control_entry_error ::
  "(jstr \<Rightarrow> jstr) \<Rightarrow> replay_watermark \<Rightarrow> int \<times> int \<Rightarrow> jstr set \<Rightarrow> control_entry \<Rightarrow> string option" where
  "control_entry_error sha w prev ids e =
     (let ev = ce_event e in
      if \<not> contract_uint (offset_of ev) \<or> \<not> contract_uint (oc_order ev) then Some ''contract unsafe counter''
      else if \<not> contract_hash (oc_digest ev) then Some ''contract invalid SHA-256''
      else if ce_commit_id e = [] \<or> ce_commit_id e \<in> ids \<or> oc_revision ev \<noteq> 2 \<or> oc_event_id ev = [] \<or>
        ordered_control_digest sha ev \<noteq> oc_digest ev
      then Some ''control entry identity/digest''
      else if rp_epoch (oc_position ev) \<noteq> rp_epoch (wm_through w) then Some ''control entry epoch''
      else if oc_decoder_version ev \<noteq> wm_decoder_version w then Some ''control entry decoder version''
      else if offset_of ev < fst prev \<or> (offset_of ev = fst prev \<and> oc_order ev \<le> snd prev)
      then Some ''control entry not after watermark/previous''
      else None)"

fun control_loop ::
  "(jstr \<Rightarrow> jstr) \<Rightarrow> replay_watermark \<Rightarrow> int \<times> int \<Rightarrow> geometry \<Rightarrow> jstr set \<Rightarrow> control_entry list \<Rightarrow> string + geometry" where
  "control_loop sha w prev geo ids [] = Inr geo"
| "control_loop sha w prev geo ids (e # es) =
     (case control_entry_error sha w prev ids e of
        Some msg \<Rightarrow> Inl msg
      | None \<Rightarrow>
          (case payload_step geo (oc_payload (ce_event e)) of
             Inl msg \<Rightarrow> Inl msg
           | Inr geo' \<Rightarrow>
               control_loop sha w (offset_of (ce_event e), oc_order (ce_event e)) geo' (insert (ce_commit_id e) ids) es))"

definition control_start :: "replay_watermark \<Rightarrow> control_replay \<Rightarrow> int \<times> int" where
  "control_start w carried =
     (case cx_last carried of
        None \<Rightarrow> (rp_byte_offset (wm_through w), wm_control_order w)
      | Some c \<Rightarrow> (offset_of c, oc_order c))"

definition replay_ordered_controls ::
  "(jstr \<Rightarrow> jstr) \<Rightarrow> control_read \<Rightarrow> control_page \<Rightarrow> control_replay \<Rightarrow> string + (ordered_control list \<times> control_replay)" where
  "replay_ordered_controls sha request page carried =
     (let w = cr_after request in
      if \<not> contract_uint (cr_max_entries request) \<or> \<not> contract_uint (cr_max_bytes request) then Inl ''contract unsafe counter''
      else if cr_max_entries request < 1 \<or> read_entries_limit < cr_max_entries request \<or>
        cr_max_bytes request < 1 \<or> mib < cr_max_bytes request then Inl ''control read bound''
      else if wm_revision w \<noteq> 2 \<or> wm_pane w \<noteq> cr_pane request \<or> pe_pane (rp_epoch (wm_through w)) \<noteq> cr_pane request \<or>
        cp_revision page \<noteq> 2 \<or> cp_pane page \<noteq> cr_pane request \<or> cp_checkpoint_id page \<noteq> wm_checkpoint_id w
      then Inl ''control read identity''
      else if (cr_cursor request = None) \<noteq> (cx_last carried = None) then Inl ''control read cursor/carried mismatch''
      else if cr_max_entries request < int (length (cp_entries page)) \<or> cr_max_bytes request < cp_payload_bytes page \<or>
        cp_payload_bytes page \<noteq> int (canonical_bytes (WArr (map control_entry_wire (cp_entries page))))
      then Inl ''control page bound''
      else if cp_at_durable_head page \<noteq> (cp_next page = None) \<or> (\<not> cp_at_durable_head page \<and> cp_entries page = [])
      then Inl ''control page continuation''
      else if \<not> contract_uint (rp_byte_offset (wm_through w)) \<or> \<not> contract_uint (wm_control_order w)
      then Inl ''contract unsafe counter''
      else case control_loop sha w (control_start w carried) (cx_geometry carried) {} (cp_entries page) of
             Inl msg \<Rightarrow> Inl msg
           | Inr geo \<Rightarrow>
               (let events = map ce_event (cp_entries page) in
                Inr (events, \<lparr>cx_last = (if events = [] then cx_last carried else Some (List.last events)), cx_geometry = geo\<rparr>)))"

section \<open>Replaying page after page\<close>

text \<open>The order of the journal, and the geometry a run of controls leaves.\<close>

definition after_position :: "int \<times> int \<Rightarrow> int \<times> int \<Rightarrow> bool" where
  "after_position p q \<longleftrightarrow> fst p < fst q \<or> (fst p = fst q \<and> snd p < snd q)"

definition position_key :: "ordered_control \<Rightarrow> int \<times> int" where
  "position_key c = (offset_of c, oc_order c)"

fun geometry_chain :: "geometry \<Rightarrow> ordered_control list \<Rightarrow> geometry option" where
  "geometry_chain geo [] = Some geo"
| "geometry_chain geo (c # cs) =
     (case oc_payload c of
        GeometryControl b a \<Rightarrow> if b = geo then geometry_chain a cs else None
      | NamedControl n d \<Rightarrow> geometry_chain geo cs)"

definition control_ok :: "(jstr \<Rightarrow> jstr) \<Rightarrow> replay_watermark \<Rightarrow> ordered_control \<Rightarrow> bool" where
  "control_ok sha w c \<longleftrightarrow> oc_revision c = 2 \<and> rp_epoch (oc_position c) = rp_epoch (wm_through w) \<and>
     oc_decoder_version c = wm_decoder_version w \<and> oc_digest c = ordered_control_digest sha c"

fun replay_pages ::
  "(jstr \<Rightarrow> jstr) \<Rightarrow> (control_read \<times> control_page) list \<Rightarrow> control_replay \<Rightarrow> string + (ordered_control list \<times> control_replay)" where
  "replay_pages sha [] carried = Inr ([], carried)"
| "replay_pages sha ((request, page) # rest) carried =
     (case replay_ordered_controls sha request page carried of
        Inl msg \<Rightarrow> Inl msg
      | Inr (events, carried') \<Rightarrow>
          (case replay_pages sha rest carried' of
             Inl msg \<Rightarrow> Inl msg
           | Inr (events', final) \<Rightarrow> Inr (events @ events', final)))"

lemma after_position_trans: "after_position p q \<Longrightarrow> after_position q r \<Longrightarrow> after_position p r"
  by (auto simp: after_position_def)

text \<open>A run of controls that starts after \<open>p\<close> with geometry \<open>geo\<close> and ends at \<open>q\<close> with \<open>geo'\<close>.\<close>

definition control_run ::
  "(jstr \<Rightarrow> jstr) \<Rightarrow> replay_watermark \<Rightarrow> int \<times> int \<Rightarrow> geometry \<Rightarrow> ordered_control list \<Rightarrow> int \<times> int \<Rightarrow> geometry \<Rightarrow> bool" where
  "control_run sha w p geo cs q geo' \<longleftrightarrow>
     sorted_wrt after_position (p # map position_key cs) \<and> q = List.last (p # map position_key cs) \<and>
     geometry_chain geo cs = Some geo' \<and> list_all (control_ok sha w) cs"

lemma control_run_Nil [simp]: "control_run sha w p geo [] q geo' \<longleftrightarrow> q = p \<and> geo' = geo"
  by (auto simp: control_run_def)

lemma control_run_Cons:
  "control_run sha w p geo (c # cs) q geo' \<longleftrightarrow>
     after_position p (position_key c) \<and> control_ok sha w c \<and>
     (\<exists>g. geometry_chain geo [c] = Some g \<and> control_run sha w (position_key c) g cs q geo')"
  by (auto simp: control_run_def intro: after_position_trans split: control_payload.splits if_splits)

lemma control_run_append:
  "control_run sha w p geo cs q g \<Longrightarrow> control_run sha w q g ds r geo' \<Longrightarrow> control_run sha w p geo (cs @ ds) r geo'"
proof (induction cs arbitrary: p geo)
  case (Cons c cs)
  then show ?case unfolding append_Cons control_run_Cons by blast
qed simp

lemma control_loop_run:
  assumes "control_loop sha w prev geo ids es = Inr geo'"
  shows "control_run sha w prev geo (map ce_event es) (List.last (prev # map (position_key \<circ> ce_event) es)) geo'"
  using assms
proof (induction es arbitrary: prev geo ids)
  case (Cons e es)
  have ok: "control_entry_error sha w prev ids e = None"
    using Cons.prems by (auto split: option.splits)
  obtain g where g: "payload_step geo (oc_payload (ce_event e)) = Inr g"
    and rest: "control_loop sha w (position_key (ce_event e)) g (insert (ce_commit_id e) ids) es = Inr geo'"
    using Cons.prems ok by (auto simp: position_key_def split: sum.splits)
  have "after_position prev (position_key (ce_event e))" "control_ok sha w (ce_event e)"
    using ok by (auto simp: control_entry_error_def Let_def after_position_def position_key_def control_ok_def split: if_splits)
  moreover have "geometry_chain geo [ce_event e] = Some g"
    using g by (cases "oc_payload (ce_event e)") (auto split: if_splits)
  ultimately show ?case using Cons.IH[OF rest] by (auto simp: control_run_Cons comp_def)
qed simp

lemma replay_page_run:
  assumes "replay_ordered_controls sha request page carried = Inr (events, carried')" "cr_after request = w"
  shows "events = map ce_event (cp_entries page) \<and>
    control_run sha w (control_start w carried) (cx_geometry carried) events (control_start w carried') (cx_geometry carried')"
proof -
  obtain geo where loop: "control_loop sha w (control_start w carried) (cx_geometry carried) {} (cp_entries page) = Inr geo"
    and ev: "events = map ce_event (cp_entries page)"
    and c': "carried' = \<lparr>cx_last = (if events = [] then cx_last carried else Some (List.last events)), cx_geometry = geo\<rparr>"
    using assms by (auto simp: replay_ordered_controls_def Let_def split: if_splits sum.splits)
  have "List.last (control_start w carried # map (position_key \<circ> ce_event) (cp_entries page)) = control_start w carried'"
    using ev c' by (cases "cp_entries page" rule: rev_cases)
      (simp_all add: control_start_def position_key_def split: option.splits)
  then show ?thesis using control_loop_run[OF loop] ev c' by simp
qed

text \<open>
  C7: Paged control replay is one ordered replay. However the journal is cut into pages, an accepted
  sequence of pages read after one watermark applies exactly their events in order: every event lies
  strictly after the watermark and strictly after the one before it, belongs to the watermark's epoch and
  decoder version with a digest that matches its content, each geometry change starts from the geometry
  in force, and the carried geometry is the one the whole sequence leaves.
\<close>

theorem paged_replay_is_ordered:
  assumes "replay_pages sha pages \<lparr>cx_last = None, cx_geometry = geo\<rparr> = Inr (events, final)"
    and "\<forall>(request, page) \<in> set pages. cr_after request = w"
  shows "events = concat (map (\<lambda>(request, page). map ce_event (cp_entries page)) pages) \<and>
    sorted_wrt after_position ((rp_byte_offset (wm_through w), wm_control_order w) # map position_key events) \<and>
    list_all (control_ok sha w) events \<and> geometry_chain geo events = Some (cx_geometry final)"
proof -
  have main: "events = concat (map (\<lambda>(request, page). map ce_event (cp_entries page)) pages) \<and>
      control_run sha w (control_start w carried) (cx_geometry carried) events (control_start w final) (cx_geometry final)"
    if "replay_pages sha pages carried = Inr (events, final)" "\<forall>(request, page) \<in> set pages. cr_after request = w"
    for pages carried events
    using that
  proof (induction pages arbitrary: carried events)
    case (Cons rp rest)
    obtain request page where rp: "rp = (request, page)" by fastforce
    obtain ev1 carried' ev2 where one: "replay_ordered_controls sha request page carried = Inr (ev1, carried')"
      and more: "replay_pages sha rest carried' = Inr (ev2, final)" and ev: "events = ev1 @ ev2"
      using Cons.prems(1) by (auto simp: rp split: sum.splits prod.splits)
    have "cr_after request = w" using Cons.prems(2) rp by auto
    note P = replay_page_run[OF one this]
    have Q: "ev2 = concat (map (\<lambda>(request, page). map ce_event (cp_entries page)) rest) \<and>
        control_run sha w (control_start w carried') (cx_geometry carried') ev2 (control_start w final) (cx_geometry final)"
      using Cons.prems(2) by (intro Cons.IH[OF more]) simp
    show ?case using P Q control_run_append by (fastforce simp: ev rp)
  qed simp
  have "control_run sha w (control_start w \<lparr>cx_last = None, cx_geometry = geo\<rparr>) geo events (control_start w final) (cx_geometry final)"
    using main[OF assms, THEN conjunct2] by simp
  then show ?thesis using main[OF assms] by (simp add: control_run_def control_start_def)
qed

text \<open>Two pages of one control each, with a constant digest.\<close>

definition example_control :: "int \<Rightarrow> int \<Rightarrow> control_payload \<Rightarrow> control_entry" where
  "example_control off ord payload = \<lparr>ce_commit_id = js ''k'', ce_event =
     \<lparr>oc_revision = 2, oc_event_id = js ''e'', oc_position = \<lparr>rp_epoch = example_epoch, rp_byte_offset = off\<rparr>,
      oc_order = ord, oc_decoder_version = js ''v'', oc_payload = payload, oc_digest = example_hash\<rparr>\<rparr>"

definition example_geometry :: "int \<Rightarrow> geometry" where
  "example_geometry n = \<lparr>geo_columns = n, geo_rows = 24\<rparr>"

definition example_watermark :: replay_watermark where
  "example_watermark = \<lparr>wm_revision = 2, wm_pane = example_pane, wm_checkpoint_id = js ''cp'',
     wm_through = \<lparr>rp_epoch = example_epoch, rp_byte_offset = 5\<rparr>, wm_control_order = 0, wm_decoder_version = js ''v''\<rparr>"

definition example_read :: "jstr option \<Rightarrow> control_read" where
  "example_read cursor = \<lparr>cr_pane = example_pane, cr_after = example_watermark, cr_cursor = cursor,
     cr_max_entries = 4, cr_max_bytes = 65536\<rparr>"

definition example_page :: "control_entry \<Rightarrow> jstr option \<Rightarrow> control_page" where
  "example_page e next = \<lparr>cp_revision = 2, cp_pane = example_pane, cp_checkpoint_id = js ''cp'', cp_entries = [e],
     cp_payload_bytes = int (canonical_bytes (WArr [control_entry_wire e])), cp_next = next, cp_at_durable_head = (next = None)\<rparr>"

definition example_pages :: "(control_read \<times> control_page) list" where
  "example_pages =
     [(example_read None, example_page (example_control 5 1 (GeometryControl (example_geometry 80) (example_geometry 90))) (Some (js ''t''))),
      (example_read (Some (js ''t'')), example_page (example_control 5 2 (NamedControl (js ''n'') [])) None)]"

lemmas example_defs = example_control_def example_geometry_def example_page_def example_read_def example_watermark_def
  example_epoch_def example_pane_def example_hash_def

lemma example_page_small:
  "payload = GeometryControl (example_geometry 80) (example_geometry 90) \<or> payload = NamedControl (js ''n'') [] \<Longrightarrow>
   n \<in> {1, 2} \<Longrightarrow> int (canonical_bytes (WArr [control_entry_wire (example_control 5 n payload)])) \<le> 65536"
  using canonical_bytes_bound[of "WArr [control_entry_wire (example_control 5 n payload)]"]
  by (auto simp: example_defs control_entry_wire_def control_fields_def sort_keys_def raw_position_wire_def
      epoch_wire_def pane_wire_def geometry_wire_def ascii_def)

lemma example_pages_replay:
  "\<exists>events final. replay_pages (\<lambda>_. example_hash) example_pages \<lparr>cx_last = None, cx_geometry = example_geometry 80\<rparr> =
     Inr (events, final) \<and> length events = 2 \<and> cx_geometry final = example_geometry 90"
proof -
  have "ordered_control_digest (\<lambda>_. example_hash) c = example_hash" for c
    by (simp add: ordered_control_digest_def digest_of_def)
  then show ?thesis
    using example_page_small[of "GeometryControl (example_geometry 80) (example_geometry 90)" 1]
      example_page_small[of "NamedControl (js ''n'') []" 2] example_hash_ok
    by (simp add: example_pages_def replay_ordered_controls_def example_read_def example_page_def example_watermark_def
      example_control_def contract_uint_def safe_nonneg_def max_safe_def read_entries_limit_def mib_def
      control_start_def control_entry_error_def offset_of_def example_epoch_def geometry_positive_def safe_int_def
      example_geometry_def Let_def)
qed

lemma paged_replay_is_ordered_witness:
  "\<exists>events. length events = 2 \<and> geometry_chain (example_geometry 80) events = Some (example_geometry 90)"
proof -
  obtain events final where r: "replay_pages (\<lambda>_. example_hash) example_pages \<lparr>cx_last = None, cx_geometry = example_geometry 80\<rparr> =
      Inr (events, final)" and l: "length events = 2" "cx_geometry final = example_geometry 90"
    using example_pages_replay by (elim exE conjE)
  have "\<forall>(request, page) \<in> set example_pages. cr_after request = example_watermark"
    by (simp add: example_pages_def example_read_def)
  from paged_replay_is_ordered [OF r this] show ?thesis using l by auto
qed

section \<open>Gap identities and updates\<close>

datatype repair_state = GapOpen | GapClosed

record gap_r2 = contract_gap +
  gr_revision :: int
  gr_gap_id :: jstr
  gr_sequence :: int
  gr_update :: int
  gr_state :: repair_state

text \<open>Legacy gaps have no repair identity and live in a namespace of their own.\<close>

definition gap_v1_identity :: "contract_gap \<Rightarrow> jstr" where
  "gap_v1_identity g = json_text (canonical_value (WArr [ascii ''gap-v1'', pane_wire (gp_pane g), WStr (gp_episode_id g)]))"

definition gap_identity_value :: "gap_r2 \<Rightarrow> wire" where
  "gap_identity_value g = WArr [ascii ''gap-r2'', pane_wire (gp_pane g), WStr (gp_episode_id g),
     WStr (gr_gap_id g), WInt (gr_sequence g)]"

definition gap_r2_identity :: "gap_r2 \<Rightarrow> string + jstr" where
  "gap_r2_identity g =
     (if gr_revision g \<noteq> 2 \<or> gr_gap_id g = [] then Inl ''unsupported gap identity''
      else if \<not> contract_uint (gr_sequence g) \<or> \<not> contract_uint (gr_update g) then Inl ''contract unsafe counter''
      else Inr (json_text (canonical_value (gap_identity_value g))))"

definition valid_gap_update :: "gap_r2 \<Rightarrow> gap_r2 \<Rightarrow> string + bool" where
  "valid_gap_update previous next =
     (case gap_r2_identity previous of Inl e \<Rightarrow> Inl e
      | Inr a \<Rightarrow>
         (case gap_r2_identity next of Inl e \<Rightarrow> Inl e
          | Inr b \<Rightarrow> Inr (a = b \<and> gr_state previous = GapOpen \<and> gr_update next = gr_update previous + 1 \<and>
              gp_left_row_id previous = gp_left_row_id next \<and> gp_opened_at previous = gp_opened_at next \<and>
              gp_clock_epoch previous = gp_clock_epoch next \<and> gp_withheld_rows previous \<le> gp_withheld_rows next \<and>
              (if gr_state next = GapClosed then gp_closed_at next \<noteq> None else gp_closed_at next = None))))"

lemma pane_wire_inject: "canonical_value (pane_wire p) = canonical_value (pane_wire q) \<longleftrightarrow> p = (q :: pane_key)"
  by (cases p; cases q) (auto simp: pane_wire_def sort_keys_def)

lemma gap_identity_inject:
  "json_text (canonical_value (gap_identity_value g)) = json_text (canonical_value (gap_identity_value h)) \<longleftrightarrow>
     gp_pane g = gp_pane h \<and> gp_episode_id g = gp_episode_id h \<and> gr_gap_id g = gr_gap_id h \<and> gr_sequence g = gr_sequence h"
  unfolding json_text_inject by (simp add: gap_identity_value_def pane_wire_inject)

text \<open>A gap keeps its identity through any number of updates, and only the last one can close it.\<close>

fun gap_history :: "gap_r2 \<Rightarrow> gap_r2 list \<Rightarrow> bool" where
  "gap_history g [] = True"
| "gap_history g (h # hs) = (valid_gap_update g h = Inr True \<and> gap_history h hs)"

lemma gap_update_props:
  assumes "valid_gap_update g h = Inr True"
  shows "gp_pane h = gp_pane g \<and> gp_episode_id h = gp_episode_id g \<and> gr_gap_id h = gr_gap_id g \<and>
    gr_sequence h = gr_sequence g \<and> gr_update h = gr_update g + 1 \<and> gp_withheld_rows g \<le> gp_withheld_rows h \<and>
    gr_state g = GapOpen"
  using assms
  by (auto simp: valid_gap_update_def gap_r2_identity_def gap_identity_inject split: if_splits sum.splits)

lemma gap_history_props:
  assumes "gap_history g hs" "h \<in> set hs"
  shows "gp_pane h = gp_pane g \<and> gp_episode_id h = gp_episode_id g \<and> gr_gap_id h = gr_gap_id g \<and>
    gr_sequence h = gr_sequence g \<and> gp_withheld_rows g \<le> gp_withheld_rows h"
  using assms
proof (induction hs arbitrary: g)
  case (Cons k hs)
  then show ?case using gap_update_props[of g k] by (cases "h = k") fastforce+
qed simp

section \<open>Read grants and legacy readback\<close>

record read_open =
  ro_durable_at_grant :: int
  ro_disk_snapshot_revision :: int
  ro_grant_revision :: int
  ro_head_at_grant :: int
  ro_range_start :: int
  ro_range_end :: int

definition valid_read_open :: "read_open \<Rightarrow> bool" where
  "valid_read_open a \<longleftrightarrow>
     list_all safe_nonneg [ro_durable_at_grant a, ro_disk_snapshot_revision a, ro_grant_revision a, ro_head_at_grant a,
       ro_range_start a, ro_range_end a] \<and>
     ro_durable_at_grant a \<le> ro_disk_snapshot_revision a \<and> ro_disk_snapshot_revision a \<le> ro_grant_revision a \<and>
     ro_range_start a \<le> ro_range_end a \<and> ro_range_end a \<le> ro_head_at_grant a"

record legacy_readback =
  lr_kind :: jstr
  lr_revision :: int
  lr_receipt_commit_id :: jstr
  lr_coverage_digest :: jstr
  lr_readback_digest :: jstr

definition legacy_readback_matches :: "legacy_readback \<Rightarrow> legacy_readback \<Rightarrow> bool" where
  "legacy_readback_matches claimed authority \<longleftrightarrow>
     lr_kind claimed = js ''legacy-readback-r2'' \<and> lr_kind authority = lr_kind claimed \<and>
     lr_revision claimed = 2 \<and> lr_revision authority = 2 \<and> lr_receipt_commit_id claimed \<noteq> [] \<and>
     contract_hash (lr_coverage_digest claimed) \<and> contract_hash (lr_readback_digest claimed) \<and> claimed = authority"

definition event_key :: "pane_key \<Rightarrow> int \<Rightarrow> int \<Rightarrow> int \<Rightarrow> jstr" where
  "event_key p source_epoch packet_seq scroll_ordinal =
     json_text (WArr [WStr (pk_server_identity p), WStr (pk_pane_id p), WInt (pk_birth_generation p),
       WInt source_epoch, WInt packet_seq, WInt scroll_ordinal])"

definition row_key_text :: "pane_key \<Rightarrow> int \<Rightarrow> jstr" where
  "row_key_text p line_id =
     json_text (WArr [WStr (pk_server_identity p), WStr (pk_pane_id p), WInt (pk_birth_generation p), WInt line_id])"

lemma keys_unambiguous:
  "event_key p a b c = event_key q a' b' c' \<longleftrightarrow> p = (q :: pane_key) \<and> a = a' \<and> b = b' \<and> c = c'"
  "row_key_text p l = row_key_text q l' \<longleftrightarrow> p = (q :: pane_key) \<and> l = l'"
  unfolding event_key_def row_key_text_def json_text_inject by (cases p; cases q; auto)+

end
