(* ===== verification/V2_Storage.thy ===== *)
theory V2_Storage
  imports Control_Replay
begin

text \<open>
  Configuration and storage admission of NEWARCH v2, \<open>server/src/stream-contract.ts\<close>: validating a
  configuration and a storage profile, the data allowance, the page limit of the database and the
  allocation ledger all writers of a root share. A validator that throws is a list of checks; its result
  is the message of the first one that fails, or \<open>None\<close> when it returns.
\<close>

section \<open>Checks that throw\<close>

type_synonym check = "bool \<times> string"

definition v2_int :: "int \<Rightarrow> int \<Rightarrow> int \<Rightarrow> check" where
  "v2_int n lo hi = (safe_int n \<and> lo \<le> n \<and> n \<le> hi, ''v2 integer bound'')"

definition v2_text :: "jstr \<Rightarrow> nat \<Rightarrow> check" where
  "v2_text t most = (t \<noteq> [] \<and> well_formed t \<and> utf8_size t \<le> most, ''v2 text bound'')"

definition max_identity_bytes :: nat where
  "max_identity_bytes = 256"

abbreviation v2_nat :: "int \<Rightarrow> check" where
  "v2_nat n \<equiv> v2_int n 0 max_safe"

abbreviation v2_identity :: "jstr \<Rightarrow> check" where
  "v2_identity t \<equiv> v2_text t max_identity_bytes"

definition v2_pane_checks :: "pane_key \<Rightarrow> check list" where
  "v2_pane_checks p = [v2_identity (pk_server_identity p), v2_identity (pk_pane_id p), v2_int (pk_birth_generation p) 1 max_safe]"

record session_key =
  sk_server_identity :: jstr
  sk_session_id :: jstr

definition v2_session_checks :: "session_key \<Rightarrow> check list" where
  "v2_session_checks s = [v2_identity (sk_server_identity s), v2_identity (sk_session_id s)]"

text \<open>\<open>v2PaneKey(a) === v2PaneKey(b)\<close> inside a guard that turns a throw into \<open>false\<close>.\<close>

definition pane_ok :: "pane_key \<Rightarrow> bool" where
  "pane_ok p \<longleftrightarrow> first_failure (v2_pane_checks p) = None"

definition same_pane :: "pane_key \<Rightarrow> pane_key \<Rightarrow> bool" where
  "same_pane a b \<longleftrightarrow> pane_ok a \<and> pane_ok b \<and> a = b"

section \<open>Configuration\<close>

definition v2_schema :: jstr where
  "v2_schema = js ''newarch-v2''"

definition v2_digest :: "(jstr \<Rightarrow> jstr) \<Rightarrow> string \<Rightarrow> wire \<Rightarrow> jstr" where
  "v2_digest sha kind payload =
     sha (json_text (canonical_value (WObj [(''schema'', WStr v2_schema), (''kind'', ascii kind), (''payload'', payload)])))"

record v2_audit_config =
  ac_enabled :: bool
  ac_interval_ms :: int
  ac_jitter_fraction :: jnum
  ac_triggers :: "jstr list"
  ac_min_gap_ms :: int
  ac_max_concurrent :: int
  ac_timeout_ms :: int
  ac_max_capture_bytes :: int
  ac_max_retries :: int

record v2_storage_budget =
  sb_root_cap_bytes :: int
  sb_emergency_reserve_bytes :: int
  sb_reserve_per_pane_bytes :: int
  sb_reserve_shared_bytes :: int
  sb_diagnostic_cap_bytes :: int
  sb_staging_cap_bytes :: int

record v2_config =
  vc_schema :: jstr
  vc_config_version :: jstr
  vc_geometry :: geometry
  vc_max_active_panes :: int
  vc_rules :: "(jstr \<times> jstr) list"
  vc_audit :: v2_audit_config
  vc_storage :: v2_storage_budget

definition audit_triggers :: "jstr list" where
  "audit_triggers = [js ''uncertain-rule'', js ''decoder-anomaly'', js ''checkpoint-mismatch'', js ''resume'']"

definition max_columns :: int where "max_columns = 240"
definition max_rows :: int where "max_rows = 120"
definition diagnostic_event_bytes :: int where "diagnostic_event_bytes = 64 * 1024"
definition diagnostic_total_bytes :: int where "diagnostic_total_bytes = 64 * mib"

fun jitter_ok :: "jnum \<Rightarrow> bool" where
  "jitter_ok (Fin q) = (0 \<le> q \<and> q \<le> 1 / 5)"
| "jitter_ok _ = False"

definition storage_values :: "v2_storage_budget \<Rightarrow> int list" where
  "storage_values s = [sb_root_cap_bytes s, sb_emergency_reserve_bytes s, sb_reserve_per_pane_bytes s,
     sb_reserve_shared_bytes s, sb_diagnostic_cap_bytes s, sb_staging_cap_bytes s]"

definition rules_checks :: "(jstr \<times> jstr) list \<Rightarrow> check list" where
  "rules_checks rules =
     [(1 \<le> length rules \<and> length rules \<le> 32, ''v2 rules bound'')] @
     concat (map (\<lambda>(rule_id, version). [v2_identity rule_id, v2_identity version]) rules) @
     [(distinct rules, ''v2 duplicate rule'')]"

definition audit_checks :: "v2_audit_config \<Rightarrow> check list" where
  "audit_checks a =
     [(jitter_ok (ac_jitter_fraction a), ''v2 audit config''), v2_int (ac_interval_ms a) 0 86400000,
      (ac_interval_ms a = 0 \<or> 1000 \<le> ac_interval_ms a, ''v2 audit interval''),
      v2_int (ac_min_gap_ms a) 1000 86400000, v2_int (ac_max_concurrent a) 1 1, v2_int (ac_timeout_ms a) 1 10000,
      v2_int (ac_max_capture_bytes a) 1 262144, v2_int (ac_max_retries a) 0 1,
      (distinct (ac_triggers a) \<and> list_all (\<lambda>t. t \<in> set audit_triggers) (ac_triggers a), ''v2 audit trigger'')]"

definition storage_checks :: "int \<Rightarrow> v2_storage_budget \<Rightarrow> check list" where
  "storage_checks panes s =
     map (\<lambda>n. v2_int n 1 max_safe) (storage_values s) @
     [(sb_emergency_reserve_bytes s < sb_root_cap_bytes s \<and> diagnostic_event_bytes \<le> sb_reserve_per_pane_bytes s \<and>
       sb_reserve_shared_bytes s \<le> sb_emergency_reserve_bytes s \<and>
       panes \<le> (sb_emergency_reserve_bytes s - sb_reserve_shared_bytes s) div sb_reserve_per_pane_bytes s \<and>
       sb_diagnostic_cap_bytes s \<le> diagnostic_total_bytes \<and>
       sb_diagnostic_cap_bytes s + sb_staging_cap_bytes s \<le> sb_root_cap_bytes s - sb_emergency_reserve_bytes s,
       ''v2 storage budget'')]"

definition config_checks :: "v2_config \<Rightarrow> check list" where
  "config_checks c =
     [(vc_schema c = v2_schema, ''v2 schema''), v2_identity (vc_config_version c),
      v2_int (geo_columns (vc_geometry c)) 1 max_columns, v2_int (geo_rows (vc_geometry c)) 1 max_rows,
      v2_int (vc_max_active_panes c) 1 21] @
     rules_checks (vc_rules c) @ audit_checks (vc_audit c) @ storage_checks (vc_max_active_panes c) (vc_storage c)"

definition validate_v2_config :: "v2_config \<Rightarrow> string option" where
  "validate_v2_config c = first_failure (config_checks c)"

definition default_storage :: v2_storage_budget where
  "default_storage = \<lparr>sb_root_cap_bytes = 256 * mib, sb_emergency_reserve_bytes = 16 * mib,
     sb_reserve_per_pane_bytes = 256 * 1024, sb_reserve_shared_bytes = 8 * mib,
     sb_diagnostic_cap_bytes = 64 * mib, sb_staging_cap_bytes = 32 * mib\<rparr>"

definition default_config :: v2_config where
  "default_config = \<lparr>vc_schema = v2_schema, vc_config_version = js ''q22-default-2'',
     vc_geometry = \<lparr>geo_columns = 78, geo_rows = 120\<rparr>, vc_max_active_panes = 21,
     vc_rules = [(js ''ordered-scroll'', js ''1''), (js ''bounded-tail'', js ''1''), (js ''explicit-gap'', js ''1'')],
     vc_audit = \<lparr>ac_enabled = True, ac_interval_ms = 300000, ac_jitter_fraction = Fin (1 / 5),
       ac_triggers = audit_triggers, ac_min_gap_ms = 30000, ac_max_concurrent = 1, ac_timeout_ms = 2000,
       ac_max_capture_bytes = 262144, ac_max_retries = 1\<rparr>,
     vc_storage = default_storage\<rparr>"

record fixed_geometry =
  fg_policy :: jstr
  fg_columns :: int
  fg_rows :: int
  fg_config_version :: jstr
  fg_panes_per_window :: int

definition v2_birth_geometry :: "v2_config \<Rightarrow> string + fixed_geometry" where
  "v2_birth_geometry c =
     (case validate_v2_config c of Some e \<Rightarrow> Inl e
      | None \<Rightarrow> Inr \<lparr>fg_policy = js ''fixed-at-birth'', fg_columns = geo_columns (vc_geometry c), fg_rows = geo_rows (vc_geometry c),
          fg_config_version = vc_config_version c, fg_panes_per_window = 1\<rparr>)"

section \<open>Allowance, profiles and the page limit\<close>

record v2_storage_usage =
  su_database_bytes :: int
  su_raw_bytes :: int
  su_staging_bytes :: int
  su_diagnostic_bytes :: int
  su_reserved_data_bytes :: int
  su_reserve_allocated_bytes :: int

record v2_allowance =
  al_data_budget_bytes :: int
  al_data_used_bytes :: int
  al_available_data_bytes :: int

definition data_budget :: "v2_storage_budget \<Rightarrow> int" where
  "data_budget s = sb_root_cap_bytes s - sb_emergency_reserve_bytes s"

definition v2_storage_allowance :: "v2_config \<Rightarrow> v2_storage_usage \<Rightarrow> string + v2_allowance" where
  "v2_storage_allowance c u =
     (let used = su_database_bytes u + su_raw_bytes u + su_staging_bytes u + su_diagnostic_bytes u + su_reserved_data_bytes u in
      case first_failure (config_checks c @
             map v2_nat [su_database_bytes u, su_raw_bytes u, su_staging_bytes u, su_diagnostic_bytes u,
               su_reserved_data_bytes u, su_reserve_allocated_bytes u] @
             [v2_nat used, (su_reserve_allocated_bytes u \<le> sb_emergency_reserve_bytes (vc_storage c), ''v2 reserve overflow'')]) of
        Some e \<Rightarrow> Inl e
      | None \<Rightarrow> Inr \<lparr>al_data_budget_bytes = data_budget (vc_storage c), al_data_used_bytes = used,
          al_available_data_bytes = max 0 (data_budget (vc_storage c) - used)\<rparr>)"

datatype allocation_class = DatabaseClass | WalClass | RawClass | StagingClass | DiagnosticClass | OtherClass

definition all_classes :: "allocation_class list" where
  "all_classes = [DatabaseClass, WalClass, RawClass, StagingClass, DiagnosticClass, OtherClass]"

text \<open>A manifest gives the bytes of each class.\<close>

type_synonym allocation_manifest = "allocation_class \<Rightarrow> int"

record v2_storage_profile =
  sp_name :: jstr
  sp_storage :: v2_storage_budget
  sp_allocation :: "allocation_manifest option"

definition total_bytes :: "(allocation_class \<Rightarrow> int) \<Rightarrow> int" where
  "total_bytes f = sum_list (map f all_classes)"

definition canary_manifest :: allocation_manifest where
  "canary_manifest cls = (case cls of DatabaseClass \<Rightarrow> 4088 * mib | WalClass \<Rightarrow> 1024 * mib | RawClass \<Rightarrow> 128 * mib
     | StagingClass \<Rightarrow> 32 * mib | DiagnosticClass \<Rightarrow> 64 * mib | OtherClass \<Rightarrow> 64 * mib)"

definition profile_default :: v2_storage_profile where
  "profile_default = \<lparr>sp_name = js ''default-256m'', sp_storage = default_storage, sp_allocation = None\<rparr>"

definition profile_canary :: v2_storage_profile where
  "profile_canary = \<lparr>sp_name = js ''r-canary-8g'',
     sp_storage = default_storage\<lparr>sb_root_cap_bytes := 8192 * mib\<rparr>, sp_allocation = Some canary_manifest\<rparr>"

definition v2_legacy_storage_profile :: "v2_storage_budget \<Rightarrow> v2_storage_profile" where
  "v2_legacy_storage_profile s = \<lparr>sp_name = js ''legacy'', sp_storage = s, sp_allocation = None\<rparr>"

definition manifest_checks :: "v2_storage_budget \<Rightarrow> allocation_manifest \<Rightarrow> check list" where
  "manifest_checks s a =
     map (\<lambda>cls. v2_int (a cls) 1 max_safe) all_classes @
     [v2_nat (total_bytes a),
      (mib \<le> a DatabaseClass \<and> a StagingClass = sb_staging_cap_bytes s \<and> a DiagnosticClass = sb_diagnostic_cap_bytes s \<and>
       total_bytes a \<le> data_budget s, ''allocation bound'')]"

definition profile_checks :: "v2_storage_profile \<Rightarrow> v2_config \<Rightarrow> check list" where
  "profile_checks p c =
     [v2_text (sp_name p) 64] @ config_checks (c\<lparr>vc_storage := sp_storage p\<rparr>) @
     (case sp_allocation p of None \<Rightarrow> [] | Some a \<Rightarrow> manifest_checks (sp_storage p) a)"

definition validate_v2_storage_profile :: "v2_storage_profile \<Rightarrow> v2_config \<Rightarrow> string option" where
  "validate_v2_storage_profile p c =
     (case first_failure (profile_checks p c) of None \<Rightarrow> None | Some e \<Rightarrow> Some (''v2 storage profile: Error: '' @ e))"

text \<open>What a profile's digest binds: the budget and the manifest, not the name.\<close>

definition storage_wire :: "v2_storage_budget \<Rightarrow> wire" where
  "storage_wire s = WObj [(''rootCapBytes'', WInt (sb_root_cap_bytes s)),
     (''emergencyReserveBytes'', WInt (sb_emergency_reserve_bytes s)),
     (''reservePerPaneBytes'', WInt (sb_reserve_per_pane_bytes s)), (''reserveSharedBytes'', WInt (sb_reserve_shared_bytes s)),
     (''diagnosticCapBytes'', WInt (sb_diagnostic_cap_bytes s)), (''stagingCapBytes'', WInt (sb_staging_cap_bytes s))]"

definition manifest_wire :: "allocation_manifest \<Rightarrow> wire" where
  "manifest_wire a = WObj [(''databaseBytes'', WInt (a DatabaseClass)), (''walBytes'', WInt (a WalClass)),
     (''rawBytes'', WInt (a RawClass)), (''stagingBytes'', WInt (a StagingClass)),
     (''diagnosticBytes'', WInt (a DiagnosticClass)), (''otherBytes'', WInt (a OtherClass))]"

definition v2_storage_profile_digest :: "(jstr \<Rightarrow> jstr) \<Rightarrow> v2_storage_profile \<Rightarrow> jstr" where
  "v2_storage_profile_digest sha p = v2_digest sha ''storage-profile''
     (WObj [(''storage'', storage_wire (sp_storage p)), (''allocation'', opt_wire manifest_wire (sp_allocation p))])"

definition v2_database_page_limit :: "v2_storage_profile \<Rightarrow> int \<Rightarrow> string + int" where
  "v2_database_page_limit p page_size =
     (case first_failure [v2_int page_size 512 65536, (page_size AND (page_size - 1) = 0, ''v2 page size'')] of
        Some e \<Rightarrow> Inl e
      | None \<Rightarrow> Inr ((case sp_allocation p of Some a \<Rightarrow> a DatabaseClass | None \<Rightarrow> data_budget (sp_storage p) div 2) div page_size))"

section \<open>The allocation ledger\<close>

record v2_ledger =
  ld_version :: int
  ld_used :: "allocation_class \<Rightarrow> int"
  ld_reserve_used_bytes :: int

datatype allocation_target = DataClass allocation_class | Emergency

record allocation_request =
  aq_expected_version :: int
  aq_target :: allocation_target
  aq_bytes :: int

datatype refusal = StaleLedger | ClassCap | DataBudget | ReserveExceeded

datatype reserve_outcome = Granted v2_ledger | Refused refusal

definition class_cap :: "v2_storage_profile \<Rightarrow> allocation_class \<Rightarrow> int" where
  "class_cap p cls =
     (case sp_allocation p of
        Some a \<Rightarrow> a cls
      | None \<Rightarrow>
          (case cls of
             DatabaseClass \<Rightarrow> data_budget (sp_storage p) div 2
           | StagingClass \<Rightarrow> sb_staging_cap_bytes (sp_storage p)
           | DiagnosticClass \<Rightarrow> sb_diagnostic_cap_bytes (sp_storage p)
           | _ \<Rightarrow> data_budget (sp_storage p)))"

definition v2_allocation_reserve :: "v2_storage_profile \<Rightarrow> v2_ledger \<Rightarrow> allocation_request \<Rightarrow> string + reserve_outcome" where
  "v2_allocation_reserve p l r =
     (if aq_expected_version r \<noteq> ld_version l then Inr (Refused StaleLedger)
      else case first_failure ([v2_nat (ld_version l), v2_int (aq_bytes r) 1 max_safe, v2_nat (ld_reserve_used_bytes l)] @
             map (\<lambda>cls. v2_nat (ld_used l cls)) all_classes) of
        Some e \<Rightarrow> Inl e
      | None \<Rightarrow>
          (case aq_target r of
             Emergency \<Rightarrow>
               if sb_emergency_reserve_bytes (sp_storage p) < ld_reserve_used_bytes l + aq_bytes r
               then Inr (Refused ReserveExceeded)
               else Inr (Granted (l\<lparr>ld_version := ld_version l + 1, ld_reserve_used_bytes := ld_reserve_used_bytes l + aq_bytes r\<rparr>))
           | DataClass cls \<Rightarrow>
               if class_cap p cls < ld_used l cls + aq_bytes r then Inr (Refused ClassCap)
               else if data_budget (sp_storage p) < total_bytes (ld_used l) + aq_bytes r then Inr (Refused DataBudget)
               else Inr (Granted (l\<lparr>ld_version := ld_version l + 1,
                      ld_used := (ld_used l)(cls := ld_used l cls + aq_bytes r)\<rparr>))))"

text \<open>Writers that race for one ledger: a refused or throwing request leaves it as it was.\<close>

fun ledger_run :: "v2_storage_profile \<Rightarrow> v2_ledger \<Rightarrow> allocation_request list \<Rightarrow> v2_ledger" where
  "ledger_run p l [] = l"
| "ledger_run p l (r # rs) =
     ledger_run p (case v2_allocation_reserve p l r of Inr (Granted l') \<Rightarrow> l' | _ \<Rightarrow> l) rs"

fun granted_bytes :: "v2_storage_profile \<Rightarrow> v2_ledger \<Rightarrow> allocation_request list \<Rightarrow> int" where
  "granted_bytes p l [] = 0"
| "granted_bytes p l (r # rs) =
     (case v2_allocation_reserve p l r of
        Inr (Granted l') \<Rightarrow> aq_bytes r + granted_bytes p l' rs
      | _ \<Rightarrow> granted_bytes p l rs)"

definition empty_ledger :: v2_ledger where
  "empty_ledger = \<lparr>ld_version = 0, ld_used = (\<lambda>_. 0), ld_reserve_used_bytes = 0\<rparr>"

definition ledger_ok :: "v2_storage_profile \<Rightarrow> v2_ledger \<Rightarrow> bool" where
  "ledger_ok p l \<longleftrightarrow> (\<forall>cls. 0 \<le> ld_used l cls \<and> (ld_used l cls = 0 \<or> ld_used l cls \<le> class_cap p cls)) \<and>
     (total_bytes (ld_used l) = 0 \<or> total_bytes (ld_used l) \<le> data_budget (sp_storage p)) \<and>
     0 \<le> ld_reserve_used_bytes l \<and>
     (ld_reserve_used_bytes l = 0 \<or> ld_reserve_used_bytes l \<le> sb_emergency_reserve_bytes (sp_storage p))"

lemma all_classes_UNIV: "set all_classes = UNIV"
proof -
  have "cls \<in> set all_classes" for cls by (cases cls) (simp_all add: all_classes_def)
  then show ?thesis by auto
qed

lemma total_bytes_update: "total_bytes (f(cls := f cls + b)) = total_bytes f + b"
  by (cases cls) (simp_all add: total_bytes_def all_classes_def)

lemma total_bytes_zero [simp]: "total_bytes (\<lambda>_. 0) = 0"
  by (simp add: total_bytes_def all_classes_def)

text \<open>One granted request: its guards, and the ledger after it.\<close>

lemma reserve_granted:
  assumes "v2_allocation_reserve p l r = Inr (Granted l')"
  shows "aq_expected_version r = ld_version l \<and> ld_version l' = ld_version l + 1 \<and> 1 \<le> aq_bytes r \<and>
    (case aq_target r of
       Emergency \<Rightarrow> ld_used l' = ld_used l \<and> ld_reserve_used_bytes l' = ld_reserve_used_bytes l + aq_bytes r \<and>
         ld_reserve_used_bytes l' \<le> sb_emergency_reserve_bytes (sp_storage p)
     | DataClass cls \<Rightarrow> ld_reserve_used_bytes l' = ld_reserve_used_bytes l \<and>
         ld_used l' = (ld_used l)(cls := ld_used l cls + aq_bytes r) \<and> ld_used l' cls \<le> class_cap p cls \<and>
         total_bytes (ld_used l') \<le> data_budget (sp_storage p))"
  using assms
  by (auto simp: v2_allocation_reserve_def v2_int_def total_bytes_update split: if_splits option.splits allocation_target.splits)

lemma ledger_step:
  assumes "v2_allocation_reserve p l r = Inr (Granted l')" "ledger_ok p l"
  shows "ledger_ok p l' \<and> total_bytes (ld_used l') + ld_reserve_used_bytes l' =
    total_bytes (ld_used l) + ld_reserve_used_bytes l + aq_bytes r"
  using reserve_granted[OF assms(1)] assms(2)
  by (cases "aq_target r") (auto simp: ledger_ok_def total_bytes_update)

lemma ledger_run_ok:
  assumes "ledger_ok p l"
  shows "ledger_ok p (ledger_run p l rs) \<and>
    total_bytes (ld_used (ledger_run p l rs)) + ld_reserve_used_bytes (ledger_run p l rs) =
      total_bytes (ld_used l) + ld_reserve_used_bytes l + granted_bytes p l rs"
  using assms
proof (induction rs arbitrary: l)
  case (Cons r rs)
  show ?case
  proof (cases "\<exists>l'. v2_allocation_reserve p l r = Inr (Granted l')")
    case True
    then obtain l' where g: "v2_allocation_reserve p l r = Inr (Granted l')" by blast
    from ledger_step[OF g Cons.prems] Cons.IH[of l'] show ?thesis by (simp add: g)
  next
    case False
    then have "ledger_run p l (r # rs) = ledger_run p l rs" "granted_bytes p l (r # rs) = granted_bytes p l rs"
      by (auto split: sum.split reserve_outcome.split)
    then show ?thesis using Cons by simp
  qed
qed simp

text \<open>A request based on the version another request just consumed is refused.\<close>

lemma stale_after_grant:
  assumes "v2_allocation_reserve p l r = Inr (Granted l')" "aq_expected_version q = aq_expected_version r"
  shows "v2_allocation_reserve p l' q = Inr (Refused StaleLedger)"
  using reserve_granted[OF assms(1)] assms(2) by (simp add: v2_allocation_reserve_def)

lemma profile_valid:
  assumes "validate_v2_storage_profile p c = None"
  shows "0 \<le> class_cap p cls" "0 < data_budget (sp_storage p)" "1 \<le> sb_emergency_reserve_bytes (sp_storage p)"
    "vc_max_active_panes c * sb_reserve_per_pane_bytes (sp_storage p) + sb_reserve_shared_bytes (sp_storage p)
       \<le> sb_emergency_reserve_bytes (sp_storage p)"
proof -
  let ?s = "sp_storage p"
  have cfg: "list_all fst (storage_checks (vc_max_active_panes c) ?s)"
    and man: "list_all fst (case sp_allocation p of None \<Rightarrow> [] | Some a \<Rightarrow> manifest_checks ?s a)"
    using assms by (auto simp: validate_v2_storage_profile_def profile_checks_def config_checks_def first_failure_append split: option.splits)
  have s: "1 \<le> sb_emergency_reserve_bytes ?s" "1 \<le> sb_staging_cap_bytes ?s" "1 \<le> sb_diagnostic_cap_bytes ?s"
    "1 \<le> sb_reserve_per_pane_bytes ?s" "sb_emergency_reserve_bytes ?s < sb_root_cap_bytes ?s"
    "vc_max_active_panes c \<le> (sb_emergency_reserve_bytes ?s - sb_reserve_shared_bytes ?s) div sb_reserve_per_pane_bytes ?s"
    using cfg by (auto simp: storage_checks_def storage_values_def v2_int_def)
  show b: "0 < data_budget ?s" "1 \<le> sb_emergency_reserve_bytes ?s" using s by (simp_all add: data_budget_def)
  have "1 \<le> a cls" if "sp_allocation p = Some a" for a
  proof -
    have "\<forall>x \<in> set all_classes. 1 \<le> a x" using man that by (auto simp: manifest_checks_def v2_int_def list_all_iff)
    then show ?thesis by (simp add: all_classes_UNIV)
  qed
  then show "0 \<le> class_cap p cls"
    using s b by (cases cls) (force simp: class_cap_def split: option.split)+
  have "vc_max_active_panes c * sb_reserve_per_pane_bytes ?s \<le>
      (sb_emergency_reserve_bytes ?s - sb_reserve_shared_bytes ?s) div sb_reserve_per_pane_bytes ?s * sb_reserve_per_pane_bytes ?s"
    using s by (intro mult_right_mono) simp_all
  also have "\<dots> \<le> sb_emergency_reserve_bytes ?s - sb_reserve_shared_bytes ?s"
    using s(4) by (simp add: minus_mod_eq_div_mult[symmetric])
  finally show "vc_max_active_panes c * sb_reserve_per_pane_bytes ?s + sb_reserve_shared_bytes ?s \<le> sb_emergency_reserve_bytes ?s"
    by simp
qed

text \<open>
  C5: The allocation ledger never overdraws a root. Under a validated storage profile, whatever
  requests the writers of a root make, in whatever order, fresh or stale, every class stays within its
  cap, all data within the data budget, emergencies within the reserve, and everything together within
  the root's cap; the ledger records exactly the granted bytes; and the reserve is large enough for the
  per-pane and shared reserves of all active panes at once.
\<close>

theorem ledger_never_overdraws:
  assumes "validate_v2_storage_profile p c = None"
  shows "let l = ledger_run p empty_ledger rs in
    0 \<le> ld_used l cls \<and> ld_used l cls \<le> class_cap p cls \<and>
    total_bytes (ld_used l) \<le> data_budget (sp_storage p) \<and>
    ld_reserve_used_bytes l \<le> sb_emergency_reserve_bytes (sp_storage p) \<and>
    total_bytes (ld_used l) + ld_reserve_used_bytes l = granted_bytes p empty_ledger rs \<and>
    granted_bytes p empty_ledger rs \<le> sb_root_cap_bytes (sp_storage p) \<and>
    vc_max_active_panes c * sb_reserve_per_pane_bytes (sp_storage p) + sb_reserve_shared_bytes (sp_storage p)
      \<le> sb_emergency_reserve_bytes (sp_storage p)"
proof -
  have "ledger_ok p empty_ledger" by (simp add: ledger_ok_def empty_ledger_def)
  note R = ledger_run_ok[OF this, of rs]
  note V = profile_valid[OF assms]
  define l where "l = ledger_run p empty_ledger rs"
  have zero: "total_bytes (ld_used empty_ledger) + ld_reserve_used_bytes empty_ledger = 0"
    by (simp add: empty_ledger_def)
  have ok: "ledger_ok p l" and sum: "total_bytes (ld_used l) + ld_reserve_used_bytes l = granted_bytes p empty_ledger rs"
    using R zero by (simp_all add: l_def)
  have u: "0 \<le> ld_used l cls" "ld_used l cls = 0 \<or> ld_used l cls \<le> class_cap p cls"
    using ok by (simp_all add: ledger_ok_def)
  have "ld_used l cls \<le> class_cap p cls" using u(2) V(1)[of cls] by (elim disjE) simp_all
  moreover have "total_bytes (ld_used l) \<le> data_budget (sp_storage p)"
    "ld_reserve_used_bytes l \<le> sb_emergency_reserve_bytes (sp_storage p)"
    using ok V(2,3) by (auto simp: ledger_ok_def)
  moreover note u(1)
  ultimately show ?thesis using sum V(4) by (simp add: l_def[symmetric] Let_def data_budget_def)
qed

lemma default_profile_valid: "validate_v2_storage_profile profile_canary default_config = None"
proof -
  have "list_all fst (rules_checks (vc_rules default_config))" by code_simp
  moreover have "list_all fst (audit_checks (vc_audit default_config))" by code_simp
  moreover have "list_all fst (storage_checks 21 (sp_storage profile_canary))" by code_simp
  moreover have "list_all fst (manifest_checks (sp_storage profile_canary) canary_manifest)" by code_simp
  moreover have "fst (v2_text (sp_name profile_canary) 64)" by code_simp
  moreover have "fst (v2_identity (vc_config_version default_config))" by code_simp
  ultimately have "list_all fst (profile_checks profile_canary default_config)"
    by (simp add: profile_checks_def config_checks_def profile_canary_def
        default_config_def v2_int_def safe_int_def max_safe_def max_columns_def max_rows_def)
  then have "first_failure (profile_checks profile_canary default_config) = None" by simp
  then show ?thesis by (simp only: validate_v2_storage_profile_def option.case)
qed

lemma ledger_never_overdraws_witness:
  "ld_used (ledger_run profile_canary empty_ledger
     [\<lparr>aq_expected_version = 0, aq_target = DataClass RawClass, aq_bytes = 100 * mib\<rparr>,
      \<lparr>aq_expected_version = 1, aq_target = DataClass RawClass, aq_bytes = 29 * mib\<rparr>]) RawClass \<le> 128 * mib"
  using ledger_never_overdraws [OF default_profile_valid, where cls = RawClass and
      rs = "[\<lparr>aq_expected_version = 0, aq_target = DataClass RawClass, aq_bytes = 100 * mib\<rparr>,
      \<lparr>aq_expected_version = 1, aq_target = DataClass RawClass, aq_bytes = 29 * mib\<rparr>]"]
  unfolding Let_def by (simp add: class_cap_def profile_canary_def canary_manifest_def)

end
