(* ===== verification/V2_Decode.thy ===== *)
theory V2_Decode
  imports V2_Storage
begin

text \<open>
  Checkpoints, decode prefixes and indexed replay of NEWARCH v2, \<open>server/src/stream-contract.ts\<close>. The
  decoder state a checkpoint carries is opaque to these checks but for its geometry, so the model keeps
  its JSON value; a committed row is its identity and the rest of its JSON. SHA-256 is the parameter
  \<open>sha\<close>.
\<close>

section \<open>Checkpoints\<close>

record rule_stamp =
  ru_rule_id :: jstr
  ru_version :: jstr
  ru_config_version :: jstr

record v2_pending =
  pn_rows :: "wire list"
  pn_bytes :: int
  pn_deadline_mono_ms :: "int option"

record v2_checkpoint =
  ck_schema :: jstr
  ck_checkpoint_id :: jstr
  ck_pane :: pane_key
  ck_geometry :: fixed_geometry
  ck_through :: raw_position
  ck_replay_floor :: raw_position
  ck_revision :: int
  ck_frontier :: "segment_row_id option"
  ck_rule :: rule_stamp
  ck_state :: wire
  ck_state_digest :: jstr
  ck_pending :: v2_pending

definition pending_rows_per_pane :: nat where "pending_rows_per_pane = 256"
definition pending_bytes_per_pane :: int where "pending_bytes_per_pane = mib"
definition vt_bytes_per_pane :: int where "vt_bytes_per_pane = 2 * mib"
definition checkpoint_bytes_per_pane :: int where "checkpoint_bytes_per_pane = 4 * mib"
definition page_bytes :: int where "page_bytes = 2 * mib"

definition fixed_geometry_wire :: "fixed_geometry \<Rightarrow> wire" where
  "fixed_geometry_wire g = WObj [(''policy'', WStr (fg_policy g)), (''columns'', WInt (fg_columns g)),
     (''rows'', WInt (fg_rows g)), (''panesPerWindow'', WInt (fg_panes_per_window g)),
     (''configVersion'', WStr (fg_config_version g))]"

definition rule_wire :: "rule_stamp \<Rightarrow> wire" where
  "rule_wire r = WObj [(''ruleId'', WStr (ru_rule_id r)), (''version'', WStr (ru_version r)),
     (''configVersion'', WStr (ru_config_version r))]"

definition pending_wire :: "v2_pending \<Rightarrow> wire" where
  "pending_wire p = WObj [(''rows'', WArr (pn_rows p)), (''bytes'', WInt (pn_bytes p)),
     (''deadlineMonoMs'', opt_wire WInt (pn_deadline_mono_ms p))]"

definition checkpoint_wire :: "v2_checkpoint \<Rightarrow> wire" where
  "checkpoint_wire c = WObj [(''schema'', WStr (ck_schema c)), (''checkpointId'', WStr (ck_checkpoint_id c)),
     (''pane'', pane_wire (ck_pane c)), (''geometry'', fixed_geometry_wire (ck_geometry c)),
     (''through'', raw_position_wire (ck_through c)), (''replayFloor'', raw_position_wire (ck_replay_floor c)),
     (''revision'', WInt (ck_revision c)), (''frontier'', opt_wire row_id_wire (ck_frontier c)),
     (''rule'', rule_wire (ck_rule c)), (''state'', ck_state c), (''stateDigest'', WStr (ck_state_digest c)),
     (''pending'', pending_wire (ck_pending c))]"

fun wire_field :: "wire \<Rightarrow> string \<Rightarrow> wire option" where
  "wire_field (WObj kvs) k = map_of kvs k"
| "wire_field _ k = None"

definition state_has_geometry :: "wire \<Rightarrow> fixed_geometry \<Rightarrow> bool" where
  "state_has_geometry state g \<longleftrightarrow>
     (case wire_field state ''geometry'' of
        None \<Rightarrow> False
      | Some geo \<Rightarrow> wire_field geo ''columns'' = Some (WInt (fg_columns g)) \<and> wire_field geo ''rows'' = Some (WInt (fg_rows g)))"

definition checkpoint_checks :: "(jstr \<Rightarrow> jstr) \<Rightarrow> v2_checkpoint \<Rightarrow> check list" where
  "checkpoint_checks sha c =
     [(ck_schema c = v2_schema \<and> fg_policy (ck_geometry c) = js ''fixed-at-birth'' \<and> fg_panes_per_window (ck_geometry c) = 1,
       ''v2 checkpoint schema'')] @ v2_pane_checks (ck_pane c) @
     [v2_identity (ck_checkpoint_id c), v2_nat (ck_revision c),
      v2_int (fg_columns (ck_geometry c)) 1 max_columns, v2_int (fg_rows (ck_geometry c)) 1 max_rows,
      v2_identity (fg_config_version (ck_geometry c)), v2_identity (ru_rule_id (ck_rule c)),
      v2_identity (ru_version (ck_rule c)), v2_identity (ru_config_version (ck_rule c))] @
     (case ck_frontier c of None \<Rightarrow> []
      | Some f \<Rightarrow> v2_pane_checks (sr_pane f) @ [(sr_pane f = ck_pane c, ''v2 checkpoint frontier'')]) @
     [v2_nat (rp_byte_offset (ck_through c)), v2_nat (rp_byte_offset (ck_replay_floor c)),
      (rp_epoch (ck_through c) = rp_epoch (ck_replay_floor c), ''v2 checkpoint raw'')] @
     v2_pane_checks (pe_pane (rp_epoch (ck_through c))) @
     [(pe_pane (rp_epoch (ck_through c)) = ck_pane c \<and>
       rp_byte_offset (ck_replay_floor c) \<le> rp_byte_offset (ck_through c), ''v2 checkpoint raw''),
      (state_has_geometry (ck_state c) (ck_geometry c) \<and> v2_digest sha ''vt-state'' (ck_state c) = ck_state_digest c,
       ''v2 checkpoint state''),
      v2_int (pn_bytes (ck_pending c)) 0 pending_bytes_per_pane,
      (length (pn_rows (ck_pending c)) \<le> pending_rows_per_pane \<and>
       \<not> ((pn_rows (ck_pending c) \<noteq> [] \<or> 0 < pn_bytes (ck_pending c)) \<and> pn_deadline_mono_ms (ck_pending c) = None),
       ''v2 checkpoint pending'')] @
     (case pn_deadline_mono_ms (ck_pending c) of None \<Rightarrow> [] | Some d \<Rightarrow> [v2_nat d]) @
     [(int (canonical_bytes (ck_state c)) \<le> vt_bytes_per_pane \<and>
       int (canonical_bytes (checkpoint_wire c)) \<le> checkpoint_bytes_per_pane, ''v2 checkpoint bytes'')]"

definition validate_v2_checkpoint :: "(jstr \<Rightarrow> jstr) \<Rightarrow> v2_checkpoint \<Rightarrow> string option" where
  "validate_v2_checkpoint sha c = first_failure (checkpoint_checks sha c)"

section \<open>Decode prefixes\<close>

record committed_row =
  cm_id :: segment_row_id
  cm_rest :: "(string \<times> wire) list"

definition committed_row_wire :: "committed_row \<Rightarrow> wire" where
  "committed_row_wire r = WObj ((''id'', row_id_wire (cm_id r)) # cm_rest r)"

datatype prefix_stop = StopComplete | StopRawBytes | StopRows | StopSerializedBytes

record decode_prefix =
  dp_schema :: jstr
  dp_pane :: pane_key
  dp_offered :: raw_range
  dp_consumed :: raw_range
  dp_rows :: "committed_row list"
  dp_serialized_bytes :: int
  dp_checkpoint :: v2_checkpoint
  dp_stop :: prefix_stop
  dp_suffix :: "raw_range option"

definition v2_same_epoch :: "pipe_epoch \<Rightarrow> pipe_epoch \<Rightarrow> bool" where
  "v2_same_epoch a b \<longleftrightarrow> a = b \<and> same_pane (pe_pane a) (pe_pane b)"

definition rows_serialized_bytes :: "committed_row list \<Rightarrow> int" where
  "rows_serialized_bytes rows = int (canonical_bytes (WArr (map committed_row_wire rows)))"

fun rows_ascend :: "segment_row_id option \<Rightarrow> committed_row list \<Rightarrow> bool" where
  "rows_ascend prev [] = True"
| "rows_ascend prev (r # rs) =
     ((case prev of
         Some p \<Rightarrow> \<not> (sr_segment_id p = sr_segment_id (cm_id r) \<and> sr_row_ordinal (cm_id r) \<le> sr_row_ordinal p)
       | None \<Rightarrow> True) \<and> rows_ascend (Some (cm_id r)) rs)"

definition last_row :: "segment_row_id option \<Rightarrow> committed_row list \<Rightarrow> segment_row_id option" where
  "last_row frontier rows = (if rows = [] then frontier else Some (cm_id (List.last rows)))"

definition v2_decode_prefix_valid :: "(jstr \<Rightarrow> jstr) \<Rightarrow> decode_prefix \<Rightarrow> v2_checkpoint \<Rightarrow> bool" where
  "v2_decode_prefix_valid sha p base \<longleftrightarrow>
     (let c = dp_checkpoint p; epoch = rp_epoch (ck_through base); off = dp_offered p; used = dp_consumed p in
      validate_v2_checkpoint sha base = None \<and> validate_v2_checkpoint sha c = None \<and>
      dp_schema p = v2_schema \<and> same_pane (dp_pane p) (ck_pane base) \<and> same_pane (dp_pane p) (ck_pane c) \<and>
      v2_same_epoch (rw_epoch off) epoch \<and> v2_same_epoch (rw_epoch used) epoch \<and>
      v2_same_epoch (rp_epoch (ck_through c)) epoch \<and>
      (case dp_suffix p of None \<Rightarrow> True | Some s \<Rightarrow> v2_same_epoch (rw_epoch s) epoch) \<and>
      list_all safe_nonneg [rw_start off, rw_end off, rw_start used, rw_end used, dp_serialized_bytes p] \<and>
      rw_start off = rp_byte_offset (ck_through base) \<and> rw_start used = rw_start off \<and>
      rw_start used \<le> rw_end used \<and> rw_end used \<le> rw_end off \<and>
      \<not> (rw_start off < rw_end off \<and> rw_end used = rw_start used) \<and>
      rw_end used - rw_start used \<le> pending_bytes_per_pane \<and> length (dp_rows p) \<le> pending_rows_per_pane \<and>
      dp_serialized_bytes p = rows_serialized_bytes (dp_rows p) \<and> dp_serialized_bytes p \<le> page_bytes \<and>
      rp_byte_offset (ck_through c) = rw_end used \<and> ck_revision base < ck_revision c \<and>
      rp_byte_offset (ck_replay_floor base) \<le> rp_byte_offset (ck_replay_floor c) \<and>
      ck_geometry c = ck_geometry base \<and>
      list_all (\<lambda>r. same_pane (sr_pane (cm_id r)) (dp_pane p)) (dp_rows p) \<and>
      rows_ascend (ck_frontier base) (dp_rows p) \<and>
      ck_frontier c = last_row (ck_frontier base) (dp_rows p) \<and>
      (if rw_end used = rw_end off then dp_stop p = StopComplete \<and> dp_suffix p = None
       else dp_stop p \<noteq> StopComplete \<and>
         (case dp_suffix p of None \<Rightarrow> False | Some s \<Rightarrow> rw_start s = rw_end used \<and> rw_end s = rw_end off)))"

text \<open>A decoder working through the spool: each prefix starts from the checkpoint of the one before.\<close>

fun decode_chain :: "(jstr \<Rightarrow> jstr) \<Rightarrow> v2_checkpoint \<Rightarrow> decode_prefix list \<Rightarrow> bool" where
  "decode_chain sha base [] = True"
| "decode_chain sha base (p # ps) = (v2_decode_prefix_valid sha p base \<and> decode_chain sha (dp_checkpoint p) ps)"

definition chain_end :: "v2_checkpoint \<Rightarrow> decode_prefix list \<Rightarrow> v2_checkpoint" where
  "chain_end base ps = (if ps = [] then base else dp_checkpoint (List.last ps))"

definition consumed_bytes :: "decode_prefix \<Rightarrow> int" where
  "consumed_bytes p = rw_end (dp_consumed p) - rw_start (dp_consumed p)"

definition offers_input :: "decode_prefix \<Rightarrow> bool" where
  "offers_input p \<longleftrightarrow> rw_start (dp_offered p) < rw_end (dp_offered p)"

lemma rows_ascend_append:
  "rows_ascend prev (rs @ qs) \<longleftrightarrow> rows_ascend prev rs \<and> rows_ascend (last_row prev rs) qs"
  by (induction rs arbitrary: prev) (auto simp: last_row_def split: option.split)

lemma last_row_append: "last_row (last_row f rs) qs = last_row f (rs @ qs)"
  by (simp add: last_row_def)

lemma chain_end_Cons: "chain_end base (p # ps) = chain_end (dp_checkpoint p) ps"
  by (simp add: chain_end_def)

lemma prefix_step:
  assumes "v2_decode_prefix_valid sha p base"
  shows "rp_byte_offset (ck_through (dp_checkpoint p)) = rp_byte_offset (ck_through base) + consumed_bytes p"
    "0 \<le> consumed_bytes p" "offers_input p \<Longrightarrow> 1 \<le> consumed_bytes p"
    "consumed_bytes p \<le> pending_bytes_per_pane" "ck_revision base < ck_revision (dp_checkpoint p)"
    "rp_byte_offset (ck_replay_floor base) \<le> rp_byte_offset (ck_replay_floor (dp_checkpoint p))"
    "ck_geometry (dp_checkpoint p) = ck_geometry base" "ck_pane (dp_checkpoint p) = ck_pane base"
    "rp_epoch (ck_through (dp_checkpoint p)) = rp_epoch (ck_through base)"
    "rows_ascend (ck_frontier base) (dp_rows p)"
    "ck_frontier (dp_checkpoint p) = last_row (ck_frontier base) (dp_rows p)"
  using assms by (auto simp: v2_decode_prefix_valid_def Let_def consumed_bytes_def offers_input_def
      v2_same_epoch_def same_pane_def)


text \<open>ASCII identities of moderate length pass the text check.\<close>

lemma well_formed_ascii:
  assumes "list_all (\<lambda>u. unat u < 128) s"
  shows "well_formed s"
proof -
  have "\<not> is_high_surrogate (hd c) \<and> \<not> is_low_surrogate (hd c)" if "c \<in> set (js_chars s)" for c
  proof -
    have "c \<noteq> []" using that js_chars_not_Nil by blast
    then have "hd c \<in> set s" using that by (metis UN_I concat_js_chars hd_in_set set_concat)
    then have "unat (hd c) < 128" using assms by (simp add: list_all_iff)
    then show ?thesis by (simp add: is_high_surrogate_def is_low_surrogate_def word_le_nat_alt)
  qed
  then show ?thesis by (simp add: well_formed_def)
qed

lemma ascii_text_ok:
  assumes "list_all (\<lambda>u. unat u < 128) s" "s \<noteq> []" "4 * length s \<le> most"
  shows "fst (v2_text s most)"
  using assms utf8_size_bound[of s] by (simp add: v2_text_def well_formed_ascii)

definition example_fixed :: fixed_geometry where
  "example_fixed = \<lparr>fg_policy = js ''fixed-at-birth'', fg_columns = 78, fg_rows = 120, fg_config_version = js ''v'',
     fg_panes_per_window = 1\<rparr>"

definition example_row_id :: "int \<Rightarrow> segment_row_id" where
  "example_row_id n = \<lparr>sr_pane = example_pane, sr_segment_id = js ''g'', sr_row_ordinal = n\<rparr>"

definition example_checkpoint :: "int \<Rightarrow> int \<Rightarrow> int \<Rightarrow> v2_checkpoint" where
  "example_checkpoint off rv row = \<lparr>ck_schema = v2_schema, ck_checkpoint_id = js ''k'', ck_pane = example_pane,
     ck_geometry = example_fixed, ck_through = \<lparr>rp_epoch = example_epoch, rp_byte_offset = off\<rparr>,
     ck_replay_floor = \<lparr>rp_epoch = example_epoch, rp_byte_offset = 0\<rparr>, ck_revision = rv,
     ck_frontier = Some (example_row_id row),
     ck_rule = \<lparr>ru_rule_id = js ''r'', ru_version = js ''1'', ru_config_version = js ''v''\<rparr>,
     ck_state = WObj [(''geometry'', WObj [(''columns'', WInt 78), (''rows'', WInt 120)])],
     ck_state_digest = example_hash, ck_pending = \<lparr>pn_rows = [], pn_bytes = 0, pn_deadline_mono_ms = None\<rparr>\<rparr>"

definition example_range :: "int \<Rightarrow> int \<Rightarrow> raw_range" where
  "example_range a b = \<lparr>rw_epoch = example_epoch, rw_start = a, rw_end = b\<rparr>"

definition example_row :: "int \<Rightarrow> committed_row" where
  "example_row n = \<lparr>cm_id = example_row_id n, cm_rest = []\<rparr>"

text \<open>Ten bytes offered: three are consumed into one row, then the other seven into the next.\<close>

definition example_prefix :: "int \<Rightarrow> int \<Rightarrow> int \<Rightarrow> decode_prefix" where
  "example_prefix a b n = \<lparr>dp_schema = v2_schema, dp_pane = example_pane, dp_offered = example_range a 10,
     dp_consumed = example_range a b, dp_rows = [example_row n],
     dp_serialized_bytes = rows_serialized_bytes [example_row n], dp_checkpoint = example_checkpoint b n n,
     dp_stop = (if b = 10 then StopComplete else StopRows), dp_suffix = (if b = 10 then None else Some (example_range b 10))\<rparr>"

lemma example_pane_ok: "pane_ok example_pane" "list_all fst (v2_pane_checks example_pane)"
proof -
  show "list_all fst (v2_pane_checks example_pane)"
    by (simp add: v2_pane_checks_def example_pane_def ascii_text_ok max_identity_bytes_def v2_int_def safe_int_def max_safe_def)
  then show "pane_ok example_pane" by (simp add: pane_ok_def)
qed

lemma example_texts: "fst (v2_identity (js ''v''))" "fst (v2_identity (js ''k''))" "fst (v2_identity (js ''r''))"
  "fst (v2_identity (js ''1''))"
  by (rule ascii_text_ok; simp add: max_identity_bytes_def)+

lemma example_checkpoint_small:
  assumes "0 \<le> off" "off \<le> 10" "0 \<le> rv" "rv \<le> 10" "0 \<le> row" "row \<le> 10"
  shows "int (canonical_bytes (checkpoint_wire (example_checkpoint off rv row))) \<le> checkpoint_bytes_per_pane"
    "int (canonical_bytes (ck_state (example_checkpoint off rv row))) \<le> vt_bytes_per_pane"
proof -
  note b = canonical_bytes_bound[of "checkpoint_wire (example_checkpoint off rv row)"]
    canonical_bytes_bound[of "ck_state (example_checkpoint off rv row)"]
  note d = checkpoint_wire_def example_checkpoint_def sort_keys_def pane_wire_def example_pane_def v2_schema_def
    fixed_geometry_wire_def example_fixed_def raw_position_wire_def epoch_wire_def example_epoch_def row_id_wire_def
    example_row_id_def rule_wire_def pending_wire_def example_hash_def checkpoint_bytes_per_pane_def vt_bytes_per_pane_def mib_def
  show "int (canonical_bytes (checkpoint_wire (example_checkpoint off rv row))) \<le> checkpoint_bytes_per_pane"
    using b(1) assms by (simp add: d)
  show "int (canonical_bytes (ck_state (example_checkpoint off rv row))) \<le> vt_bytes_per_pane"
    using b(2) assms by (simp add: d)
qed

lemma example_checkpoint_valid:
  assumes "0 \<le> off" "off \<le> 10" "0 \<le> rv" "rv \<le> 10" "0 \<le> row" "row \<le> 10"
  shows "validate_v2_checkpoint (\<lambda>_. example_hash) (example_checkpoint off rv row) = None"
proof -
  have "list_all fst (checkpoint_checks (\<lambda>_. example_hash) (example_checkpoint off rv row))"
    using example_checkpoint_small[OF assms] example_texts example_pane_ok(2) assms
    by (simp add: checkpoint_checks_def v2_digest_def state_has_geometry_def v2_int_def safe_int_def max_safe_def
        max_columns_def max_rows_def pending_bytes_per_pane_def mib_def example_checkpoint_def example_fixed_def
        example_row_id_def example_epoch_def)
  then show ?thesis by (simp add: validate_v2_checkpoint_def)
qed

lemma example_prefix_valid:
  assumes "0 \<le> a" "a < b" "b \<le> 10" "0 \<le> n" "n < m" "m \<le> 10"
  shows "v2_decode_prefix_valid (\<lambda>_. example_hash) (example_prefix a b m) (example_checkpoint a n n)"
proof -
  have size: "int (canonical_bytes (WArr [committed_row_wire (example_row m)])) \<le> page_bytes"
    using canonical_bytes_bound[of "WArr [committed_row_wire (example_row m)]"] assms
    by (simp add: committed_row_wire_def example_row_def example_row_id_def row_id_wire_def pane_wire_def example_pane_def
        sort_keys_def page_bytes_def mib_def)
  note valid = example_checkpoint_valid[of a n n] example_checkpoint_valid[of b m m]
  have same: "same_pane example_pane example_pane" "v2_same_epoch example_epoch example_epoch"
    by (simp_all add: v2_same_epoch_def same_pane_def example_pane_ok example_epoch_def)
  show ?thesis
    using valid size same assms unfolding v2_decode_prefix_valid_def Let_def
    by (simp add: example_prefix_def example_range_def example_row_def rows_serialized_bytes_def last_row_def
        safe_nonneg_def max_safe_def pending_bytes_per_pane_def mib_def pending_rows_per_pane_def page_bytes_def)
      (simp add: example_checkpoint_def example_row_id_def)
qed


end
