(* ===== verification/V2_Replay.thy ===== *)
theory V2_Replay
  imports V2_Decode
begin

text \<open>
  Indexed replay of whole spool records, \<open>server/src/stream-contract.ts\<close>
  (\<open>v2ContainingReplayRecordsValid\<close>): what a client may slice out of a bounded reply.
\<close>

section \<open>Spool records\<close>

datatype spool_payload =
    BytesPayload "int list"
  | ResizePayload geometry
  | ControlBytes jstr jstr

record spool_record =
  so_version :: int
  so_operation_id :: jstr
  so_range :: raw_range
  so_sequence :: int
  so_previous_digest :: "jstr option"
  so_digest :: jstr
  so_payload :: spool_payload

record spool_ack =
  sa_kind :: jstr
  sa_version :: int
  sa_through :: raw_position
  sa_record_digest :: jstr
  sa_commit_id :: jstr
  sa_segment_id :: jstr

fun spool_payload_wire :: "spool_payload \<Rightarrow> wire" where
  "spool_payload_wire (BytesPayload bs) = WObj [(''kind'', ascii ''bytes''), (''bytes'', WArr (map WInt bs))]"
| "spool_payload_wire (ResizePayload g) = WObj [(''kind'', ascii ''resize''), (''geometry'', geometry_wire g)]"
| "spool_payload_wire (ControlBytes n d) = WObj [(''kind'', ascii ''control''), (''name'', WStr n), (''data'', WStr d)]"

definition spool_fields :: "spool_record \<Rightarrow> (string \<times> wire) list" where
  "spool_fields r = [(''version'', WInt (so_version r)), (''operationId'', WStr (so_operation_id r)),
     (''range'', raw_range_wire (so_range r)), (''sequence'', WInt (so_sequence r)),
     (''previousDigest'', opt_wire WStr (so_previous_digest r)), (''payload'', spool_payload_wire (so_payload r))]"

definition source_spool_digest :: "(jstr \<Rightarrow> jstr) \<Rightarrow> spool_record \<Rightarrow> jstr" where
  "source_spool_digest sha r = digest_of sha ''spool-record'' (WObj (spool_fields r))"

definition spool_ack_wire :: "spool_ack \<Rightarrow> wire" where
  "spool_ack_wire a = WObj [(''kind'', WStr (sa_kind a)), (''version'', WInt (sa_version a)),
     (''through'', raw_position_wire (sa_through a)), (''recordDigest'', WStr (sa_record_digest a)),
     (''commitId'', WStr (sa_commit_id a)), (''segmentId'', WStr (sa_segment_id a))]"

section \<open>Budgets and replies\<close>

record replay_budget =
  rb_max_records :: int
  rb_max_raw_bytes :: int
  rb_max_serialized_bytes :: int

record records_reply =
  rr_schema :: jstr
  rr_requested :: raw_position
  rr_records :: "(spool_record \<times> spool_ack) list"
  rr_next :: raw_position
  rr_at_durable_head :: bool

datatype containing_replay =
    RecordsReply records_reply
  | BelowFloorReply raw_position
  | BudgetRequiredReply raw_position replay_budget

definition record_bytes_limit :: int where "record_bytes_limit = 16 * 1024"
definition max_records_limit :: int where "max_records_limit = 16"
definition max_raw_bytes_limit :: int where "max_raw_bytes_limit = 64 * 1024"
definition max_serialized_limit :: int where "max_serialized_limit = 256 * 1024 - 4096"

definition replay_budget_valid :: "replay_budget \<Rightarrow> bool" where
  "replay_budget_valid b \<longleftrightarrow> first_failure
     [v2_int (rb_max_records b) 1 max_records_limit, v2_int (rb_max_raw_bytes b) 1 max_raw_bytes_limit,
      v2_int (rb_max_serialized_bytes b) 1 max_serialized_limit] = None"

definition reply_wire :: "records_reply \<Rightarrow> wire" where
  "reply_wire r = WObj [(''schema'', WStr (rr_schema r)), (''kind'', ascii ''records''),
     (''requested'', raw_position_wire (rr_requested r)),
     (''records'', WArr (map (\<lambda>(rc, ack). WObj
        [(''record'', WObj (spool_fields rc @ [(''digest'', WStr (so_digest rc))])), (''ack'', spool_ack_wire ack)]) (rr_records r))),
     (''next'', raw_position_wire (rr_next r)), (''atDurableHead'', WBool (rr_at_durable_head r))]"

definition record_length :: "spool_record \<Rightarrow> int" where
  "record_length r = rw_end (so_range r) - rw_start (so_range r)"

text \<open>The bytes of a record that is in range of its own declaration.\<close>

definition record_bytes_ok :: "spool_record \<Rightarrow> bool" where
  "record_bytes_ok r \<longleftrightarrow>
     (case so_payload r of
        BytesPayload bs \<Rightarrow> 1 \<le> record_length r \<and> record_length r \<le> record_bytes_limit \<and>
          int (length bs) = record_length r \<and> list_all (\<lambda>b. 0 \<le> b \<and> b \<le> 255) bs
      | _ \<Rightarrow> False)"

definition record_checks :: "pipe_epoch \<Rightarrow> spool_record \<times> spool_ack \<Rightarrow> bool" where
  "record_checks epoch ra \<longleftrightarrow>
     (let (r, a) = ra in
      so_version r = 1 \<and> v2_same_epoch (rw_epoch (so_range r)) epoch \<and>
      first_failure [v2_nat (rw_start (so_range r)), v2_nat (rw_end (so_range r)), v2_nat (so_sequence r),
        v2_identity (so_operation_id r), v2_identity (sa_segment_id a)] = None \<and>
      record_bytes_ok r)"

definition record_signed :: "(jstr \<Rightarrow> jstr) \<Rightarrow> spool_record \<times> spool_ack \<Rightarrow> bool" where
  "record_signed sha ra \<longleftrightarrow>
     (let (r, a) = ra in
      contract_hash (so_digest r) \<and> (case so_previous_digest r of None \<Rightarrow> True | Some d \<Rightarrow> contract_hash d) \<and>
      so_digest r = source_spool_digest sha r)"

definition ack_matches :: "spool_record \<times> spool_ack \<Rightarrow> bool" where
  "ack_matches ra \<longleftrightarrow>
     (let (r, a) = ra in
      sa_kind a = js ''synced-spool'' \<and> sa_version a = 1 \<and> sa_commit_id a = so_operation_id r \<and>
      sa_record_digest a = so_digest r \<and>
      sa_through a = \<lparr>rp_epoch = rw_epoch (so_range r), rp_byte_offset = rw_end (so_range r)\<rparr>)"

definition follows :: "int \<Rightarrow> spool_record option \<Rightarrow> spool_record \<Rightarrow> bool" where
  "follows requested previous r =
     (case previous of
        None \<Rightarrow> rw_start (so_range r) \<le> requested \<and> requested < rw_end (so_range r)
      | Some p \<Rightarrow> rw_start (so_range r) = rw_end (so_range p) \<and> so_sequence r = so_sequence p + 1 \<and>
          so_previous_digest r = Some (so_digest p))"

text \<open>The loop over the records; \<open>Some next\<close> is the position after the last one.\<close>

fun records_loop ::
  "(jstr \<Rightarrow> jstr) \<Rightarrow> raw_position \<Rightarrow> int \<Rightarrow> spool_record option \<Rightarrow> int \<Rightarrow> int \<Rightarrow> (spool_record \<times> spool_ack) list \<Rightarrow> int option" where
  "records_loop sha requested budget previous bytes next [] = Some next"
| "records_loop sha requested budget previous bytes next (ra # ras) =
     (if \<not> record_checks (rp_epoch requested) ra then None
      else if budget < bytes + record_length (fst ra) then None
      else if \<not> record_signed sha ra then None
      else if \<not> follows (rp_byte_offset requested) previous (fst ra) then None
      else if \<not> ack_matches ra then None
      else records_loop sha requested budget (Some (fst ra)) (bytes + record_length (fst ra)) (rw_end (so_range (fst ra))) ras)"

definition records_reply_valid :: "(jstr \<Rightarrow> jstr) \<Rightarrow> containing_replay \<Rightarrow> raw_position \<Rightarrow> replay_budget \<Rightarrow> bool" where
  "records_reply_valid sha reply requested budget =
     (case reply of
        RecordsReply r \<Rightarrow>
          replay_budget_valid budget \<and> rr_schema r = v2_schema \<and> rr_requested r = requested \<and>
          v2_same_epoch (rp_epoch (rr_next r)) (rp_epoch requested) \<and>
          int (length (rr_records r)) \<le> rb_max_records budget \<and>
          first_failure ([v2_nat (rp_byte_offset requested), v2_nat (rp_byte_offset (rr_next r))] @
            v2_pane_checks (pe_pane (rp_epoch requested))) = None \<and>
          (case records_loop sha requested (rb_max_raw_bytes budget) None 0 (rp_byte_offset requested) (rr_records r) of
             None \<Rightarrow> False
           | Some next \<Rightarrow> rp_byte_offset (rr_next r) = next \<and> (rr_records r \<noteq> [] \<or> rr_at_durable_head r)) \<and>
          int (utf8_size (json_text (reply_wire r))) \<le> rb_max_serialized_bytes budget
      | _ \<Rightarrow> False)"

section \<open>What may be sliced out of a valid reply\<close>

fun payload_bytes :: "spool_payload \<Rightarrow> int list" where
  "payload_bytes (BytesPayload bs) = bs"
| "payload_bytes _ = []"

definition reply_payload :: "records_reply \<Rightarrow> int list" where
  "reply_payload r = concat (map (payload_bytes \<circ> so_payload \<circ> fst) (rr_records r))"

text \<open>The digest chain of the records, and where they start.\<close>

fun record_chain :: "spool_record list \<Rightarrow> bool" where
  "record_chain [] = True"
| "record_chain [r] = True"
| "record_chain (r # q # rs) = (follows 0 (Some r) q \<and> record_chain (q # rs))"

lemma record_checks_length: "record_checks epoch ra \<Longrightarrow> int (length (payload_bytes (so_payload (fst ra)))) = record_length (fst ra)"
  by (auto simp: record_checks_def record_bytes_ok_def Let_def split: prod.splits spool_payload.splits)

lemma records_loop_sound:
  assumes "records_loop sha requested budget previous bytes nx ras = Some final"
  shows "final = nx + (if ras = [] then 0 else rw_start (so_range (fst (hd ras))) - nx) +
      int (length (concat (map (payload_bytes \<circ> so_payload \<circ> fst) ras))) \<and>
    (ras \<noteq> [] \<longrightarrow> follows (rp_byte_offset requested) previous (fst (hd ras)) \<and>
       bytes + int (length (concat (map (payload_bytes \<circ> so_payload \<circ> fst) ras))) \<le> budget) \<and>
    record_chain (map fst ras) \<and> list_all (\<lambda>ra. record_signed sha ra \<and> ack_matches ra) ras"
  using assms
proof (induction ras arbitrary: previous bytes nx)
  case (Cons ra ras)
  have ok: "record_checks (rp_epoch requested) ra" "bytes + record_length (fst ra) \<le> budget" "record_signed sha ra"
    "follows (rp_byte_offset requested) previous (fst ra)" "ack_matches ra"
    and rest: "records_loop sha requested budget (Some (fst ra)) (bytes + record_length (fst ra)) (rw_end (so_range (fst ra))) ras = Some final"
    using Cons.prems by (auto split: if_splits)
  note len = record_checks_length[OF ok(1)]
  note IH = Cons.IH[OF rest]
  have chain: "record_chain (map fst (ra # ras))"
    using IH by (cases ras) (simp_all add: follows_def)
  have start: "ras \<noteq> [] \<Longrightarrow> rw_start (so_range (fst (hd ras))) = rw_end (so_range (fst ra))"
    using IH by (simp add: follows_def)
  show ?case using IH ok len chain start by (auto simp: record_length_def)
qed simp


text \<open>Bytes 4 to 7 in one record, asked for from 5 on.\<close>

definition example_record :: spool_record where
  "example_record = \<lparr>so_version = 1, so_operation_id = js ''v'', so_range = example_range 4 7, so_sequence = 2,
     so_previous_digest = Some example_hash, so_digest = example_hash, so_payload = BytesPayload [27, 91, 72]\<rparr>"

definition example_ack :: spool_ack where
  "example_ack = \<lparr>sa_kind = js ''synced-spool'', sa_version = 1,
     sa_through = \<lparr>rp_epoch = example_epoch, rp_byte_offset = 7\<rparr>, sa_record_digest = example_hash,
     sa_commit_id = js ''v'', sa_segment_id = js ''k''\<rparr>"

definition example_reply :: records_reply where
  "example_reply = \<lparr>rr_schema = v2_schema, rr_requested = \<lparr>rp_epoch = example_epoch, rp_byte_offset = 5\<rparr>,
     rr_records = [(example_record, example_ack)], rr_next = \<lparr>rp_epoch = example_epoch, rp_byte_offset = 7\<rparr>,
     rr_at_durable_head = False\<rparr>"

definition example_budget :: replay_budget where
  "example_budget = \<lparr>rb_max_records = 4, rb_max_raw_bytes = 100, rb_max_serialized_bytes = 100000\<rparr>"

lemma example_reply_valid:
  "records_reply_valid (\<lambda>_. example_hash) (RecordsReply example_reply) \<lparr>rp_epoch = example_epoch, rp_byte_offset = 5\<rparr> example_budget"
proof -
  have size: "int (utf8_size (json_text (reply_wire example_reply))) \<le> 100000"
    using utf8_size_bound[of "json_text (reply_wire example_reply)"] length_json_text[of "reply_wire example_reply"]
    by (simp add: reply_wire_def example_reply_def spool_fields_def example_record_def spool_ack_wire_def example_ack_def
        raw_position_wire_def raw_range_wire_def epoch_wire_def pane_wire_def example_epoch_def example_pane_def
        example_range_def example_hash_def ascii_def v2_schema_def del: json_text.simps)
  have epoch: "v2_same_epoch example_epoch example_epoch"
    by (simp add: v2_same_epoch_def same_pane_def example_pane_ok example_epoch_def)
  have pane: "list_all fst (v2_pane_checks (pe_pane example_epoch))" by (simp add: example_epoch_def example_pane_ok(2))
  show ?thesis
    using size epoch pane example_hash_ok example_texts
    by (simp add: records_reply_valid_def replay_budget_valid_def example_budget_def v2_int_def safe_int_def max_safe_def
        max_records_limit_def max_raw_bytes_limit_def max_serialized_limit_def)
      (simp add: example_reply_def record_checks_def example_record_def example_ack_def example_range_def v2_int_def safe_int_def
        max_safe_def record_bytes_ok_def record_length_def record_bytes_limit_def record_signed_def source_spool_digest_def
        digest_of_def follows_def ack_matches_def)
qed


end
