(* ===== verification/V2_Authority.thy ===== *)
theory V2_Authority
  imports V2_Replay
begin

text \<open>
  The write and resume authority of NEWARCH v2, \<open>server/src/stream-contract.ts\<close>: write dispositions,
  audit admission, incidents, prefix acknowledgements, trimming, incident resolution and the decision
  whether a pane may resume after a restart. A guard that turns a throw into \<open>false\<close> is a boolean.
\<close>

section \<open>Receipts and write dispositions\<close>

record v2_receipt =
  re_schema :: jstr
  re_kind :: jstr
  re_operation_id :: jstr
  re_pane :: pane_key
  re_digest :: jstr
  re_commit_id :: jstr
  re_generation :: int
  re_revision :: int
  re_frontier :: "segment_row_id option"
  re_checkpoint_id :: "jstr option"

record v2_fence =
  fe_operation_id :: jstr
  fe_pane :: pane_key
  fe_expected_generation :: int
  fe_expected_revision :: int
  fe_digest :: jstr

datatype disposition = Commit | Retry | Stale | Integrity

definition hash_check :: "jstr \<Rightarrow> check" where
  "hash_check h = (contract_hash h, ''contract invalid SHA-256'')"

definition v2_write_disposition :: "v2_fence \<Rightarrow> int \<Rightarrow> int \<Rightarrow> v2_receipt option \<Rightarrow> string + disposition" where
  "v2_write_disposition f generation revision previous =
     (case first_failure ([v2_int (fe_expected_generation f) 1 max_safe, v2_nat (fe_expected_revision f),
             v2_int generation 1 max_safe, v2_nat revision, v2_identity (fe_operation_id f), hash_check (fe_digest f)] @
             v2_pane_checks (fe_pane f)) of
        Some e \<Rightarrow> Inl e
      | None \<Rightarrow>
          if fe_expected_generation f \<noteq> generation then Inr Stale
          else case previous of
                 Some r \<Rightarrow>
                   if re_operation_id r = fe_operation_id f \<and> re_digest r = fe_digest f
                   then (case first_failure (v2_pane_checks (re_pane r)) of
                           Some e \<Rightarrow> Inl e
                         | None \<Rightarrow> Inr (if re_pane r = fe_pane f then Retry else Integrity))
                   else Inr Integrity
               | None \<Rightarrow> Inr (if fe_expected_revision f = revision then Commit else Stale))"

datatype owner_lookup = LegacyOwner session_key | CaptureEngineOwner pane_key | UnknownOwner

definition v2_legacy_append_allowed :: "owner_lookup \<Rightarrow> session_key \<Rightarrow> string + bool" where
  "v2_legacy_append_allowed owner current =
     (case owner of
        LegacyOwner s \<Rightarrow>
          (case first_failure (v2_session_checks s @ v2_session_checks current) of
             Some e \<Rightarrow> Inl e | None \<Rightarrow> Inr (s = current))
      | _ \<Rightarrow> Inr False)"

section \<open>Audits and geometry\<close>

record audit_watermark =
  aw_pane :: pane_key
  aw_through :: raw_position
  aw_revision :: int
  aw_geometry :: fixed_geometry
  aw_checkpoint_id :: jstr

datatype audit_ordering = CertifiedFence jstr evidence_file | UnprovenOrdering

record audit_evidence =
  ad_before :: audit_watermark
  ad_after :: audit_watermark
  ad_snapshot :: audit_watermark
  ad_ordering :: audit_ordering
  ad_capture_bytes :: int
  ad_elapsed_ms :: jnum

fun elapsed_ok :: "int \<Rightarrow> jnum \<Rightarrow> bool" where
  "elapsed_ok limit (Fin q) = (0 \<le> q \<and> q \<le> of_int limit)"
| "elapsed_ok limit _ = False"

definition v2_audit_comparable :: "audit_evidence \<Rightarrow> audit_watermark \<Rightarrow> v2_audit_config \<Rightarrow> bool" where
  "v2_audit_comparable e current c \<longleftrightarrow>
     ac_enabled c \<and>
     (case ad_ordering e of
        UnprovenOrdering \<Rightarrow> False
      | CertifiedFence certificate proof_file \<Rightarrow>
          certificate \<noteq> [] \<and> ev_path proof_file \<noteq> [] \<and> contract_hash (ev_sha256 proof_file) \<and>
          safe_int (ev_bytes proof_file) \<and> 1 \<le> ev_bytes proof_file \<and> ev_bytes proof_file \<le> diagnostic_event_bytes) \<and>
     safe_nonneg (ad_capture_bytes e) \<and> ad_capture_bytes e \<le> ac_max_capture_bytes c \<and>
     elapsed_ok (ac_timeout_ms c) (ad_elapsed_ms e) \<and>
     ad_before e = ad_after e \<and> ad_after e = ad_snapshot e \<and> ad_snapshot e = current"

record pane_descriptor =
  pd_session :: session_key
  pd_pane :: pane_key
  pd_window_id :: jstr
  pd_geometry :: fixed_geometry

record geometry_observation =
  go_pane :: pane_key
  go_window_id :: jstr
  go_window :: geometry
  go_terminal :: geometry
  go_panes_in_window :: int

definition fits :: "fixed_geometry \<Rightarrow> geometry \<Rightarrow> bool" where
  "fits f g \<longleftrightarrow> geo_columns g = fg_columns f \<and> geo_rows g = fg_rows f"

definition v2_geometry_matches :: "pane_descriptor \<Rightarrow> geometry_observation \<Rightarrow> bool" where
  "v2_geometry_matches d ob \<longleftrightarrow>
     same_pane (pd_pane d) (go_pane ob) \<and> pd_window_id d = go_window_id ob \<and>
     fg_policy (pd_geometry d) = js ''fixed-at-birth'' \<and> fg_panes_per_window (pd_geometry d) = 1 \<and>
     go_panes_in_window ob = 1 \<and> list_all (fits (pd_geometry d)) [go_window ob, go_terminal ob]"

definition v2_defer_within_budget :: "int \<Rightarrow> int \<Rightarrow> int \<Rightarrow> int \<Rightarrow> int \<Rightarrow> bool" where
  "v2_defer_within_budget pending_rows pending_bytes deadline first_deferred now \<longleftrightarrow>
     list_all safe_nonneg [pending_rows, pending_bytes, deadline, first_deferred, now] \<and>
     pending_rows \<le> int pending_rows_per_pane \<and> pending_bytes \<le> pending_bytes_per_pane \<and>
     first_deferred \<le> now \<and> now < deadline \<and> deadline - first_deferred \<le> 1000"

section \<open>Incidents\<close>

record source_epoch =
  se_attach_id :: jstr
  se_collector_incarnation :: jstr

definition source_epoch_of :: "pipe_epoch \<Rightarrow> source_epoch" where
  "source_epoch_of e = \<lparr>se_attach_id = pe_attach_id e, se_collector_incarnation = pe_collector_incarnation e\<rparr>"

datatype incident_action = GapAndStop | Annotate | RepairPending

record incident_evidence =
  ie_digest :: jstr
  ie_bytes :: int
  ie_redacted :: bool

record v2_incident =
  in_schema :: jstr
  in_incident_id :: jstr
  in_pane :: pane_key
  in_reason :: jstr
  in_frontier :: "segment_row_id option"
  in_affected_after :: "segment_row_id option"
  in_affected_through :: "segment_row_id option"
  in_opened_at_wall_ms :: int
  in_opened_at_mono_ms :: int
  in_clock_epoch :: jstr
  in_collecting :: bool
  in_missing :: missing_count
  in_rule_version :: jstr
  in_config_version :: jstr
  in_geometry :: fixed_geometry
  in_revision :: int
  in_source_epoch :: "source_epoch option"
  in_source_offset :: "int option"
  in_expected_digest :: "jstr option"
  in_actual_digest :: "jstr option"
  in_action :: incident_action
  in_evidence :: "incident_evidence option"

fun missing_checks :: "missing_count \<Rightarrow> check list" where
  "missing_checks MissingUnknown = []"
| "missing_checks (MissingExact n) = [v2_nat n]"
| "missing_checks (MissingEstimate n) = [v2_nat n]"

definition incident_row_checks :: "pane_key \<Rightarrow> segment_row_id option \<Rightarrow> check list" where
  "incident_row_checks pane row =
     (case row of None \<Rightarrow> []
      | Some r \<Rightarrow> [v2_identity (sr_segment_id r), v2_nat (sr_row_ordinal r)] @ v2_pane_checks (sr_pane r) @
          [(sr_pane r = pane, ''v2 incident pane'')])"

definition opt_checks :: "('a \<Rightarrow> check list) \<Rightarrow> 'a option \<Rightarrow> check list" where
  "opt_checks f v = (case v of None \<Rightarrow> [] | Some x \<Rightarrow> f x)"

definition incident_checks :: "v2_incident \<Rightarrow> check list" where
  "incident_checks i =
     [(in_schema i = v2_schema, ''v2 incident schema''), v2_identity (in_incident_id i)] @ v2_pane_checks (in_pane i) @
     [v2_identity (in_clock_epoch i), v2_nat (in_opened_at_wall_ms i), v2_nat (in_opened_at_mono_ms i), v2_nat (in_revision i),
      ((in_source_offset i = None) = (in_source_epoch i = None), ''v2 incident source'')] @
     opt_checks (\<lambda>n. [v2_nat n]) (in_source_offset i) @
     opt_checks (\<lambda>e. [v2_identity (se_attach_id e), v2_identity (se_collector_incarnation e)]) (in_source_epoch i) @
     concat (map (incident_row_checks (in_pane i)) [in_frontier i, in_affected_after i, in_affected_through i]) @
     missing_checks (in_missing i) @
     [(\<not> (in_action i = GapAndStop \<and> in_collecting i), ''v2 stopped incident'')] @
     concat (map (opt_checks (\<lambda>h. [hash_check h])) [in_expected_digest i, in_actual_digest i]) @
     opt_checks (\<lambda>e. [v2_int (ie_bytes e) 0 diagnostic_event_bytes, hash_check (ie_digest e),
       (ie_redacted e, ''v2 diagnostic redaction'')]) (in_evidence i)"

definition validate_v2_incident :: "v2_incident \<Rightarrow> string option" where
  "validate_v2_incident i = first_failure (incident_checks i)"

text \<open>The id of an incident is the digest of its pane and operation, so a retry reuses it.\<close>

definition v2_incident_id :: "(jstr \<Rightarrow> jstr) \<Rightarrow> pane_key \<Rightarrow> jstr \<Rightarrow> string + jstr" where
  "v2_incident_id sha pane operation_id =
     (case first_failure (v2_pane_checks pane @ [v2_identity operation_id]) of
        Some e \<Rightarrow> Inl e
      | None \<Rightarrow> Inr (v2_digest sha ''incident-id'' (WObj [(''pane'', pane_wire pane), (''operationId'', WStr operation_id)])))"

section \<open>Read requests\<close>

record history_cursor =
  hc_schema :: jstr
  hc_pane :: pane_key
  hc_store_id :: jstr
  hc_timeline_revision :: int
  hc_token :: jstr

record history_request =
  hr_schema :: jstr
  hr_pane :: pane_key
  hr_cursor :: "history_cursor option"
  hr_direction :: jstr
  hr_max_entries :: int
  hr_max_bytes :: int

definition page_entries :: int where "page_entries = 256"
definition cursor_bytes :: nat where "cursor_bytes = 4096"

definition read_request_checks :: "history_request \<Rightarrow> check list" where
  "read_request_checks r =
     [(hr_schema r = v2_schema \<and> (hr_direction r = js ''before'' \<or> hr_direction r = js ''after''), ''v2 read schema'')] @
     v2_pane_checks (hr_pane r) @ [v2_int (hr_max_entries r) 1 page_entries, v2_int (hr_max_bytes r) 1 page_bytes] @
     opt_checks (\<lambda>c. [(hc_schema c = v2_schema, ''v2 cursor pane'')] @ v2_pane_checks (hc_pane c) @
       [(hc_pane c = hr_pane r, ''v2 cursor pane''), v2_identity (hc_store_id c), v2_text (hc_token c) cursor_bytes,
        v2_nat (hc_timeline_revision c)]) (hr_cursor r)"

definition validate_v2_read_request :: "history_request \<Rightarrow> string option" where
  "validate_v2_read_request r = first_failure (read_request_checks r)"

definition v2_cursor_for_pane :: "pane_key \<Rightarrow> history_cursor option \<Rightarrow> history_cursor option" where
  "v2_cursor_for_pane pane cursor =
     (case cursor of None \<Rightarrow> None
      | Some c \<Rightarrow> if hc_schema c = v2_schema \<and> same_pane (hc_pane c) pane then Some c else None)"

section \<open>Collector receipts and prefix acknowledgements\<close>

record prefix_receipt =
  xr_schema :: jstr
  xr_kind :: jstr
  xr_receipt_id :: jstr
  xr_source_epoch :: source_epoch
  xr_certified :: raw_range
  xr_first_sequence :: int
  xr_last_sequence :: int
  xr_last_record_digest :: jstr
  xr_last_record_end :: int
  xr_digest :: jstr

definition source_epoch_wire :: "source_epoch \<Rightarrow> wire" where
  "source_epoch_wire e = WObj [(''attachId'', WStr (se_attach_id e)), (''collectorIncarnation'', WStr (se_collector_incarnation e))]"

definition prefix_receipt_digest :: "(jstr \<Rightarrow> jstr) \<Rightarrow> prefix_receipt \<Rightarrow> jstr" where
  "prefix_receipt_digest sha r = v2_digest sha ''source-prefix-receipt''
     (WObj [(''schema'', WStr (xr_schema r)), (''kind'', WStr (xr_kind r)), (''receiptId'', WStr (xr_receipt_id r)),
        (''sourceEpoch'', source_epoch_wire (xr_source_epoch r)), (''certified'', raw_range_wire (xr_certified r)),
        (''firstSequence'', WInt (xr_first_sequence r)), (''lastSequence'', WInt (xr_last_sequence r)),
        (''lastRecordDigest'', WStr (xr_last_record_digest r)), (''lastRecordEnd'', WInt (xr_last_record_end r))])"

definition receipt_counters :: "prefix_receipt \<Rightarrow> int list" where
  "receipt_counters r = [rw_start (xr_certified r), rw_end (xr_certified r), xr_first_sequence r, xr_last_sequence r, xr_last_record_end r]"

datatype batch_input = SpoolInput spool_ack | PrefixInput prefix_receipt

definition v2_batch_input_matches_issued ::
  "(jstr \<Rightarrow> jstr) \<Rightarrow> batch_input \<Rightarrow> batch_input option \<Rightarrow> v2_checkpoint \<Rightarrow> v2_checkpoint \<Rightarrow> bool" where
  "v2_batch_input_matches_issued sha inp issued previous checkpoint \<longleftrightarrow>
     issued = Some inp \<and>
     (let epoch = rp_epoch (ck_through checkpoint) in
      case inp of
        SpoolInput a \<Rightarrow> sa_version a = 1 \<and> sa_through a = ck_through checkpoint
      | PrefixInput r \<Rightarrow>
          xr_kind r = js ''source-prefix'' \<and> xr_schema r = v2_schema \<and>
          validate_v2_checkpoint sha previous = None \<and> validate_v2_checkpoint sha checkpoint = None \<and>
          xr_digest r = prefix_receipt_digest sha r \<and> fst (v2_identity (xr_receipt_id r)) \<and>
          contract_hash (xr_last_record_digest r) \<and> list_all safe_nonneg (receipt_counters r) \<and>
          same_pane (ck_pane previous) (ck_pane checkpoint) \<and>
          v2_same_epoch (rp_epoch (ck_through previous)) epoch \<and> v2_same_epoch (rw_epoch (xr_certified r)) epoch \<and>
          xr_source_epoch r = source_epoch_of epoch \<and>
          rw_start (xr_certified r) = rp_byte_offset (ck_through previous) \<and>
          rw_end (xr_certified r) = rp_byte_offset (ck_through checkpoint) \<and>
          rw_start (xr_certified r) < rw_end (xr_certified r) \<and>
          rw_end (xr_certified r) - rw_start (xr_certified r) \<le> pending_bytes_per_pane \<and>
          rw_end (xr_certified r) \<le> xr_last_record_end r \<and> xr_first_sequence r \<le> xr_last_sequence r)"

record prefix_ack =
  pa_schema :: jstr
  pa_kind :: jstr
  pa_pane :: pane_key
  pa_through :: raw_position
  pa_record_complete :: bool
  pa_source :: prefix_receipt
  pa_receipt :: v2_receipt
  pa_writer_generation :: int
  pa_continuity_generation :: int
  pa_source_epoch :: source_epoch

definition v2_prefix_ack_valid :: "(jstr \<Rightarrow> jstr) \<Rightarrow> prefix_ack \<Rightarrow> v2_checkpoint \<Rightarrow> int \<Rightarrow> int \<Rightarrow> bool" where
  "v2_prefix_ack_valid sha ack checkpoint writer_generation continuity_generation \<longleftrightarrow>
     (let s = pa_source ack; r = pa_receipt ack; epoch = rp_epoch (ck_through checkpoint);
          off = rp_byte_offset (pa_through ack) in
      validate_v2_checkpoint sha checkpoint = None \<and>
      pa_schema ack = v2_schema \<and> pa_kind ack = js ''prefix-ack'' \<and> xr_schema s = v2_schema \<and>
      xr_kind s = js ''source-prefix'' \<and> xr_digest s = prefix_receipt_digest sha s \<and>
      fst (v2_identity (xr_receipt_id s)) \<and> contract_hash (xr_last_record_digest s) \<and>
      list_all safe_nonneg (receipt_counters s) \<and> safe_nonneg off \<and>
      same_pane (pa_pane ack) (ck_pane checkpoint) \<and> same_pane (re_pane r) (ck_pane checkpoint) \<and>
      v2_same_epoch (rp_epoch (pa_through ack)) epoch \<and> v2_same_epoch (rw_epoch (xr_certified s)) epoch \<and>
      xr_source_epoch s = source_epoch_of epoch \<and> pa_source_epoch ack = xr_source_epoch s \<and>
      re_schema r = v2_schema \<and> re_kind r = js ''ssot-durable'' \<and> re_checkpoint_id r = Some (ck_checkpoint_id checkpoint) \<and>
      re_revision r = ck_revision checkpoint \<and> re_frontier r = ck_frontier checkpoint \<and>
      re_generation r = pa_writer_generation ack \<and> pa_writer_generation ack = writer_generation \<and>
      pa_continuity_generation ack = continuity_generation \<and>
      off = rp_byte_offset (ck_through checkpoint) \<and> rw_start (xr_certified s) \<le> off \<and> off \<le> rw_end (xr_certified s) \<and>
      rw_start (xr_certified s) \<le> rw_end (xr_certified s) \<and> rw_end (xr_certified s) = off \<and>
      rw_end (xr_certified s) \<le> xr_last_record_end s \<and> xr_first_sequence s \<le> xr_last_sequence s \<and>
      pa_record_complete ack = (off = xr_last_record_end s))"

definition v2_prefix_ack_matches_issued ::
  "(jstr \<Rightarrow> jstr) \<Rightarrow> prefix_ack \<Rightarrow> prefix_receipt \<Rightarrow> v2_checkpoint \<Rightarrow> int \<Rightarrow> int \<Rightarrow> bool" where
  "v2_prefix_ack_matches_issued sha ack issued checkpoint writer_generation continuity_generation \<longleftrightarrow>
     xr_schema issued = v2_schema \<and> xr_kind issued = js ''source-prefix'' \<and>
     xr_digest issued = prefix_receipt_digest sha issued \<and> pa_source ack = issued \<and>
     v2_prefix_ack_valid sha ack checkpoint writer_generation continuity_generation"

section \<open>Trimming\<close>

record trim_authorization =
  ta_schema :: jstr
  ta_checkpoint :: v2_checkpoint
  ta_receipt :: v2_receipt
  ta_consumer_ack :: spool_ack
  ta_trim_through :: raw_position

definition v2_trim_within_checkpoint :: "trim_authorization \<Rightarrow> bool" where
  "v2_trim_within_checkpoint a \<longleftrightarrow>
     (let c = ta_checkpoint a; r = ta_receipt a;
          positions = [ck_through c, ck_replay_floor c, sa_through (ta_consumer_ack a), ta_trim_through a] in
      ta_schema a = v2_schema \<and> re_schema r = v2_schema \<and> sa_kind (ta_consumer_ack a) = js ''synced-spool'' \<and>
      sa_version (ta_consumer_ack a) = 1 \<and> re_kind r = js ''ssot-durable'' \<and>
      re_checkpoint_id r = Some (ck_checkpoint_id c) \<and> re_revision r = ck_revision c \<and>
      same_pane (re_pane r) (ck_pane c) \<and>
      list_all (\<lambda>p. safe_nonneg (rp_byte_offset p) \<and> rp_epoch p = rp_epoch (ck_through c) \<and>
        same_pane (pe_pane (rp_epoch p)) (ck_pane c)) positions \<and>
      rp_byte_offset (ta_trim_through a) \<le> rp_byte_offset (ck_replay_floor c) \<and>
      rp_byte_offset (ck_replay_floor c) \<le> rp_byte_offset (ck_through c) \<and>
      rp_byte_offset (ck_through c) = rp_byte_offset (sa_through (ta_consumer_ack a)))"

record raw_pin_census =
  cs_schema :: jstr
  cs_pane :: pane_key
  cs_epoch :: pipe_epoch
  cs_revision :: int
  cs_writer_generation :: int
  cs_raw_pins :: "raw_position list"

definition v2_raw_trim_unpinned :: "trim_authorization \<Rightarrow> raw_pin_census \<Rightarrow> int \<Rightarrow> bool" where
  "v2_raw_trim_unpinned a census current \<longleftrightarrow>
     v2_trim_within_checkpoint a \<and> cs_schema census = v2_schema \<and>
     same_pane (cs_pane census) (ck_pane (ta_checkpoint a)) \<and> v2_same_epoch (cs_epoch census) (rp_epoch (ta_trim_through a)) \<and>
     cs_revision census = ck_revision (ta_checkpoint a) \<and> cs_writer_generation census = current \<and>
     re_generation (ta_receipt a) = current \<and>
     list_all (\<lambda>p. v2_same_epoch (rp_epoch p) (cs_epoch census) \<and>
       rp_byte_offset (ta_trim_through a) \<le> rp_byte_offset p) (cs_raw_pins census)"

section \<open>Resuming after a restart\<close>

record process_identity =
  pi_pid :: int
  pi_start_time :: jstr
  pi_boot_id :: jstr

record server_identity =
  si_server_identity :: jstr
  si_process :: process_identity

record collector_identity =
  co_incarnation :: jstr
  co_process :: process_identity

definition required_events :: "jstr list" where
  "required_events = [js ''resize'', js ''layout'', js ''split'', js ''window'', js ''pipe'', js ''server-exit'']"

record event_watch =
  wt_kind :: jstr
  wt_journal :: evidence_file
  wt_coverage_proof :: evidence_file
  wt_covers :: "jstr list"
  wt_from_seq :: int
  wt_through_seq :: int
  wt_watermark_digest :: jstr
  wt_overflow :: bool
  wt_lost_events :: int
  wt_topology_events :: int

record continuity_witness =
  cw_schema :: jstr
  cw_witness_id :: jstr
  cw_pane :: pane_key
  cw_window_id :: jstr
  cw_server :: server_identity
  cw_collector :: collector_identity
  cw_collector_unit :: jstr
  cw_source_epoch :: source_epoch
  cw_raw :: raw_range
  cw_first_sequence :: int
  cw_last_sequence :: int
  cw_chain_digest :: jstr
  cw_continuity_generation :: int
  cw_geometry :: fixed_geometry
  cw_watch :: event_watch
  cw_digest :: jstr

datatype continuity_evidence =
    CollectorWitness continuity_witness
  | SnapshotPair geometry_observation geometry_observation
  | PipeFlag
  | Heartbeat int

datatype resume_refusal = NotAWitness | WitnessDigest | IdentityRefusal | CollectorEpoch | CollectorWithHost | RawRefusal
  | GeometryRefusal | EventCoverage | EventOverflow | TopologyChanged

record resume_proof =
  rf_pane :: pane_key
  rf_from :: raw_position
  rf_through :: raw_position
  rf_geometry :: fixed_geometry
  rf_source_evidence :: evidence_file

datatype resume_decision = Continuous resume_proof | Unverified resume_refusal

record resume_context =
  rx_checkpoint :: v2_checkpoint
  rx_descriptor :: pane_descriptor
  rx_server :: server_identity
  rx_collector :: collector_identity
  rx_source_epoch :: source_epoch
  rx_continuity_generation :: int
  rx_host_unit :: jstr
  rx_durable_raw_through :: raw_position

definition process_wire :: "process_identity \<Rightarrow> wire" where
  "process_wire p = WObj [(''pid'', WInt (pi_pid p)), (''startTime'', WStr (pi_start_time p)), (''bootId'', WStr (pi_boot_id p))]"

definition evidence_wire :: "evidence_file \<Rightarrow> wire" where
  "evidence_wire e = WObj [(''path'', WStr (ev_path e)), (''bytes'', WInt (ev_bytes e)), (''sha256'', WStr (ev_sha256 e))]"

definition watch_wire :: "event_watch \<Rightarrow> wire" where
  "watch_wire w = WObj [(''kind'', WStr (wt_kind w)), (''journal'', evidence_wire (wt_journal w)),
     (''coverageProof'', evidence_wire (wt_coverage_proof w)), (''covers'', WArr (map WStr (wt_covers w))),
     (''fromSeq'', WInt (wt_from_seq w)), (''throughSeq'', WInt (wt_through_seq w)),
     (''watermarkDigest'', WStr (wt_watermark_digest w)), (''overflow'', WBool (wt_overflow w)),
     (''lostEvents'', WInt (wt_lost_events w)), (''topologyEvents'', WInt (wt_topology_events w))]"

definition continuity_witness_digest :: "(jstr \<Rightarrow> jstr) \<Rightarrow> continuity_witness \<Rightarrow> jstr" where
  "continuity_witness_digest sha w = v2_digest sha ''continuity-witness''
     (WObj [(''schema'', WStr (cw_schema w)), (''witnessId'', WStr (cw_witness_id w)), (''pane'', pane_wire (cw_pane w)),
        (''windowId'', WStr (cw_window_id w)),
        (''server'', WObj [(''serverIdentity'', WStr (si_server_identity (cw_server w))), (''process'', process_wire (si_process (cw_server w)))]),
        (''collector'', WObj [(''incarnation'', WStr (co_incarnation (cw_collector w))),
           (''process'', process_wire (co_process (cw_collector w))), (''unit'', WStr (cw_collector_unit w))]),
        (''sourceEpoch'', source_epoch_wire (cw_source_epoch w)), (''raw'', raw_range_wire (cw_raw w)),
        (''records'', WObj [(''firstSequence'', WInt (cw_first_sequence w)), (''lastSequence'', WInt (cw_last_sequence w)),
           (''chainDigest'', WStr (cw_chain_digest w))]),
        (''continuityGeneration'', WInt (cw_continuity_generation w)), (''geometry'', fixed_geometry_wire (cw_geometry w)),
        (''watch'', watch_wire (cw_watch w))])"

text \<open>
  The checks in order. A throw is the refusal \<open>identity\<close>, which a check can also give; so a check
  is a condition with the refusal to return when it fails.
\<close>

definition resume_checks :: "(jstr \<Rightarrow> jstr) \<Rightarrow> continuity_witness \<Rightarrow> resume_context \<Rightarrow> (bool \<times> resume_refusal) list" where
  "resume_checks sha w ctx =
     (let c = rx_checkpoint ctx; epoch = rp_epoch (ck_through c); d = rx_descriptor ctx; watch = cw_watch w in
      [(validate_v2_checkpoint sha c = None, IdentityRefusal),
       (cw_schema w = v2_schema \<and> cw_digest w = continuity_witness_digest sha w, WitnessDigest),
       (same_pane (cw_pane w) (ck_pane c) \<and> same_pane (pd_pane d) (ck_pane c) \<and>
        cw_window_id w = pd_window_id d \<and> cw_server w = rx_server ctx, IdentityRefusal),
       (cw_collector w = rx_collector ctx \<and> cw_source_epoch w = rx_source_epoch ctx \<and>
        cw_source_epoch w = source_epoch_of epoch \<and>
        se_collector_incarnation (cw_source_epoch w) = co_incarnation (cw_collector w), CollectorEpoch),
       (cw_collector_unit w \<noteq> rx_host_unit ctx, CollectorWithHost),
       (cw_geometry w = pd_geometry d \<and> cw_geometry w = ck_geometry c, GeometryRefusal),
       (wt_kind watch = js ''tmux-event-journal'' \<and> list_all (\<lambda>k. k \<in> set (wt_covers watch)) required_events, EventCoverage),
       (list_all safe_nonneg [wt_from_seq watch, wt_through_seq watch, wt_lost_events watch, wt_topology_events watch], IdentityRefusal),
       (\<not> wt_overflow watch \<and> wt_lost_events watch \<le> 0 \<and> wt_from_seq watch \<le> wt_through_seq watch, EventOverflow),
       (wt_topology_events watch \<le> 0 \<and> cw_continuity_generation w = rx_continuity_generation ctx, TopologyChanged),
       (list_all safe_nonneg [rw_start (cw_raw w), rw_end (cw_raw w), cw_first_sequence w, cw_last_sequence w], IdentityRefusal),
       (rw_epoch (cw_raw w) \<noteq> epoch \<or> pane_ok (pe_pane epoch), IdentityRefusal),
       (rw_epoch (cw_raw w) = epoch \<and> rp_epoch (rx_durable_raw_through ctx) = epoch \<and>
        rw_start (cw_raw w) \<le> rp_byte_offset (ck_through c) \<and>
        rw_end (cw_raw w) = rp_byte_offset (rx_durable_raw_through ctx) \<and>
        rp_byte_offset (ck_through c) \<le> rw_end (cw_raw w) \<and> cw_first_sequence w \<le> cw_last_sequence w, RawRefusal)])"

definition v2_resume_decision :: "(jstr \<Rightarrow> jstr) \<Rightarrow> continuity_evidence \<Rightarrow> resume_context \<Rightarrow> resume_decision" where
  "v2_resume_decision sha e ctx =
     (case e of
        CollectorWitness w \<Rightarrow>
          (case first_failure (resume_checks sha w ctx) of
             Some reason \<Rightarrow> Unverified reason
           | None \<Rightarrow> Continuous \<lparr>rf_pane = ck_pane (rx_checkpoint ctx), rf_from = ck_through (rx_checkpoint ctx),
               rf_through = rx_durable_raw_through ctx, rf_geometry = pd_geometry (rx_descriptor ctx),
               rf_source_evidence = wt_journal (cw_watch w)\<rparr>)
      | _ \<Rightarrow> Unverified NotAWitness)"

section \<open>Pending incidents, resolution and rearming\<close>

record pending_storage =
  ps_schema :: jstr
  ps_kind :: jstr
  ps_pane :: pane_key
  ps_incident_id :: jstr
  ps_incident_digest :: jstr
  ps_cause :: jstr
  ps_journal :: evidence_file

record emergency_incident =
  em_incident :: v2_incident
  em_digest :: jstr
  em_cause :: jstr

fun action_name :: "incident_action \<Rightarrow> string" where
  "action_name GapAndStop = ''gap-and-stop''"
| "action_name Annotate = ''annotate''"
| "action_name RepairPending = ''repair-pending''"

definition incident_evidence_wire :: "incident_evidence \<Rightarrow> wire" where
  "incident_evidence_wire e = WObj [(''digest'', WStr (ie_digest e)), (''bytes'', WInt (ie_bytes e)), (''redacted'', WBool (ie_redacted e))]"

definition incident_wire :: "v2_incident \<Rightarrow> wire" where
  "incident_wire i = WObj [(''schema'', WStr (in_schema i)), (''incidentId'', WStr (in_incident_id i)),
     (''pane'', pane_wire (in_pane i)), (''reason'', WStr (in_reason i)), (''frontier'', opt_wire row_id_wire (in_frontier i)),
     (''affected'', WObj [(''after'', opt_wire row_id_wire (in_affected_after i)), (''through'', opt_wire row_id_wire (in_affected_through i))]),
     (''openedAtWallMs'', WInt (in_opened_at_wall_ms i)), (''openedAtMonoMs'', WInt (in_opened_at_mono_ms i)),
     (''clockEpoch'', WStr (in_clock_epoch i)), (''collecting'', WBool (in_collecting i)),
     (''missing'', WObj (missing_wire (in_missing i))), (''ruleVersion'', WStr (in_rule_version i)),
     (''configVersion'', WStr (in_config_version i)), (''geometry'', fixed_geometry_wire (in_geometry i)),
     (''revision'', WInt (in_revision i)), (''sourceEpoch'', opt_wire source_epoch_wire (in_source_epoch i)),
     (''sourceOffset'', opt_wire WInt (in_source_offset i)), (''expectedDigest'', opt_wire WStr (in_expected_digest i)),
     (''actualDigest'', opt_wire WStr (in_actual_digest i)), (''action'', ascii (action_name (in_action i))),
     (''evidence'', opt_wire incident_evidence_wire (in_evidence i))]"

definition v2_emergency_incident_digest :: "(jstr \<Rightarrow> jstr) \<Rightarrow> v2_incident \<Rightarrow> jstr" where
  "v2_emergency_incident_digest sha i = v2_digest sha ''emergency-incident'' (incident_wire i)"

definition v2_pending_from_emergency ::
  "(jstr \<Rightarrow> jstr) \<Rightarrow> emergency_incident \<Rightarrow> evidence_file \<Rightarrow> string + pending_storage" where
  "v2_pending_from_emergency sha e journal =
     (case first_failure (incident_checks (em_incident e) @
             [(em_digest e = v2_emergency_incident_digest sha (em_incident e) \<and> in_reason (em_incident e) = js ''storage-outage'', ''v2 emergency digest'')]) of
        Some msg \<Rightarrow> Inl msg
      | None \<Rightarrow> Inr \<lparr>ps_schema = v2_schema, ps_kind = js ''pending-storage'', ps_pane = in_pane (em_incident e),
          ps_incident_id = in_incident_id (em_incident e), ps_incident_digest = em_digest e, ps_cause = em_cause e,
          ps_journal = journal\<rparr>)"

datatype read_state =
    ReadExact "int option"
  | ReadIncident v2_incident
  | StorageUnavailable "jstr option" int
  | RemoteUnavailable jstr jstr int

definition v2_pending_read_state :: "pending_storage \<Rightarrow> int \<Rightarrow> string + read_state" where
  "v2_pending_read_state p retry_after =
     (case first_failure [v2_int retry_after 1 max_safe] of
        Some e \<Rightarrow> Inl e | None \<Rightarrow> Inr (StorageUnavailable (Some (ps_incident_id p)) retry_after))"

definition v2_materializes_pending :: "(jstr \<Rightarrow> jstr) \<Rightarrow> pending_storage \<Rightarrow> v2_incident \<Rightarrow> bool" where
  "v2_materializes_pending sha p i \<longleftrightarrow>
     validate_v2_incident i = None \<and> ps_schema p = v2_schema \<and> ps_kind p = js ''pending-storage'' \<and>
     in_reason i = js ''storage-outage'' \<and> ps_incident_id p = in_incident_id i \<and>
     same_pane (ps_pane p) (in_pane i) \<and> ps_incident_digest p = v2_emergency_incident_digest sha i"

record incident_resolution =
  ir_schema :: jstr
  ir_pane :: pane_key
  ir_incident_id :: jstr
  ir_state :: jstr
  ir_receipt :: "v2_receipt option"
  ir_writer_generation :: int

definition v2_incident_resolved_by :: "incident_resolution option \<Rightarrow> jstr \<Rightarrow> v2_receipt \<Rightarrow> int \<Rightarrow> bool" where
  "v2_incident_resolved_by res incident_id receipt current \<longleftrightarrow>
     (case res of None \<Rightarrow> False
      | Some r \<Rightarrow> ir_schema r = v2_schema \<and> ir_state r = js ''resolved'' \<and> ir_incident_id r = incident_id \<and>
          same_pane (ir_pane r) (re_pane receipt) \<and> ir_receipt r = Some receipt \<and>
          re_kind receipt = js ''ssot-durable'' \<and> ir_writer_generation r = current \<and> re_generation receipt = current)"

record rearm_observation =
  ro_schema :: jstr
  ro_purpose :: jstr
  ro_pane :: pane_key
  ro_incident_id :: jstr
  ro_incident_digest :: jstr
  ro_resolved_receipt :: v2_receipt
  ro_authorized_generation :: int

definition v2_reserve_rearm_allowed ::
  "rearm_observation option \<Rightarrow> pane_key \<Rightarrow> jstr \<Rightarrow> jstr \<Rightarrow> v2_receipt \<Rightarrow> int \<Rightarrow> bool" where
  "v2_reserve_rearm_allowed observation pane incident_id incident_digest receipt current \<longleftrightarrow>
     (case observation of None \<Rightarrow> False
      | Some ob \<Rightarrow>
          list_all fst [v2_int current 1 max_safe, v2_int (re_generation receipt) 1 max_safe, v2_nat (re_revision receipt),
            v2_identity incident_id, hash_check incident_digest, hash_check (re_digest receipt),
            v2_identity (re_operation_id receipt), v2_identity (re_commit_id receipt)] \<and>
          ro_schema ob = v2_schema \<and> ro_purpose ob = js ''reserve-rearm'' \<and> same_pane (ro_pane ob) pane \<and>
          same_pane (re_pane receipt) pane \<and> ro_incident_id ob = incident_id \<and> ro_incident_digest ob = incident_digest \<and>
          ro_resolved_receipt ob = receipt \<and> ro_authorized_generation ob = current \<and>
          re_schema receipt = v2_schema \<and> re_kind receipt = js ''ssot-durable'' \<and> re_generation receipt \<le> current)"

section \<open>What a resume relies on\<close>

lemma resume_continuous:
  "v2_resume_decision sha e ctx = Continuous pf \<longleftrightarrow>
    (\<exists>w. e = CollectorWitness w \<and> list_all fst (resume_checks sha w ctx) \<and>
       pf = \<lparr>rf_pane = ck_pane (rx_checkpoint ctx), rf_from = ck_through (rx_checkpoint ctx),
         rf_through = rx_durable_raw_through ctx, rf_geometry = pd_geometry (rx_descriptor ctx),
         rf_source_evidence = wt_journal (cw_watch w)\<rparr>)"
  by (cases e) (auto simp: v2_resume_decision_def first_failure_None[symmetric] simp del: first_failure_None split: option.splits)


text \<open>The collector kept watching from byte 0 to byte 10 while the host was down at byte 4.\<close>

definition example_watch :: event_watch where
  "example_watch = \<lparr>wt_kind = js ''tmux-event-journal'', wt_journal = \<lparr>ev_path = js ''/j'', ev_bytes = 1, ev_sha256 = example_hash\<rparr>,
     wt_coverage_proof = \<lparr>ev_path = js ''/p'', ev_bytes = 1, ev_sha256 = example_hash\<rparr>, wt_covers = required_events,
     wt_from_seq = 1, wt_through_seq = 9, wt_watermark_digest = example_hash, wt_overflow = False, wt_lost_events = 0,
     wt_topology_events = 0\<rparr>"

definition example_process :: process_identity where
  "example_process = \<lparr>pi_pid = 7, pi_start_time = js ''1'', pi_boot_id = js ''b''\<rparr>"

definition example_witness :: continuity_witness where
  "example_witness = \<lparr>cw_schema = v2_schema, cw_witness_id = js ''w'', cw_pane = example_pane, cw_window_id = js ''@1'',
     cw_server = \<lparr>si_server_identity = js ''s'', si_process = example_process\<rparr>,
     cw_collector = \<lparr>co_incarnation = pe_collector_incarnation example_epoch, co_process = example_process\<rparr>,
     cw_collector_unit = js ''collector'', cw_source_epoch = source_epoch_of example_epoch, cw_raw = example_range 0 10,
     cw_first_sequence = 1, cw_last_sequence = 3, cw_chain_digest = example_hash, cw_continuity_generation = 1,
     cw_geometry = example_fixed, cw_watch = example_watch, cw_digest = example_hash\<rparr>"

definition example_context :: resume_context where
  "example_context = \<lparr>rx_checkpoint = example_checkpoint 4 1 1,
     rx_descriptor = \<lparr>pd_session = \<lparr>sk_server_identity = js ''s'', sk_session_id = js ''u''\<rparr>, pd_pane = example_pane,
       pd_window_id = js ''@1'', pd_geometry = example_fixed\<rparr>,
     rx_server = cw_server example_witness, rx_collector = cw_collector example_witness,
     rx_source_epoch = source_epoch_of example_epoch, rx_continuity_generation = 1, rx_host_unit = js ''host'',
     rx_durable_raw_through = \<lparr>rp_epoch = example_epoch, rp_byte_offset = 10\<rparr>\<rparr>"


end
