(* ===== verification/Newarch_Wire.thy ===== *)
theory Newarch_Wire
  imports V2_Authority
begin

text \<open>
  The NEWARCH part of the mux wire, \<open>core/src/protocol.ts\<close>: negotiating capabilities, and the v2
  history request and reply both sides check, with the bounds the client mirrors from the server's
  \<open>validateV2ReadRequest\<close>.
\<close>

section \<open>Negotiation\<close>

record repair_capabilities =
  rc_revision :: int
  rc_supported :: "jstr list"
  rc_required :: "jstr list"

definition NEWARCH_REPAIR_CAPABILITIES :: "jstr list" where
  "NEWARCH_REPAIR_CAPABILITIES = map js
     [''cell-sgr-r2'', ''digest-provenance-r2'', ''attach-receipt-set-r2'', ''timeline-replay-r2'',
      ''spool-retention-r2'', ''archive-inventory-r2'', ''same-pipe-return-r2'', ''incident-r2'']"

definition supports_newarch_repair :: "repair_capabilities \<Rightarrow> repair_capabilities \<Rightarrow> bool" where
  "supports_newarch_repair local peer \<longleftrightarrow>
     rc_revision local = 2 \<and> rc_revision peer = 2 \<and>
     list_all (\<lambda>c. c \<in> set NEWARCH_REPAIR_CAPABILITIES) (rc_supported local @ rc_required local @ rc_required peer) \<and>
     list_all (\<lambda>c. c \<in> set (rc_supported local) \<and> c \<in> set (rc_supported peer)) (rc_required local) \<and>
     list_all (\<lambda>c. c \<in> set (rc_supported peer) \<and> c \<in> set (rc_supported local)) (rc_required peer)"

record v2_capabilities =
  cp_schema :: jstr
  cp_supported :: "jstr list"
  cp_required :: "jstr list"

definition NEWARCH_V2_CAPABILITIES :: "jstr list" where
  "NEWARCH_V2_CAPABILITIES = map js
     [''permanent-capture-owner'', ''fixed-geometry'', ''pane-history-cursor'', ''durable-incidents'',
      ''live-checkpoint'', ''bounded-audit'']"

definition supports_newarch_v2 :: "v2_capabilities \<Rightarrow> v2_capabilities \<Rightarrow> bool" where
  "supports_newarch_v2 local peer \<longleftrightarrow>
     cp_schema local = v2_schema \<and> cp_schema peer = v2_schema \<and>
     list_all (\<lambda>c. c \<in> set NEWARCH_V2_CAPABILITIES \<and> c \<in> set (cp_supported local) \<and> c \<in> set (cp_supported peer))
       (cp_required local @ cp_required peer) \<and>
     list_all (\<lambda>c. c \<in> set (cp_required local) \<and> c \<in> set (cp_required peer)) NEWARCH_V2_CAPABILITIES"

text \<open>
  Two peers speak v2 exactly when they agree on all of it: both name the schema, each requires
  exactly the known capabilities, and each supports them all. The answer does not depend on which side
  asks, and a peer that requires a capability this build does not know is refused.
\<close>

theorem v2_negotiation_agrees:
  "(supports_newarch_v2 a b \<longleftrightarrow>
     cp_schema a = v2_schema \<and> cp_schema b = v2_schema \<and>
     set (cp_required a) = set NEWARCH_V2_CAPABILITIES \<and> set (cp_required b) = set NEWARCH_V2_CAPABILITIES \<and>
     set NEWARCH_V2_CAPABILITIES \<subseteq> set (cp_supported a) \<inter> set (cp_supported b)) \<and>
   supports_newarch_v2 a b = supports_newarch_v2 b a"
  unfolding supports_newarch_v2_def list_all_iff set_append by blast

section \<open>Requests, pages and replies\<close>

definition wire_page_entries :: int where "wire_page_entries = 256"
definition wire_page_bytes :: int where "wire_page_bytes = 2 * 1024 * 1024"
definition wire_cursor_bytes :: nat where "wire_cursor_bytes = 4096"

record wire_cell =
  wc_text :: jstr
  wc_width :: nat
  wc_style :: "int list"

record wire_row =
  wi_id :: segment_row_id
  wi_cells :: "wire_cell list"
  wi_wrap_status :: jstr
  wi_wrap_pad :: int

datatype wire_entry = RowEntry wire_row | IncidentEntry v2_incident

datatype v2_continuation = EndOfHistory | MoreHistory history_cursor | BlockedHistory history_cursor read_state

record expand_message =
  xm_session :: jstr
  xm_request_id :: jstr
  xm_request :: history_request

record ok_page =
  og_revision :: int
  og_entries :: "wire_entry list"
  og_payload_bytes :: int
  og_states :: "read_state list"
  og_before :: v2_continuation
  og_after :: v2_continuation

datatype reply_status = OkPage ok_page | ErrorReply jstr "int option"

record history_reply =
  wy_schema :: jstr
  wy_type :: jstr
  wy_channel :: jstr
  wy_request_id :: jstr
  wy_pane :: pane_key
  wy_status :: reply_status

definition newarch_v2_same_pane :: "pane_key \<Rightarrow> pane_key \<Rightarrow> bool" where
  "newarch_v2_same_pane a b \<longleftrightarrow>
     pk_server_identity a = pk_server_identity b \<and> pk_pane_id a = pk_pane_id b \<and> pk_birth_generation a = pk_birth_generation b"

lemma newarch_v2_same_pane_iff [simp]: "newarch_v2_same_pane a b \<longleftrightarrow> a = b"
  by (cases a; cases b) (simp add: newarch_v2_same_pane_def)

definition newarch_v2_cursor_for :: "pane_descriptor \<Rightarrow> history_cursor option \<Rightarrow> history_cursor option" where
  "newarch_v2_cursor_for d cursor =
     (case cursor of None \<Rightarrow> None
      | Some c \<Rightarrow> if hc_schema c = v2_schema \<and> newarch_v2_same_pane (hc_pane c) (pd_pane d) then Some c else None)"

fun newarch_v2_entry_pane :: "wire_entry \<Rightarrow> pane_key" where
  "newarch_v2_entry_pane (RowEntry r) = sr_pane (wi_id r)"
| "newarch_v2_entry_pane (IncidentEntry i) = in_pane i"

definition newarch_v2_cursor_in_bounds :: "history_cursor \<Rightarrow> pane_key \<Rightarrow> bool" where
  "newarch_v2_cursor_in_bounds c pane \<longleftrightarrow>
     hc_schema c = v2_schema \<and> newarch_v2_same_pane (hc_pane c) pane \<and>
     0 < length (hc_store_id c) \<and> 0 < length (hc_token c) \<and> utf8_size (hc_token c) \<le> wire_cursor_bytes \<and>
     safe_int (hc_timeline_revision c) \<and> 0 \<le> hc_timeline_revision c"

definition newarch_v2_request_in_bounds :: "history_request \<Rightarrow> bool" where
  "newarch_v2_request_in_bounds r \<longleftrightarrow>
     hr_schema r = v2_schema \<and> (hr_direction r = js ''before'' \<or> hr_direction r = js ''after'') \<and>
     safe_int (hr_max_entries r) \<and> 1 \<le> hr_max_entries r \<and> hr_max_entries r \<le> wire_page_entries \<and>
     safe_int (hr_max_bytes r) \<and> 1 \<le> hr_max_bytes r \<and> hr_max_bytes r \<le> wire_page_bytes \<and>
     (case hr_cursor r of None \<Rightarrow> True | Some c \<Rightarrow> newarch_v2_cursor_in_bounds c (hr_pane r))"

fun state_unavailable :: "read_state \<Rightarrow> bool" where
  "state_unavailable (StorageUnavailable i ms) = True"
| "state_unavailable (RemoteUnavailable b reason ms) = True"
| "state_unavailable _ = False"

fun continuation_in_bounds :: "pane_key \<Rightarrow> v2_continuation \<Rightarrow> bool" where
  "continuation_in_bounds pane EndOfHistory = True"
| "continuation_in_bounds pane (MoreHistory c) = newarch_v2_cursor_in_bounds c pane"
| "continuation_in_bounds pane (BlockedHistory c s) = newarch_v2_cursor_in_bounds c pane"

definition page_ahead :: "history_request \<Rightarrow> ok_page \<Rightarrow> v2_continuation" where
  "page_ahead r p = (if hr_direction r = js ''before'' then og_before p else og_after p)"

definition ok_page_matches :: "history_request \<Rightarrow> ok_page \<Rightarrow> bool" where
  "ok_page_matches r p \<longleftrightarrow>
     newarch_v2_request_in_bounds r \<and>
     safe_int (og_revision p) \<and> (case hr_cursor r of None \<Rightarrow> 0 | Some c \<Rightarrow> hc_timeline_revision c) \<le> og_revision p \<and>
     safe_int (og_payload_bytes p) \<and> 0 \<le> og_payload_bytes p \<and>
     int (length (og_entries p)) \<le> min (hr_max_entries r) wire_page_entries \<and>
     og_payload_bytes p \<le> min (hr_max_bytes r) wire_page_bytes \<and>
     list_all (\<lambda>e. newarch_v2_same_pane (newarch_v2_entry_pane e) (hr_pane r)) (og_entries p) \<and>
     list_all (continuation_in_bounds (hr_pane r)) [og_before p, og_after p] \<and>
     \<not> (list_ex state_unavailable (og_states p) \<and> page_ahead r p = EndOfHistory)"

definition newarch_v2_reply_matches :: "expand_message \<Rightarrow> history_reply \<Rightarrow> bool" where
  "newarch_v2_reply_matches m reply \<longleftrightarrow>
     wy_schema reply = v2_schema \<and> wy_type reply = js ''history_v2'' \<and> hr_schema (xm_request m) = v2_schema \<and>
     wy_request_id reply = xm_request_id m \<and> wy_channel reply = xm_session m \<and>
     newarch_v2_same_pane (wy_pane reply) (hr_pane (xm_request m)) \<and>
     (case wy_status reply of ErrorReply code ms \<Rightarrow> True | OkPage p \<Rightarrow> ok_page_matches (xm_request m) p)"

section \<open>The client's bounds against the server's\<close>

text \<open>
  The client's request bounds against the server's. The server's \<open>validateV2ReadRequest\<close> returns
  exactly for the requests inside the wire bounds whose pane is a valid identity and whose cursor texts
  are well formed, with a store id of at most 256 UTF-8 bytes: every request the server accepts is inside
  the bounds the client checks.
\<close>

theorem server_request_bounds:
  "validate_v2_read_request r = None \<longleftrightarrow>
     newarch_v2_request_in_bounds r \<and> pane_ok (hr_pane r) \<and>
     (case hr_cursor r of None \<Rightarrow> True
      | Some c \<Rightarrow> well_formed (hc_store_id c) \<and> utf8_size (hc_store_id c) \<le> max_identity_bytes \<and> well_formed (hc_token c))"
proof (cases "hr_cursor r")
  case None
  then show ?thesis
    by (simp add: validate_v2_read_request_def read_request_checks_def newarch_v2_request_in_bounds_def opt_checks_def
        v2_int_def pane_ok_def page_entries_def wire_page_entries_def page_bytes_def wire_page_bytes_def mib_def) blast
next
  case (Some c)
  have "validate_v2_read_request r = None \<longleftrightarrow>
      newarch_v2_request_in_bounds (r\<lparr>hr_cursor := None\<rparr>) \<and> pane_ok (hr_pane r) \<and>
      hc_schema c = v2_schema \<and> hc_pane c = hr_pane r \<and> fst (v2_identity (hc_store_id c)) \<and>
      fst (v2_text (hc_token c) cursor_bytes) \<and> fst (v2_nat (hc_timeline_revision c))"
    by (simp add: Some validate_v2_read_request_def read_request_checks_def newarch_v2_request_in_bounds_def opt_checks_def
        v2_int_def pane_ok_def page_entries_def wire_page_entries_def page_bytes_def wire_page_bytes_def mib_def) metis
  also have "\<dots> \<longleftrightarrow> newarch_v2_request_in_bounds r \<and> pane_ok (hr_pane r) \<and>
      well_formed (hc_store_id c) \<and> utf8_size (hc_store_id c) \<le> max_identity_bytes \<and> well_formed (hc_token c)"
    by (simp add: Some newarch_v2_request_in_bounds_def newarch_v2_cursor_in_bounds_def v2_text_def v2_int_def
        cursor_bytes_def wire_cursor_bytes_def) (auto simp: safe_int_def)
  finally show ?thesis by (simp add: Some)
qed

text \<open>The client lets a request through that the server refuses: a store id of 257 bytes.\<close>

definition long_store_request :: history_request where
  "long_store_request = \<lparr>hr_schema = v2_schema, hr_pane = example_pane,
     hr_cursor = Some \<lparr>hc_schema = v2_schema, hc_pane = example_pane, hc_store_id = replicate 257 97,
       hc_timeline_revision = 0, hc_token = js ''t''\<rparr>,
     hr_direction = js ''before'', hr_max_entries = 1, hr_max_bytes = 1\<rparr>"

lemma long_store_refused:
  "newarch_v2_request_in_bounds long_store_request \<and> validate_v2_read_request long_store_request \<noteq> None"
proof -
  have t: "utf8_size (js ''t'') \<le> 4096" using utf8_size_bound[of "js ''t''"] by simp
  have s: "utf8_size (replicate 257 97) = 257" by code_simp
  have b: "newarch_v2_request_in_bounds long_store_request"
    using t by (simp add: long_store_request_def newarch_v2_request_in_bounds_def newarch_v2_cursor_in_bounds_def
        safe_int_def max_safe_def wire_page_entries_def wire_page_bytes_def wire_cursor_bytes_def)
  have "\<not> list_all fst (read_request_checks long_store_request)"
    using s by (simp add: long_store_request_def read_request_checks_def opt_checks_def v2_text_def max_identity_bytes_def)
  then show ?thesis using b by (simp add: validate_v2_read_request_def)
qed

text \<open>
  A page the client accepts answers the request it sent, and can be continued from. It is for the
  same request id, session and pane, its revision is not behind the cursor, it is within the budget asked
  for and only holds entries of that pane; and looking further in the same direction either reached the
  real end, with nothing unavailable, or leaves a cursor that makes another request within bounds.
\<close>

theorem accepted_page_continues:
  assumes "newarch_v2_reply_matches m reply" "wy_status reply = OkPage p"
  shows "wy_request_id reply = xm_request_id m \<and> wy_channel reply = xm_session m \<and> wy_pane reply = hr_pane (xm_request m) \<and>
    (case hr_cursor (xm_request m) of None \<Rightarrow> True | Some c \<Rightarrow> hc_timeline_revision c \<le> og_revision p) \<and>
    int (length (og_entries p)) \<le> hr_max_entries (xm_request m) \<and> og_payload_bytes p \<le> hr_max_bytes (xm_request m) \<and>
    newarch_v2_entry_pane ` set (og_entries p) \<subseteq> {hr_pane (xm_request m)} \<and>
    (case page_ahead (xm_request m) p of
       EndOfHistory \<Rightarrow> \<not> list_ex state_unavailable (og_states p)
     | MoreHistory c \<Rightarrow> newarch_v2_request_in_bounds ((xm_request m)\<lparr>hr_cursor := Some c\<rparr>)
     | BlockedHistory c s \<Rightarrow> newarch_v2_request_in_bounds ((xm_request m)\<lparr>hr_cursor := Some c\<rparr>))"
proof -
  let ?r = "xm_request m"
  have id: "wy_request_id reply = xm_request_id m" "wy_channel reply = xm_session m" "wy_pane reply = hr_pane ?r"
    and ok: "ok_page_matches ?r p"
    using assms by (auto simp: newarch_v2_reply_matches_def)
  have entries: "newarch_v2_entry_pane ` set (og_entries p) \<subseteq> {hr_pane ?r}"
    using ok by (auto simp: ok_page_matches_def list_all_iff)
  have revision: "case hr_cursor ?r of None \<Rightarrow> True | Some c \<Rightarrow> hc_timeline_revision c \<le> og_revision p"
    using ok by (auto simp: ok_page_matches_def split: option.splits)
  have bounds: "newarch_v2_request_in_bounds ?r" and cont: "continuation_in_bounds (hr_pane ?r) (page_ahead ?r p)"
    and ends: "\<not> (list_ex state_unavailable (og_states p) \<and> page_ahead ?r p = EndOfHistory)"
    using ok by (simp_all add: ok_page_matches_def page_ahead_def)
  have budget: "int (length (og_entries p)) \<le> hr_max_entries ?r" "og_payload_bytes p \<le> hr_max_bytes ?r"
    using ok by (simp_all add: ok_page_matches_def)
  have "newarch_v2_request_in_bounds (?r\<lparr>hr_cursor := Some c\<rparr>)" if "newarch_v2_cursor_in_bounds c (hr_pane ?r)" for c
    using bounds that by (simp add: newarch_v2_request_in_bounds_def)
  then show ?thesis
    using id entries revision budget cont ends by (cases "page_ahead ?r p") simp_all
qed

definition example_expand :: expand_message where
  "example_expand = \<lparr>xm_session = js ''a'', xm_request_id = js ''1'', xm_request = \<lparr>hr_schema = v2_schema, hr_pane = example_pane,
     hr_cursor = None, hr_direction = js ''before'', hr_max_entries = 5, hr_max_bytes = 100\<rparr>\<rparr>"

definition example_page :: ok_page where
  "example_page = \<lparr>og_revision = 3, og_entries = [RowEntry \<lparr>wi_id = example_row_id 1, wi_cells = [], wi_wrap_status = js ''unknown'',
     wi_wrap_pad = 0\<rparr>], og_payload_bytes = 90, og_states = [StorageUnavailable None 5],
     og_before = BlockedHistory \<lparr>hc_schema = v2_schema, hc_pane = example_pane, hc_store_id = js ''s'', hc_timeline_revision = 3,
       hc_token = js ''t''\<rparr> (StorageUnavailable None 5), og_after = EndOfHistory\<rparr>"

lemma accepted_page_continues_witness:
  "\<exists>c. page_ahead (xm_request example_expand) example_page = BlockedHistory c (StorageUnavailable None 5) \<and>
     newarch_v2_request_in_bounds ((xm_request example_expand)\<lparr>hr_cursor := Some c\<rparr>)"
proof -
  have t: "utf8_size (js ''t'') \<le> 4096" using utf8_size_bound[of "js ''t''"] by simp
  have "newarch_v2_reply_matches example_expand \<lparr>wy_schema = v2_schema, wy_type = js ''history_v2'', wy_channel = js ''a'',
      wy_request_id = js ''1'', wy_pane = example_pane, wy_status = OkPage example_page\<rparr>"
    using t by (simp add: newarch_v2_reply_matches_def ok_page_matches_def newarch_v2_request_in_bounds_def example_expand_def
        example_page_def newarch_v2_cursor_in_bounds_def safe_int_def max_safe_def wire_page_entries_def wire_page_bytes_def
        wire_cursor_bytes_def example_row_id_def page_ahead_def)
  from accepted_page_continues [OF this, of example_page] show ?thesis
    by (simp add: page_ahead_def example_expand_def example_page_def)
qed

end
