(* ===== verification/Stitch_Rows.thy ===== *)
theory Stitch_Rows
  imports Control_Replay
begin

text \<open>
  Rows, their identity and the search for alignments, \<open>server/src/stream-stitch.ts\<close>: the canonical
  text of a row, the interner that turns rows into small integers, every alignment of one window's
  suffix with a run of the next one, and the minimum content an alignment must have.
\<close>

section \<open>Rows and windows\<close>

datatype row_origin =
    DurableOrigin segment_row_id
  | CaptureOrigin jstr int
  | PipeOrigin raw_range int

datatype screen_buffer = NormalBuffer | AlternateBuffer

datatype wrap_status = WrapWrapped | WrapUnwrapped | WrapUnknown

record stitch_row =
  tw_origin :: row_origin
  tw_cells :: "stream_cell list"
  tw_geometry :: geometry
  tw_buffer :: screen_buffer
  tw_wrap :: wrap_status
  tw_wrap_pad :: int
  tw_finalized :: bool
  tw_uncertain :: "jstr list"
  tw_cell_origins :: "row_origin list"

record stitch_policy =
  po_version :: int
  po_min_anchor_rows :: nat
  po_min_distinct_keys :: nat
  po_min_nonblank_rows :: nat
  po_max_candidates :: nat
  po_deadline_ms :: rat

section \<open>The identity of a row\<close>

definition cell_canonical :: "stream_cell \<Rightarrow> wire" where
  "cell_canonical c =
     (let points = map (\<lambda>p. WInt (int p)) (code_points (cell_text c)) in
      WArr [WArr (take 1 points), WInt (cell_width c), WArr (drop 1 points), WArr (map WInt (cell_style c))])"

fun buffer_name :: "screen_buffer \<Rightarrow> string" where
  "buffer_name NormalBuffer = ''normal''"
| "buffer_name AlternateBuffer = ''alternate''"

fun wrap_name :: "wrap_status \<Rightarrow> string" where
  "wrap_name WrapWrapped = ''wrapped''"
| "wrap_name WrapUnwrapped = ''unwrapped''"
| "wrap_name WrapUnknown = ''unknown''"

definition row_wire :: "stitch_row \<Rightarrow> bool \<Rightarrow> wire" where
  "row_wire row with_wrap = WObj ([(''columns'', WInt (geo_columns (tw_geometry row))),
     (''cells'', WArr (map cell_canonical (tw_cells row))), (''screenKind'', ascii (buffer_name (tw_buffer row)))] @
     (if with_wrap then [(''wrapStatus'', ascii (wrap_name (tw_wrap row)))] else []))"

text \<open>The only strings in it are literals, so the canonical encoder never throws here.\<close>

definition stitch_row_canonical :: "stitch_row \<Rightarrow> bool \<Rightarrow> jstr" where
  "stitch_row_canonical row with_wrap = json_text (canonical_value (row_wire row with_wrap))"

definition stitch_row_key :: "(jstr \<Rightarrow> jstr) \<Rightarrow> stitch_row \<Rightarrow> jstr" where
  "stitch_row_key hash row = hash (stitch_row_canonical row True)"

definition is_blank_row :: "stitch_row \<Rightarrow> bool" where
  "is_blank_row row \<longleftrightarrow>
     list_all (\<lambda>c. (cell_text c = [] \<or> cell_text c = js '' '') \<and> list_all (\<lambda>n. n = 0 \<or> n = - 1) (cell_style c)) (tw_cells row)"

section \<open>Interning\<close>

definition index_of :: "'a \<Rightarrow> 'a list \<Rightarrow> nat" where
  "index_of x xs = length (takeWhile (\<lambda>y. y \<noteq> x) xs)"

record row_interner =
  ri_buckets :: "jstr \<Rightarrow> jstr list"
  ri_collisions :: nat
  ri_ordinals :: "jstr list"

definition empty_interner :: row_interner where
  "empty_interner = \<lparr>ri_buckets = (\<lambda>_. []), ri_collisions = 0, ri_ordinals = []\<rparr>"

definition ordinal_name :: "jstr \<Rightarrow> nat \<Rightarrow> jstr" where
  "ordinal_name key index = key @ 35 # dec_nat index"

text \<open>The ordinal of a name is the number of names seen before it.\<close>

definition intern_ordinal :: "jstr \<Rightarrow> nat \<Rightarrow> row_interner \<Rightarrow> nat \<times> row_interner" where
  "intern_ordinal key index it =
     (let name = ordinal_name key index in
      if name \<in> set (ri_ordinals it) then (index_of name (ri_ordinals it), it)
      else (length (ri_ordinals it), it\<lparr>ri_ordinals := ri_ordinals it @ [name]\<rparr>))"

definition intern_id :: "(jstr \<Rightarrow> jstr) \<Rightarrow> stitch_row \<Rightarrow> row_interner \<Rightarrow> nat \<times> row_interner" where
  "intern_id hash row it =
     (let canonical = stitch_row_canonical row False; key = hash canonical; bucket = ri_buckets it key in
      if canonical \<in> set bucket then intern_ordinal key (index_of canonical bucket) it
      else intern_ordinal key (length bucket)
             (it\<lparr>ri_buckets := (ri_buckets it)(key := bucket @ [canonical]),
                 ri_collisions := ri_collisions it + (if bucket = [] then 0 else 1)\<rparr>))"

fun intern_all :: "(jstr \<Rightarrow> jstr) \<Rightarrow> stitch_row list \<Rightarrow> row_interner \<Rightarrow> nat list \<times> row_interner" where
  "intern_all hash [] it = ([], it)"
| "intern_all hash (row # rows) it =
     (let (n, it1) = intern_id hash row it; (ns, it2) = intern_all hash rows it1 in (n # ns, it2))"

section \<open>Alignments\<close>

record side =
  sd_rows :: "stitch_row list"
  sd_ids :: "nat list"

definition make_side :: "(jstr \<Rightarrow> jstr) \<Rightarrow> stitch_row list \<Rightarrow> row_interner \<Rightarrow> side \<times> row_interner" where
  "make_side hash rows it = (let (ids, it') = intern_all hash rows it in (\<lparr>sd_rows = rows, sd_ids = ids\<rparr>, it'))"

definition wrap_agrees :: "stitch_row \<Rightarrow> stitch_row \<Rightarrow> bool" where
  "wrap_agrees a b \<longleftrightarrow> tw_wrap a = WrapUnknown \<or> tw_wrap b = WrapUnknown \<or> tw_wrap a = tw_wrap b"

definition same_row :: "side \<Rightarrow> nat \<Rightarrow> side \<Rightarrow> nat \<Rightarrow> bool" where
  "same_row l i r j \<longleftrightarrow> sd_ids l ! i = sd_ids r ! j \<and> wrap_agrees (sd_rows l ! i) (sd_rows r ! j)"

text \<open>The inner loop: \<open>None\<close> at the first pair that differs, else whether some row had content.\<close>

function align_loop :: "side \<Rightarrow> side \<Rightarrow> nat \<Rightarrow> nat \<Rightarrow> nat \<Rightarrow> bool \<Rightarrow> bool option" where
  "align_loop l r e k i nonblank =
     (if k < i then Some nonblank
      else if \<not> same_row l (length (sd_rows l) - i) r (e - i) then None
      else align_loop l r e k (Suc i) (nonblank \<or> \<not> is_blank_row (sd_rows r ! (e - i))))"
  by pat_completeness auto
termination by (relation "measure (\<lambda>(l, r, e, k, i, nonblank). Suc k - i)") auto

declare align_loop.simps [simp del]

record seam_candidate =
  cand_end :: nat
  cand_overlap :: nat

datatype candidate_search =
    SearchDone "seam_candidate list"
  | SearchLimit nat
  | SearchDeadline nat

text \<open>
  \<open>clock k\<close> is the value of the k-th reading of the injected clock; \<open>t\<close> counts readings. The clock
  is read at the first, the 65th, the 129th \<dots> end.
\<close>

function search_loop ::
  "side \<Rightarrow> side \<Rightarrow> nat \<Rightarrow> rat \<Rightarrow> (nat \<Rightarrow> rat) \<Rightarrow> nat \<Rightarrow> nat \<Rightarrow> seam_candidate list \<Rightarrow> candidate_search \<times> nat" where
  "search_loop l r max_candidates deadline clock t e found =
     (if length (sd_rows r) < e then (SearchDone found, t)
      else
        (let reads = e mod 64 = 1; t' = (if reads then Suc t else t); k = min (length (sd_rows l)) e in
         if reads \<and> deadline < clock t then (SearchDeadline (length found), t')
         else case align_loop l r e k 1 False of
                Some True \<Rightarrow>
                  (let found' = found @ [\<lparr>cand_end = e, cand_overlap = k\<rparr>] in
                   if max_candidates < length found' then (SearchLimit (length found'), t')
                   else search_loop l r max_candidates deadline clock t' (Suc e) found')
              | _ \<Rightarrow> search_loop l r max_candidates deadline clock t' (Suc e) found))"
  by pat_completeness auto
termination by (relation "measure (\<lambda>(l, r, m, d, c, t, e, f). Suc (length (sd_rows r)) - e)") auto

declare search_loop.simps [simp del]

definition search_candidates ::
  "side \<Rightarrow> side \<Rightarrow> nat \<Rightarrow> rat \<Rightarrow> (nat \<Rightarrow> rat) \<Rightarrow> nat \<Rightarrow> candidate_search \<times> nat" where
  "search_candidates l r max_candidates deadline clock t = search_loop l r max_candidates deadline clock t 1 []"

section \<open>Minimum content\<close>

definition block_at :: "side \<Rightarrow> nat list \<Rightarrow> stitch_row list \<Rightarrow> nat \<Rightarrow> bool" where
  "block_at s block rows off \<longleftrightarrow>
     list_all (\<lambda>i. sd_ids s ! (off + i) = block ! i \<and> wrap_agrees (sd_rows s ! (off + i)) (rows ! i)) [0..<length block]"

definition block_occurrences :: "side \<Rightarrow> nat list \<Rightarrow> stitch_row list \<Rightarrow> nat" where
  "block_occurrences s block rows = length (filter (block_at s block rows) [0..<Suc (length (sd_ids s)) - length block])"

datatype anchor_verdict = AnchorOk | ShortAnchor | ContentOnly | UnknownState

definition has_uncertain :: "stitch_row \<Rightarrow> bool" where
  "has_uncertain row \<longleftrightarrow> 0 < length (tw_uncertain row)"

definition anchor_verdict :: "side \<Rightarrow> side \<Rightarrow> seam_candidate \<Rightarrow> stitch_policy \<Rightarrow> anchor_verdict" where
  "anchor_verdict l r c policy =
     (let first = cand_end c - cand_overlap c;
          rows = take (cand_overlap c) (drop first (sd_rows r));
          block = take (cand_overlap c) (drop first (sd_ids r));
          left_rows = drop (length (sd_rows l) - cand_overlap c) (sd_rows l) in
      if length (filter tw_finalized rows) < po_min_anchor_rows policy then ShortAnchor
      else if length (remdups block) < po_min_distinct_keys policy then ContentOnly
      else if length (filter (\<lambda>row. \<not> is_blank_row row) rows) < po_min_nonblank_rows policy then ContentOnly
      else if block_occurrences l block rows \<noteq> 1 \<or> block_occurrences r block rows \<noteq> 1 then ContentOnly
      else if list_ex has_uncertain rows then UnknownState
      else if list_ex has_uncertain left_rows then UnknownState
      else AnchorOk)"

section \<open>Interning decides row equality\<close>

lemma index_of_nth: "x \<in> set xs \<Longrightarrow> xs ! index_of x xs = x"
  by (induction xs) (auto simp: index_of_def)

lemma index_of_less: "x \<in> set xs \<Longrightarrow> index_of x xs < length xs"
  by (induction xs) (auto simp: index_of_def)

lemma index_of_append: "x \<in> set xs \<Longrightarrow> index_of x (xs @ ys) = index_of x xs"
  by (induction xs) (auto simp: index_of_def)

lemma index_of_new: "x \<notin> set xs \<Longrightarrow> index_of x (xs @ [x]) = length xs"
  by (induction xs) (auto simp: index_of_def)

lemma dec_nat_no_hash: "35 \<notin> set (dec_nat n)"
  using dec_nat_digits[of 35 n] by fastforce

lemma ordinal_name_inject [simp]: "ordinal_name k i = ordinal_name l j \<longleftrightarrow> k = l \<and> i = j"
proof
  assume eq: "ordinal_name k i = ordinal_name l j"
  have split: "takeWhile (\<lambda>x. x \<noteq> 35) (rev (ordinal_name m n)) = rev (dec_nat n)" for m n
    using dec_nat_no_hash[of n] by (auto simp: ordinal_name_def intro!: takeWhile_tail takeWhile_append2[THEN trans])
  have "rev (dec_nat i) = rev (dec_nat j)" using split eq by metis
  with eq have "rev k = rev l" by (simp add: ordinal_name_def)
  with \<open>rev (dec_nat i) = rev (dec_nat j)\<close> show "k = l \<and> i = j" by simp
qed simp

text \<open>A bucket only holds texts of its hash, each once, and every text has a name.\<close>

definition interner_ok :: "(jstr \<Rightarrow> jstr) \<Rightarrow> row_interner \<Rightarrow> bool" where
  "interner_ok hash it \<longleftrightarrow>
     (\<forall>key. distinct (ri_buckets it key) \<and> (\<forall>c \<in> set (ri_buckets it key). hash c = key)) \<and>
     (\<forall>key i. ordinal_name key i \<in> set (ri_ordinals it) \<longleftrightarrow> i < length (ri_buckets it key))"

definition known_text :: "(jstr \<Rightarrow> jstr) \<Rightarrow> row_interner \<Rightarrow> jstr \<Rightarrow> bool" where
  "known_text hash it c \<longleftrightarrow> c \<in> set (ri_buckets it (hash c))"

definition text_id :: "(jstr \<Rightarrow> jstr) \<Rightarrow> row_interner \<Rightarrow> jstr \<Rightarrow> nat" where
  "text_id hash it c = index_of (ordinal_name (hash c) (index_of c (ri_buckets it (hash c)))) (ri_ordinals it)"

lemma interner_ok_empty: "interner_ok hash empty_interner"
  by (simp add: interner_ok_def empty_interner_def)

lemma text_id_inject:
  assumes "interner_ok hash it" "known_text hash it c" "known_text hash it d"
  shows "text_id hash it c = text_id hash it d \<longleftrightarrow> c = d"
proof
  assume eq: "text_id hash it c = text_id hash it d"
  have i: "index_of x (ri_buckets it (hash x)) < length (ri_buckets it (hash x))" if "known_text hash it x" for x
    using that by (simp add: known_text_def index_of_less)
  have n: "ordinal_name (hash x) (index_of x (ri_buckets it (hash x))) \<in> set (ri_ordinals it)" if "known_text hash it x" for x
    using assms(1) i[OF that] by (simp add: interner_ok_def)
  have "ordinal_name (hash c) (index_of c (ri_buckets it (hash c))) = ordinal_name (hash d) (index_of d (ri_buckets it (hash d)))"
    using index_of_nth[OF n[OF assms(2)]] index_of_nth[OF n[OF assms(3)]] eq unfolding text_id_def by metis
  then have "hash c = hash d \<and> index_of c (ri_buckets it (hash c)) = index_of d (ri_buckets it (hash d))"
    unfolding ordinal_name_inject .
  then show "c = d"
    using index_of_nth[of c "ri_buckets it (hash c)"] index_of_nth[of d "ri_buckets it (hash d)"] assms(2,3)
    unfolding known_text_def by metis
qed simp

definition interner_extends :: "(jstr \<Rightarrow> jstr) \<Rightarrow> row_interner \<Rightarrow> row_interner \<Rightarrow> bool" where
  "interner_extends hash it it' \<longleftrightarrow>
     (\<forall>c. known_text hash it c \<longrightarrow> known_text hash it' c \<and> text_id hash it' c = text_id hash it c)"

lemma interner_extends_refl [simp]: "interner_extends hash it it"
  by (simp add: interner_extends_def)

lemma interner_extends_trans:
  "interner_extends hash a b \<Longrightarrow> interner_extends hash b c \<Longrightarrow> interner_extends hash a c"
  by (simp add: interner_extends_def)

lemma intern_id_step:
  assumes ok: "interner_ok hash it" and step: "intern_id hash row it = (n, it')"
  shows "interner_ok hash it' \<and> interner_extends hash it it' \<and> known_text hash it' (stitch_row_canonical row False) \<and>
    n = text_id hash it' (stitch_row_canonical row False)"
proof -
  define c where "c = stitch_row_canonical row False"
  let ?b = "ri_buckets it (hash c)"
  show ?thesis
  proof (cases "c \<in> set ?b")
    case True
    have "ordinal_name (hash c) (index_of c ?b) \<in> set (ri_ordinals it)"
      using ok index_of_less[OF True] by (simp add: interner_ok_def)
    then have "n = text_id hash it c" "it' = it"
      using step True by (auto simp: intern_id_def intern_ordinal_def Let_def c_def[symmetric] text_id_def)
    then show ?thesis using ok True by (simp add: c_def[symmetric] known_text_def)
  next
    case False
    let ?name = "ordinal_name (hash c) (length ?b)"
    have fresh: "?name \<notin> set (ri_ordinals it)" using ok by (simp add: interner_ok_def)
    have it': "it' = it\<lparr>ri_buckets := (ri_buckets it)(hash c := ?b @ [c]),
        ri_collisions := ri_collisions it + (if ?b = [] then 0 else 1), ri_ordinals := ri_ordinals it @ [?name]\<rparr>"
      and n: "n = length (ri_ordinals it)"
      using step False fresh by (auto simp: intern_id_def intern_ordinal_def Let_def c_def[symmetric])
    have ok': "interner_ok hash it'"
      using ok False unfolding interner_ok_def it' by (auto simp: less_Suc_eq)
    have id: "n = text_id hash it' c"
      using fresh False by (simp add: it' n text_id_def index_of_new)
    have "known_text hash it' d \<and> text_id hash it' d = text_id hash it d" if d: "known_text hash it d" for d
    proof -
      have m: "d \<in> set (ri_buckets it (hash d))" using d by (simp add: known_text_def)
      have "ordinal_name (hash d) (index_of d (ri_buckets it (hash d))) \<in> set (ri_ordinals it)"
        using ok index_of_less[OF m] by (simp add: interner_ok_def)
      then show ?thesis using m by (cases "hash d = hash c") (simp_all add: it' known_text_def text_id_def index_of_append)
    qed
    then show ?thesis using ok' id by (simp add: c_def[symmetric] interner_extends_def it' known_text_def)
  qed
qed

lemma intern_all_step:
  assumes "interner_ok hash it" "intern_all hash rows it = (ns, it')"
  shows "interner_ok hash it' \<and> interner_extends hash it it' \<and>
    (\<forall>row \<in> set rows. known_text hash it' (stitch_row_canonical row False)) \<and>
    ns = map (\<lambda>row. text_id hash it' (stitch_row_canonical row False)) rows"
  using assms
proof (induction rows arbitrary: it ns)
  case (Cons row rows)
  obtain n it1 ms where s: "intern_id hash row it = (n, it1)" "intern_all hash rows it1 = (ms, it')" "ns = n # ms"
    using Cons.prems(2) by (auto simp: Let_def split: prod.splits)
  note I = intern_id_step[OF Cons.prems(1) s(1)]
  note R = Cons.IH[OF conjunct1[OF I] s(2)]
  show ?case using I R s(3) by (auto simp: interner_extends_def)
qed simp

section \<open>The canonical text is the content of the row\<close>

lemma surrogate_nat: "is_high_surrogate u \<longleftrightarrow> 0xD800 \<le> unat u \<and> unat u \<le> 0xDBFF"
  "is_low_surrogate u \<longleftrightarrow> 0xDC00 \<le> unat u \<and> unat u \<le> 0xDFFF"
  by (simp_all add: is_high_surrogate_def is_low_surrogate_def word_le_nat_alt)

lemma radix_inject:
  assumes "a * 0x400 + b = c * 0x400 + d" "b < 0x400" "d < (0x400 :: nat)"
  shows "a = c \<and> b = d"
proof -
  have "(a * 0x400 + b) div 0x400 = a" "(c * 0x400 + d) div 0x400 = c" using assms(2,3) by simp_all
  then have "a = c" using assms(1) by simp
  then show ?thesis using assms(1) by simp
qed

lemma char_cp_pair:
  "is_high_surrogate u \<Longrightarrow> is_low_surrogate v \<Longrightarrow> char_cp [u, v] = 0x10000 + ((unat u - 0xD800) * 0x400 + (unat v - 0xDC00))"
  by (simp only: char_cp.simps simp_thms if_True add.assoc)

lemma char_cp_single: "char_cp c < 0x10000 \<longleftrightarrow> length c = 1" if "valid_piece c"
  using that unfolding valid_piece_def
proof (elim disjE exE conjE)
  fix u assume "c = [u]"
  then show ?thesis using unsigned_less[of u, where 'a = nat] by simp
next
  fix u v assume "c = [u, v]" "is_high_surrogate u" "is_low_surrogate v"
  then show ?thesis by (simp only: char_cp_pair) simp
qed

lemma pair_cp_inject:
  assumes "is_high_surrogate u" "is_low_surrogate v" "is_high_surrogate u'" "is_low_surrogate v'"
    "char_cp [u, v] = char_cp [u', v']"
  shows "u = u' \<and> v = v'"
proof -
  have low: "0xD800 \<le> unat u" "0xD800 \<le> unat u'" "0xDC00 \<le> unat v" "0xDC00 \<le> unat v'"
    and high: "unat v - 0xDC00 < 0x400" "unat v' - 0xDC00 < 0x400"
    using assms(1-4) unfolding surrogate_nat by linarith+
  have "(unat u - 0xD800) * 0x400 + (unat v - 0xDC00) = (unat u' - 0xD800) * 0x400 + (unat v' - 0xDC00)"
    using assms by (simp only: char_cp_pair add_left_cancel)
  from radix_inject[OF this high] low have "unat u = unat u'" "unat v = unat v'" by linarith+
  then show ?thesis by (simp only: word_unat_eq_iff simp_thms)
qed

lemma char_cp_inject:
  assumes "valid_piece c" "valid_piece d" "char_cp c = char_cp d"
  shows "c = d"
proof -
  have len: "length c = 1 \<longleftrightarrow> length d = 1"
    using char_cp_single[OF assms(1)] char_cp_single[OF assms(2)] assms(3) by simp
  show ?thesis
  proof (cases "length c = 1")
    case True
    then obtain u v where "c = [u]" "d = [v]" using len by (auto simp: length_Suc_conv)
    then show ?thesis using assms(3) by (simp add: word_unat_eq_iff)
  next
    case False
    then obtain u v where c: "c = [u, v]" "is_high_surrogate u" "is_low_surrogate v"
      using assms(1) by (auto simp: valid_piece_def)
    from False len obtain u' v' where d: "d = [u', v']" "is_high_surrogate u'" "is_low_surrogate v'"
      using assms(2) by (auto simp: valid_piece_def)
    show ?thesis using pair_cp_inject[of u v u' v'] c d assms(3) by blast
  qed
qed

lemma code_points_inject: "code_points s = code_points t \<longleftrightarrow> s = t"
proof
  assume "code_points s = code_points t"
  moreover have "inj_on char_cp (set (js_chars s) \<union> set (js_chars t))"
    by (rule inj_onI) (metis UnE char_cp_inject js_chars_valid)
  ultimately have "js_chars s = js_chars t" unfolding code_points_def by (rule map_inj_on)
  then show "s = t" by (metis concat_js_chars)
qed simp

lemma cell_canonical_inject: "cell_canonical c = cell_canonical d \<longleftrightarrow> c = (d :: stream_cell)"
proof
  assume eq: "cell_canonical c = cell_canonical d"
  let ?p = "\<lambda>c. map (\<lambda>p. WInt (int p)) (code_points (cell_text c))"
  have parts: "take 1 (?p c) = take 1 (?p d)" "drop 1 (?p c) = drop 1 (?p d)" "cell_width c = cell_width d"
    "map WInt (cell_style c) = map WInt (cell_style d)"
    using eq by (simp_all only: cell_canonical_def Let_def wire.inject list.inject)
  have "?p c = ?p d" using parts(1,2) by (metis append_take_drop_id)
  then have "code_points (cell_text c) = code_points (cell_text d)"
    by (rule map_injective) (simp add: inj_on_def)
  moreover have "cell_style c = cell_style d" using parts(4) by (rule map_injective) (simp add: inj_on_def)
  ultimately show "c = d" using parts(3) by (simp add: code_points_inject)
qed simp

text \<open>What the interner compares: screen kind, width and every cell, but not the wrap status.\<close>

definition same_content :: "stitch_row \<Rightarrow> stitch_row \<Rightarrow> bool" where
  "same_content a b \<longleftrightarrow> geo_columns (tw_geometry a) = geo_columns (tw_geometry b) \<and> tw_buffer a = tw_buffer b \<and> tw_cells a = tw_cells b"

lemma canonical_cell: "canonical_value (cell_canonical c) = cell_canonical c"
  by (simp add: cell_canonical_def Let_def take_map drop_map)

lemma row_canonical_content: "stitch_row_canonical a False = stitch_row_canonical b False \<longleftrightarrow> same_content a b"
proof -
  have cells: "map cell_canonical cs = map cell_canonical ds \<longleftrightarrow> cs = ds" for cs ds
    by (rule inj_map_eq_map) (simp add: inj_on_def cell_canonical_inject)
  have buf: "buffer_name x = buffer_name y \<longleftrightarrow> x = y" for x y by (cases x; cases y) simp_all
  have buf': "js (buffer_name x) = js (buffer_name y) \<longleftrightarrow> x = y" for x y by (cases x; cases y) simp_all
  have canon: "canonical_value (row_wire r False) = WObj [(''cells'', WArr (map cell_canonical (tw_cells r))),
      (''columns'', WInt (geo_columns (tw_geometry r))), (''screenKind'', ascii (buffer_name (tw_buffer r)))]" for r
    by (simp add: row_wire_def sort_keys_def ascii_def canonical_cell comp_def)
  show ?thesis
    unfolding stitch_row_canonical_def json_text_inject canon by (auto simp: same_content_def ascii_def cells buf')
qed

text \<open>
  C39: Interned ids decide row content, whatever the hash. Interning any rows one after the other, with
  any hash function however badly it collides, two of them get the same id exactly when they have the
  same width in columns, the same screen kind and the same cells: equal hashes never make two different
  rows equal, and equal rows never get two ids.
\<close>

theorem interned_ids_decide_content:
  assumes "intern_all hash rows empty_interner = (ids, it)" "i < length rows" "j < length rows"
  shows "ids ! i = ids ! j \<longleftrightarrow> same_content (rows ! i) (rows ! j)"
proof -
  note S = intern_all_step[OF interner_ok_empty assms(1)]
  have "ids ! k = text_id hash it (stitch_row_canonical (rows ! k) False)" "known_text hash it (stitch_row_canonical (rows ! k) False)"
    if "k < length rows" for k using S that by simp_all
  then show ?thesis using S text_id_inject assms(2,3) by (simp add: row_canonical_content)
qed

definition example_row_of :: "string \<Rightarrow> stitch_row" where
  "example_row_of s = \<lparr>tw_origin = CaptureOrigin (js ''s'') 0, tw_cells = map (\<lambda>c. \<lparr>cell_text = js [c], cell_width = 1, cell_style = []\<rparr>) s,
     tw_geometry = \<lparr>geo_columns = 4, geo_rows = 2\<rparr>, tw_buffer = NormalBuffer, tw_wrap = WrapUnknown, tw_wrap_pad = 0,
     tw_finalized = True, tw_uncertain = [], tw_cell_origins = []\<rparr>"

lemma interned_ids_decide_content_witness:
  "let ids = fst (intern_all (\<lambda>_. []) [example_row_of ''a'', example_row_of ''b'', example_row_of ''a''] empty_interner) in
     ids ! 0 = ids ! 2 \<and> ids ! 0 \<noteq> ids ! 1"
proof -
  let ?rows = "[example_row_of ''a'', example_row_of ''b'', example_row_of ''a'']"
  obtain ids it where r: "intern_all (\<lambda>_. []) ?rows empty_interner = (ids, it)" by (cases "intern_all (\<lambda>_. []) ?rows empty_interner")
  have "ids ! 0 = ids ! 2" using interned_ids_decide_content [OF r, of 0 2] by (simp add: same_content_def example_row_of_def)
  moreover have "ids ! 0 \<noteq> ids ! 1" using interned_ids_decide_content [OF r, of 0 1] by (simp add: same_content_def example_row_of_def)
  ultimately show ?thesis unfolding Let_def r fst_conv by blast
qed

section \<open>The search finds every alignment\<close>

definition aligned :: "side \<Rightarrow> side \<Rightarrow> nat \<Rightarrow> bool" where
  "aligned l r e \<longleftrightarrow>
     (let k = min (length (sd_rows l)) e in
      (\<forall>i \<in> {1..k}. same_row l (length (sd_rows l) - i) r (e - i)) \<and> (\<exists>i \<in> {1..k}. \<not> is_blank_row (sd_rows r ! (e - i))))"

definition candidate_at :: "side \<Rightarrow> nat \<Rightarrow> seam_candidate" where
  "candidate_at l e = \<lparr>cand_end = e, cand_overlap = min (length (sd_rows l)) e\<rparr>"

lemma align_loop_spec:
  "align_loop l r e k i nb = Some b \<longleftrightarrow>
    (\<forall>m \<in> {i..k}. same_row l (length (sd_rows l) - m) r (e - m)) \<and>
    b = (nb \<or> (\<exists>m \<in> {i..k}. \<not> is_blank_row (sd_rows r ! (e - m))))"
proof (induction l r e k i nb rule: align_loop.induct)
  case (1 l r e k i nb)
  have split: "{i..k} = insert i {Suc i..k}" if "\<not> k < i" using that by auto
  show ?case
  proof (cases "k < i")
    case True then show ?thesis by (subst align_loop.simps) auto
  next
    case False
    show ?thesis
    proof (cases "same_row l (length (sd_rows l) - i) r (e - i)")
      case True
      then have "align_loop l r e k i nb = align_loop l r e k (Suc i) (nb \<or> \<not> is_blank_row (sd_rows r ! (e - i)))"
        using False by (subst align_loop.simps) simp
      then show ?thesis using "1.IH"[OF False] True split[OF False] by auto
    next
      case no: False
      then have "align_loop l r e k i nb = None" using False by (subst align_loop.simps) simp
      then show ?thesis using no split[OF False] by auto
    qed
  qed
qed

lemma align_loop_aligned:
  "align_loop l r e (min (length (sd_rows l)) e) 1 False = Some True \<longleftrightarrow> aligned l r e"
  unfolding align_loop_spec aligned_def Let_def by simp

lemma search_loop_done:
  assumes "search_loop l r m d clock t e found = (SearchDone cs, t')" "length found \<le> m"
  shows "cs = found @ map (candidate_at l) (filter (aligned l r) [e..<Suc (length (sd_rows r))]) \<and> length cs \<le> m"
  using assms
proof (induction l r m d clock t e found rule: search_loop.induct)
  case (1 l r m d clock t e found)
  let ?k = "min (length (sd_rows l)) e" and ?t = "if e mod 64 = 1 then Suc t else t"
  show ?case
  proof (cases "length (sd_rows r) < e")
    case True
    then show ?thesis using "1.prems" by (subst (asm) search_loop.simps) simp
  next
    case False
    have up: "[e..<Suc (length (sd_rows r))] = e # [Suc e..<Suc (length (sd_rows r))]"
      using False by (simp add: upt_conv_Cons del: upt_Suc)
    have no_deadline: "\<not> (e mod 64 = 1 \<and> d < clock t)"
      using "1.prems"(1) False by (subst (asm) search_loop.simps) (auto simp: Let_def)
    show ?thesis
    proof (cases "aligned l r e")
      case al: True
      then have a: "align_loop l r e ?k 1 False = Some True" by (simp only: align_loop_aligned)
      have lim: "\<not> m < length (found @ [\<lparr>cand_end = e, cand_overlap = ?k\<rparr>])"
        using "1.prems"(1) False no_deadline a by (subst (asm) search_loop.simps) (auto simp: Let_def)
      have next_call: "search_loop l r m d clock ?t (Suc e) (found @ [\<lparr>cand_end = e, cand_overlap = ?k\<rparr>]) = (SearchDone cs, t')"
        using "1.prems"(1) False no_deadline a lim by (subst (asm) search_loop.simps) (auto simp: Let_def)
      from "1.IH"(2)[OF False refl refl refl no_deadline a refl refl lim next_call]
      show ?thesis using al lim by (auto simp: up candidate_at_def simp del: upt_Suc)
    next
      case al: False
      then have a: "align_loop l r e ?k 1 False \<noteq> Some True" by (simp only: align_loop_aligned not_False_eq_True)
      have next_call: "search_loop l r m d clock ?t (Suc e) found = (SearchDone cs, t')"
        using "1.prems"(1) False no_deadline a
        by (subst (asm) search_loop.simps) (auto simp: Let_def split: option.splits if_splits bool.splits)
      have "cs = found @ map (candidate_at l) (filter (aligned l r) [Suc e..<Suc (length (sd_rows r))]) \<and> length cs \<le> m"
      proof (cases "align_loop l r e ?k 1 False")
        case None
        show ?thesis by (rule "1.IH"(1)[OF False refl refl refl no_deadline None next_call "1.prems"(2)])
      next
        case (Some b)
        then have "b = False" using a by (cases b) simp_all
        show ?thesis by (rule "1.IH"(3)[OF False refl refl refl no_deadline Some \<open>b = False\<close> next_call "1.prems"(2)])
      qed
      then show ?thesis using al by (auto simp: up simp del: upt_Suc)
    qed
  qed
qed

end
