(* ===== verification/Stream_Stitch.thy ===== *)
theory Stream_Stitch
  imports Stitch_Rows
begin

text \<open>
  Stitching a capture between the durable tail and the pipe, \<open>server/src/stream-stitch.ts\<close>: the seam
  proofs, the provenance of pipe rows, the assembly of accepted rows and labelled gaps, and the whole
  decision. Records list the fields the code reads. The injected hash, clock and segment naming and
  SHA-256 are parameters; a thrown \<open>StitchError\<close> is the left side of a sum.
\<close>

section \<open>Windows, proofs and decisions\<close>

record certified_boundary =
  cb_pane :: pane_key
  cb_epoch :: pipe_epoch
  cb_geometry :: geometry
  cb_binary_sha256 :: jstr
  cb_hook_config_sha256 :: jstr
  cb_transcript :: evidence_file
  cb_event_coverage :: evidence_file
  cb_raw_start :: raw_position
  cb_certificate_id :: jstr

record birth_boundary =
  bb_pane :: pane_key
  bb_epoch :: pipe_epoch
  bb_first_byte_offset :: int
  bb_transcript :: evidence_file

datatype proven_boundary = CertifiedSameTurn certified_boundary | BirthBoundary birth_boundary

datatype boundary_evidence = Proven proven_boundary | OverlapUnknown jstr

datatype packet_buffer = PacketNormal | PacketAlternate | PacketUnknown

datatype main_history = HistoryAvailable | HistoryUncertain | HistoryUnavailable

record capture_packet =
  kp_version :: int
  kp_snapshot_id :: jstr
  kp_episode_id :: jstr
  kp_capture_count :: int
  kp_complete :: bool
  kp_pane :: pane_key
  kp_geometry :: geometry
  kp_active_buffer :: packet_buffer
  kp_main_history :: main_history
  kp_raw_range :: raw_range
  kp_boundary :: boundary_evidence
  kp_started_at :: int
  kp_clock_epoch :: jstr

record stitch_window =
  wn_pane :: pane_key
  wn_rows :: "stitch_row list"

record capture_window = stitch_window +
  wn_packet :: capture_packet

record pipe_window = stitch_window +
  wn_raw_range :: raw_range

record mapping_proof =
  mp_range :: raw_range
  mp_checkpoint_id :: jstr
  mp_mapping :: evidence_file
  mp_coverage :: "coverage_part list"

datatype seam_proof = RecordedMapping mapping_proof | IndependentBoundary proven_boundary

record stitch_proofs =
  pf_policy :: stitch_policy
  pf_episode_id :: jstr
  pf_tail_to_capture :: "seam_proof list"
  pf_capture_to_pipe :: "seam_proof list"

record accepted_row =
  ar_source :: row_origin
  ar_target :: segment_row_id

datatype withheld_source = FromTail | FromCapture | FromPipe

datatype withheld_kind = AmbiguousRows | UnprovenRows | UnknownStateRows

record withheld_range =
  wh_source :: withheld_source
  wh_start :: nat
  wh_end :: nat
  wh_reason :: withheld_kind

record stitch_decision =
  de_id :: jstr
  de_accepted :: "accepted_row list"
  de_withheld :: "withheld_range list"
  de_gaps :: "gap_r2 list"

datatype ambiguity = MultipleAlignments | CandidateLimit

datatype unproven_reason = UnprovenContent | UnprovenState | UnprovenGeometry | UnprovenDeadline | UnprovenShort

datatype seam_outcome = SeamOk nat | SeamAmbiguous ambiguity nat | SeamUnproven unproven_reason

datatype stitch_code = IntegrityError | IdentityError | IoError

type_synonym stitch_error = "stitch_code \<times> jstr"

datatype stitch_reply =
    Matched stitch_decision stitch_proofs
  | AmbiguousResult stitch_decision ambiguity nat
  | UnprovenResult stitch_decision unproven_reason
  | ErrorResult stitch_error

section \<open>Seam proofs\<close>

definition stitch_same_pane :: "pane_key \<Rightarrow> pane_key \<Rightarrow> bool" where
  "stitch_same_pane a b \<longleftrightarrow>
     pk_server_identity a = pk_server_identity b \<and> pk_pane_id a = pk_pane_id b \<and> pk_birth_generation a = pk_birth_generation b"

definition stitch_same_epoch :: "pipe_epoch \<Rightarrow> pipe_epoch \<Rightarrow> bool" where
  "stitch_same_epoch a b \<longleftrightarrow> stitch_same_pane (pe_pane a) (pe_pane b) \<and> pe_attach_id a = pe_attach_id b \<and>
     pe_collector_incarnation a = pe_collector_incarnation b"

lemma stitch_same_pane_iff [simp]: "stitch_same_pane a b \<longleftrightarrow> a = b"
  by (cases a; cases b) (simp add: stitch_same_pane_def)

lemma stitch_same_epoch_iff [simp]: "stitch_same_epoch a b \<longleftrightarrow> a = b"
  by (cases a; cases b) (simp add: stitch_same_epoch_def)

definition file_ok :: "evidence_file \<Rightarrow> bool" where
  "file_ok f \<longleftrightarrow> 0 < length (ev_path f) \<and> safe_int (ev_bytes f) \<and> 0 \<le> ev_bytes f \<and> contract_hash (ev_sha256 f)"

definition last_durable :: "('a) stitch_window_scheme \<Rightarrow> segment_row_id option" where
  "last_durable w =
     (if wn_rows w = [] then None
      else case tw_origin (List.last (wn_rows w)) of DurableOrigin r \<Rightarrow> Some r | _ \<Rightarrow> None)"

definition covers_row :: "segment_row_id \<Rightarrow> coverage_part \<Rightarrow> bool" where
  "covers_row r part \<longleftrightarrow>
     (case part of
        RowsPart covered d \<Rightarrow> rr_segment_id covered = sr_segment_id r \<and> stitch_same_pane (rr_pane covered) (sr_pane r) \<and>
          rr_start covered \<le> sr_row_ordinal r \<and> sr_row_ordinal r < rr_end covered
      | GapPart g d \<Rightarrow> False)"

definition tail_proof_valid :: "seam_proof \<Rightarrow> stitch_window \<Rightarrow> capture_window \<Rightarrow> bool" where
  "tail_proof_valid proof_item tail_w cap \<longleftrightarrow>
     (case proof_item of
        IndependentBoundary b \<Rightarrow> False
      | RecordedMapping m \<Rightarrow>
          (let capture = kp_raw_range (wn_packet cap) in
           case last_durable tail_w of
             None \<Rightarrow> False
           | Some r \<Rightarrow> mp_checkpoint_id m \<noteq> [] \<and> file_ok (mp_mapping m) \<and>
               stitch_same_epoch (rw_epoch (mp_range m)) (rw_epoch capture) \<and>
               stitch_same_pane (pe_pane (rw_epoch (mp_range m))) (wn_pane cap) \<and>
               rw_start (mp_range m) \<le> rw_end (mp_range m) \<and> rw_start capture \<le> rw_end (mp_range m) \<and>
               list_ex (covers_row r) (mp_coverage m)))"

datatype pipe_seam = PipeCertified | PipeBirth | PipeMapping | PipeNone

definition proof_seam :: "capture_window \<Rightarrow> pipe_window \<Rightarrow> seam_proof \<Rightarrow> pipe_seam option" where
  "proof_seam cap pipe proof_item =
     (case proof_item of
        IndependentBoundary (BirthBoundary b) \<Rightarrow>
          if \<not> stitch_same_pane (bb_pane b) (wn_pane pipe) \<or> \<not> stitch_same_epoch (bb_epoch b) (rw_epoch (wn_raw_range pipe))
          then None
          else (case kp_boundary (wn_packet cap) of
                  Proven (BirthBoundary p) \<Rightarrow>
                    if rw_start (wn_raw_range pipe) \<noteq> 0 \<or> bb_first_byte_offset b \<noteq> 0 \<or> \<not> file_ok (bb_transcript b)
                    then None else Some PipeBirth
                | _ \<Rightarrow> None)
      | IndependentBoundary (CertifiedSameTurn b) \<Rightarrow>
          if \<not> stitch_same_pane (cb_pane b) (wn_pane pipe) \<or> \<not> stitch_same_epoch (cb_epoch b) (rw_epoch (wn_raw_range pipe))
          then None
          else (case kp_boundary (wn_packet cap) of
                  Proven (CertifiedSameTurn p) \<Rightarrow>
                    if cb_certificate_id p \<noteq> cb_certificate_id b \<or> cb_certificate_id b = [] then None
                    else if geo_columns (cb_geometry b) \<noteq> geo_columns (kp_geometry (wn_packet cap)) \<or>
                      geo_rows (cb_geometry b) \<noteq> geo_rows (kp_geometry (wn_packet cap)) then None
                    else if \<not> stitch_same_epoch (rp_epoch (cb_raw_start b)) (rw_epoch (wn_raw_range pipe)) \<or>
                      rp_byte_offset (cb_raw_start b) \<noteq> rw_start (wn_raw_range pipe) then None
                    else if \<not> list_all contract_hash [cb_binary_sha256 b, cb_hook_config_sha256 b] \<or>
                      \<not> file_ok (cb_transcript b) \<or> \<not> file_ok (cb_event_coverage b) then None
                    else Some PipeCertified
                | _ \<Rightarrow> None)
      | RecordedMapping m \<Rightarrow>
          (let capture = kp_raw_range (wn_packet cap) in
           if mp_checkpoint_id m \<noteq> [] \<and> file_ok (mp_mapping m) \<and>
             stitch_same_epoch (rw_epoch (mp_range m)) (rw_epoch (wn_raw_range pipe)) \<and>
             rw_start (mp_range m) \<le> rw_start capture \<and> rw_end capture \<le> rw_end (mp_range m)
           then Some PipeMapping else None))"

fun first_seam :: "capture_window \<Rightarrow> pipe_window \<Rightarrow> seam_proof list \<Rightarrow> pipe_seam" where
  "first_seam cap pipe [] = PipeNone"
| "first_seam cap pipe (p # ps) = (case proof_seam cap pipe p of Some k \<Rightarrow> k | None \<Rightarrow> first_seam cap pipe ps)"

definition pipe_seam_of :: "stitch_proofs \<Rightarrow> capture_window \<Rightarrow> pipe_window \<Rightarrow> pipe_seam" where
  "pipe_seam_of proofs cap pipe = first_seam cap pipe (pf_capture_to_pipe proofs)"

section \<open>Provenance\<close>

definition baseline_cell_origins :: "jstr \<Rightarrow> int \<Rightarrow> nat \<Rightarrow> row_origin list" where
  "baseline_cell_origins snapshot row_index cells = replicate cells (CaptureOrigin snapshot row_index)"

datatype cell_provenance = PipeOnly | BaselineOnly int | MixedOrigin "int list" | ForeignOrigin

text \<open>The loop over the cell origins: the set of row indexes in insertion order, and whether some cell is the pipe's.\<close>

fun provenance_loop :: "jstr \<Rightarrow> int list \<Rightarrow> bool \<Rightarrow> row_origin list \<Rightarrow> (int list \<times> bool) option" where
  "provenance_loop snapshot indexes pipe [] = Some (indexes, pipe)"
| "provenance_loop snapshot indexes pipe (PipeOrigin r n # os) = provenance_loop snapshot indexes True os"
| "provenance_loop snapshot indexes pipe (CaptureOrigin s i # os) =
     (if s = snapshot then provenance_loop snapshot (if i \<in> set indexes then indexes else indexes @ [i]) pipe os else None)"
| "provenance_loop snapshot indexes pipe (DurableOrigin r # os) = None"

definition provenance :: "stitch_row \<Rightarrow> jstr \<Rightarrow> cell_provenance" where
  "provenance row snapshot =
     (case provenance_loop snapshot [] False (tw_cell_origins row) of
        None \<Rightarrow> ForeignOrigin
      | Some (indexes, pipe) \<Rightarrow>
          if indexes = [] then PipeOnly
          else if \<not> pipe \<and> length indexes = 1 then BaselineOnly (hd indexes)
          else MixedOrigin indexes)"

definition origin_after :: "int \<Rightarrow> row_origin \<Rightarrow> bool" where
  "origin_after e w \<longleftrightarrow> (case w of PipeOrigin r n \<Rightarrow> e \<le> rw_start r | _ \<Rightarrow> False)"

definition after_capture :: "stitch_row \<Rightarrow> capture_packet \<Rightarrow> bool" where
  "after_capture row packet \<longleftrightarrow>
     (let e = rw_end (kp_raw_range packet) in origin_after e (tw_origin row) \<and> list_all (origin_after e) (tw_cell_origins row))"

fun seam_gap_reason :: "seam_outcome \<Rightarrow> gap_reason" where
  "seam_gap_reason (SeamAmbiguous a n) = AmbiguousOverlap"
| "seam_gap_reason (SeamUnproven r) = (if r = UnprovenGeometry then GeometryChange
     else if r = UnprovenState then UnknownVtState else UnprovenOverlap)"
| "seam_gap_reason (SeamOk n) = UnprovenOverlap"

section \<open>The assembly\<close>

record assembly =
  as_pane :: pane_key
  as_segment_id :: jstr
  as_packet :: capture_packet
  as_episode_id :: jstr
  as_accepted :: "accepted_row list"
  as_withheld :: "withheld_range list"
  as_gaps :: "gap_r2 list"
  as_sequence :: nat
  as_run :: "(gap_reason \<times> nat) option"
  as_left :: "segment_row_id option"

definition new_assembly :: "pane_key \<Rightarrow> jstr \<Rightarrow> capture_packet \<Rightarrow> jstr \<Rightarrow> segment_row_id option \<Rightarrow> assembly" where
  "new_assembly pane segment packet episode tail_id = \<lparr>as_pane = pane, as_segment_id = segment, as_packet = packet,
     as_episode_id = episode, as_accepted = [], as_withheld = [], as_gaps = [], as_sequence = 0, as_run = None, as_left = tail_id\<rparr>"

definition left_mark :: "segment_row_id option \<Rightarrow> jstr" where
  "left_mark l = (case l of None \<Rightarrow> js ''none'' | Some r \<Rightarrow> sr_segment_id r @ js '':'' @ dec_int (sr_row_ordinal r))"

definition push_gap :: "gap_reason \<Rightarrow> nat \<Rightarrow> segment_row_id option \<Rightarrow> assembly \<Rightarrow> assembly" where
  "push_gap reason withheld left a =
     (let n = as_sequence a;
          g = \<lparr>gp_episode_id = as_episode_id a, gp_parent_episode_id = None, gp_pane = as_pane a, gp_left_row_id = left,
               gp_right_segment_id = Some (as_segment_id a), gp_reason = reason, gp_withheld_rows = int withheld, gp_lower_bound = 0,
               gp_opened_at = kp_started_at (as_packet a), gp_closed_at = None, gp_clock_epoch = kp_clock_epoch (as_packet a),
               gp_quality = Degraded, gp_missing = MissingUnknown, gr_revision = 2,
               gr_gap_id = js ''c-'' @ as_episode_id a @ js ''-'' @ dec_nat n @ js ''-'' @ js (gap_reason_name reason) @ js ''-'' @ left_mark left,
               gr_sequence = int n, gr_update = 0, gr_state = GapOpen\<rparr>
      in a\<lparr>as_gaps := as_gaps a @ [g], as_sequence := Suc n\<rparr>)"

definition close_run :: "assembly \<Rightarrow> assembly" where
  "close_run a =
     (case as_run a of None \<Rightarrow> a
      | Some (reason, rows) \<Rightarrow> (push_gap reason rows (as_left a) a)\<lparr>as_run := None\<rparr>)"

definition leading_gap :: "assembly \<Rightarrow> assembly" where
  "leading_gap a = push_gap UnprovenOverlap 0 None a"

definition ensure_positioned :: "gap_reason \<Rightarrow> assembly \<Rightarrow> assembly" where
  "ensure_positioned reason a =
     (let b = close_run a in if as_gaps b = [] then push_gap reason 0 (as_left b) b else b)"

definition accept_row :: "row_origin \<Rightarrow> assembly \<Rightarrow> assembly" where
  "accept_row source a =
     (let b = close_run a;
          target = \<lparr>sr_pane = as_pane b, sr_segment_id = as_segment_id b, sr_row_ordinal = int (length (as_accepted b))\<rparr>
      in b\<lparr>as_accepted := as_accepted b @ [\<lparr>ar_source = source, ar_target = target\<rparr>], as_left := Some target\<rparr>)"

fun withheld_reason :: "gap_reason \<Rightarrow> withheld_kind" where
  "withheld_reason AmbiguousOverlap = AmbiguousRows"
| "withheld_reason UnknownVtState = UnknownStateRows"
| "withheld_reason _ = UnprovenRows"

definition extends_last :: "assembly \<Rightarrow> withheld_source \<Rightarrow> nat \<Rightarrow> withheld_kind \<Rightarrow> bool" where
  "extends_last a source index kind \<longleftrightarrow>
     as_run a \<noteq> None \<and> as_withheld a \<noteq> [] \<and>
     (let w = List.last (as_withheld a) in wh_source w = source \<and> wh_end w = index \<and> wh_reason w = kind)"

definition withhold_row :: "withheld_source \<Rightarrow> nat \<Rightarrow> gap_reason \<Rightarrow> assembly \<Rightarrow> assembly" where
  "withhold_row source index reason a =
     (let kind = withheld_reason reason; ws = as_withheld a;
          ws' = (if extends_last a source index kind then butlast ws @ [(List.last ws)\<lparr>wh_end := Suc index\<rparr>]
                 else ws @ [\<lparr>wh_source = source, wh_start = index, wh_end = Suc index, wh_reason = kind\<rparr>]);
          (run_reason, rows) = (case as_run a of None \<Rightarrow> (reason, 0) | Some run \<Rightarrow> run)
      in a\<lparr>as_withheld := ws', as_run := Some (run_reason, Suc rows)\<rparr>)"

text \<open>Canonical JSON of what the decision id hashes.\<close>

fun origin_wire :: "row_origin \<Rightarrow> wire" where
  "origin_wire (DurableOrigin r) = WObj [(''kind'', ascii ''durable''), (''rowId'', row_id_wire r)]"
| "origin_wire (CaptureOrigin s i) = WObj [(''kind'', ascii ''capture''), (''snapshotId'', WStr s), (''rowIndex'', WInt i)]"
| "origin_wire (PipeOrigin r n) = WObj [(''kind'', ascii ''pipe''), (''range'', raw_range_wire r), (''ordinal'', WInt n)]"

fun source_name :: "withheld_source \<Rightarrow> string" where
  "source_name FromTail = ''tail''" | "source_name FromCapture = ''capture''" | "source_name FromPipe = ''pipe''"

fun kind_name :: "withheld_kind \<Rightarrow> string" where
  "kind_name AmbiguousRows = ''ambiguous''" | "kind_name UnprovenRows = ''unproven''" | "kind_name UnknownStateRows = ''unknown-state''"

definition withheld_wire :: "withheld_range \<Rightarrow> wire" where
  "withheld_wire w = WObj [(''source'', ascii (source_name (wh_source w))), (''start'', WInt (int (wh_start w))),
     (''end'', WInt (int (wh_end w))), (''reason'', ascii (kind_name (wh_reason w)))]"

definition decision_wire :: "assembly \<Rightarrow> wire" where
  "decision_wire a = WObj
     [(''accepted'', WArr (map (\<lambda>r. WArr [origin_wire (ar_source r), WInt (sr_row_ordinal (ar_target r))]) (as_accepted a))),
      (''withheld'', WArr (map withheld_wire (as_withheld a))),
      (''gaps'', WArr (map (\<lambda>g. WArr [ascii (gap_reason_name (gp_reason g)), WInt (gp_withheld_rows g),
         opt_wire row_id_wire (gp_left_row_id g)]) (as_gaps a))),
      (''segment'', WStr (as_segment_id a))]"

definition finish_assembly :: "(jstr \<Rightarrow> jstr) \<Rightarrow> assembly \<Rightarrow> stitch_decision" where
  "finish_assembly sha a0 =
     (let a = close_run a0 in
      \<lparr>de_id = js ''stitch-'' @ take 32 (digest_of sha ''stitch-decision'' (decision_wire a)),
       de_accepted = as_accepted a, de_withheld = as_withheld a, de_gaps = as_gaps a\<rparr>)"

section \<open>The stitch\<close>

record stitch_options =
  op_hash :: "jstr \<Rightarrow> jstr"
  op_clock :: "nat \<Rightarrow> rat"
  op_segment_id_for :: "(jstr \<Rightarrow> jstr \<Rightarrow> jstr) option"

definition min_anchor_rows :: nat where "min_anchor_rows = 8"
definition min_distinct_keys :: nat where "min_distinct_keys = 4"
definition min_nonblank_rows :: nat where "min_nonblank_rows = 2"
definition max_candidates_limit :: nat where "max_candidates_limit = 4096"
definition stitch_deadline_ms :: rat where "stitch_deadline_ms = 100"
definition tail_search_rows :: nat where "tail_search_rows = 512"

definition policy_matches :: "stitch_policy \<Rightarrow> bool" where
  "policy_matches p \<longleftrightarrow> po_version p = 1 \<and> po_min_anchor_rows p = min_anchor_rows \<and>
     po_min_distinct_keys p = min_distinct_keys \<and> po_min_nonblank_rows p = min_nonblank_rows \<and>
     po_max_candidates p = max_candidates_limit \<and> po_deadline_ms p = stitch_deadline_ms"

definition default_segment_id :: "(jstr \<Rightarrow> jstr) \<Rightarrow> jstr \<Rightarrow> jstr \<Rightarrow> jstr" where
  "default_segment_id sha episode snapshot = js ''stitch-v1-'' @
     take 32 (digest_of sha ''stitch-segment'' (WObj [(''episodeId'', WStr episode), (''snapshotId'', WStr snapshot)]))"

definition row_error :: "string \<Rightarrow> nat \<Rightarrow> string \<Rightarrow> stitch_error" where
  "row_error a i b = (IntegrityError, js a @ dec_nat i @ js b)"

definition pipe_origin_ok :: "pipe_window \<Rightarrow> stitch_row \<Rightarrow> bool" where
  "pipe_origin_ok pipe row =
     (case tw_origin row of
        PipeOrigin r n \<Rightarrow> stitch_same_epoch (rw_epoch r) (rw_epoch (wn_raw_range pipe)) \<and>
          rw_start (wn_raw_range pipe) \<le> rw_start r \<and> rw_end r \<le> rw_end (wn_raw_range pipe) \<and> rw_start r \<le> rw_end r
      | _ \<Rightarrow> False)"

definition stitch_checks :: "stitch_window \<Rightarrow> capture_window \<Rightarrow> pipe_window \<Rightarrow> stitch_proofs \<Rightarrow> (bool \<times> stitch_error) list" where
  "stitch_checks tail_w cap pipe proofs =
     (let packet = wn_packet cap in
      [(policy_matches (pf_policy proofs), (IntegrityError, js ''stitch policy is not v1'')),
       (kp_version packet = 1 \<and> kp_capture_count packet = 1 \<and> kp_complete packet,
        (IntegrityError, js ''capture packet is not a complete v1 packet'')),
       (pf_episode_id proofs = kp_episode_id packet, (IdentityError, js ''episode mismatch''))] @
      map (\<lambda>pane. (stitch_same_pane (wn_pane tail_w) pane, (IdentityError, js ''pane identity differs between windows'')))
        [wn_pane cap, wn_pane pipe, kp_pane packet, pe_pane (rw_epoch (wn_raw_range pipe)), pe_pane (rw_epoch (kp_raw_range packet))] @
      [(stitch_same_epoch (rw_epoch (wn_raw_range pipe)) (rw_epoch (kp_raw_range packet)),
        (IdentityError, js ''pipe and capture epochs differ''))] @
      map (\<lambda>(i, row). (case tw_origin row of DurableOrigin r \<Rightarrow> stitch_same_pane (sr_pane r) (wn_pane tail_w) | _ \<Rightarrow> False,
        row_error ''tail row '' i '' is not durable'')) (enumerate 0 (wn_rows tail_w)) @
      map (\<lambda>(i, row). (case tw_origin row of CaptureOrigin s n \<Rightarrow> s = kp_snapshot_id packet \<and> n = int i | _ \<Rightarrow> False,
        row_error ''capture row '' i '' origin mismatch'')) (enumerate 0 (wn_rows cap)) @
      map (\<lambda>(i, row). (pipe_origin_ok pipe row, row_error ''pipe row '' i '' origin outside the pipe window''))
        (enumerate 0 (wn_rows pipe)))"

fun verdict_reason :: "anchor_verdict \<Rightarrow> unproven_reason" where
  "verdict_reason ShortAnchor = UnprovenShort"
| "verdict_reason UnknownState = UnprovenState"
| "verdict_reason _ = UnprovenContent"

text \<open>Candidates first, then the minimum content, then the proof gate.\<close>

definition stitch_seam ::
  "(nat \<Rightarrow> rat) \<Rightarrow> rat \<Rightarrow> stitch_policy \<Rightarrow> side \<Rightarrow> side \<Rightarrow> bool \<Rightarrow> nat \<Rightarrow> seam_outcome \<times> nat" where
  "stitch_seam clock deadline policy l r proven t =
     (let (search, t') = search_candidates l r (po_max_candidates policy) deadline clock t in
      (case search of
         SearchDeadline n \<Rightarrow> SeamUnproven UnprovenDeadline
       | SearchLimit n \<Rightarrow> SeamAmbiguous CandidateLimit n
       | SearchDone [] \<Rightarrow> SeamUnproven UnprovenContent
       | SearchDone [only] \<Rightarrow>
           (let verdict = anchor_verdict l r only policy in
            if verdict \<noteq> AnchorOk then SeamUnproven (verdict_reason verdict)
            else if \<not> proven then SeamUnproven UnprovenContent
            else SeamOk (cand_end only))
       | SearchDone cs \<Rightarrow> SeamAmbiguous MultipleAlignments (length cs), t'))"

definition tail_rows :: "stitch_window \<Rightarrow> stitch_row list" where
  "tail_rows w = drop (length (wn_rows w) - tail_search_rows) (wn_rows w)"

definition tail_seam ::
  "stitch_options \<Rightarrow> rat \<Rightarrow> stitch_window \<Rightarrow> capture_window \<Rightarrow> pipe_window \<Rightarrow> stitch_proofs \<Rightarrow> pipe_seam \<Rightarrow>
   row_interner \<Rightarrow> nat \<Rightarrow> stitch_error + (seam_outcome \<times> row_interner \<times> nat)" where
  "tail_seam opts deadline tail_w cap pipe proofs kind it t =
     (let packet = wn_packet cap; recent = tail_rows tail_w in
      if kind = PipeBirth then
        (if 0 < length (wn_rows tail_w) \<or> 0 < length (wn_rows cap) then Inl (IdentityError, js ''birth boundary with prior rows'')
         else Inr (SeamOk 0, it, t))
      else if length (wn_rows tail_w) = 0 then Inr (SeamUnproven UnprovenContent, it, t)
      else if kp_active_buffer packet \<noteq> PacketNormal \<or> kp_main_history packet \<noteq> HistoryAvailable
      then Inr (SeamUnproven UnprovenState, it, t)
      else if geo_columns (tw_geometry (List.last recent)) \<noteq> geo_columns (kp_geometry packet)
      then Inr (SeamUnproven UnprovenGeometry, it, t)
      else
        (let (l, it1) = make_side (op_hash opts) recent it;
             (r, it2) = make_side (op_hash opts) (wn_rows cap) it1;
             (outcome, t') = stitch_seam (op_clock opts) deadline (pf_policy proofs) l r
                (list_ex (\<lambda>p. tail_proof_valid p tail_w cap) (pf_tail_to_capture proofs)) t
         in Inr (outcome, it2, t')))"

definition finalized_capture :: "capture_window \<Rightarrow> stitch_row list" where
  "finalized_capture cap = takeWhile tw_finalized (wn_rows cap)"

definition pipe_outcome ::
  "stitch_options \<Rightarrow> rat \<Rightarrow> capture_window \<Rightarrow> pipe_window \<Rightarrow> stitch_proofs \<Rightarrow> pipe_seam \<Rightarrow> bool \<Rightarrow>
   row_interner \<Rightarrow> nat \<Rightarrow> seam_outcome option" where
  "pipe_outcome opts deadline cap pipe proofs kind canonical it t =
     (if kind = PipeMapping \<and> canonical then
        (let (l, it1) = make_side (op_hash opts) (finalized_capture cap) it;
             (r, it2) = make_side (op_hash opts) (wn_rows pipe) it1
         in Some (fst (stitch_seam (op_clock opts) deadline (pf_policy proofs) l r True t)))
      else if kind = PipeNone \<or> kind = PipeMapping then Some (SeamUnproven UnprovenContent)
      else None)"

fun capture_loop :: "bool \<Rightarrow> gap_reason \<Rightarrow> nat \<Rightarrow> nat \<Rightarrow> stitch_row list \<Rightarrow> assembly \<Rightarrow> nat set \<Rightarrow> assembly \<times> nat set" where
  "capture_loop canonical reason first index [] a accepted = (a, accepted)"
| "capture_loop canonical reason first index (row # rows) a accepted =
     (if \<not> canonical then capture_loop canonical reason first (Suc index) rows (withhold_row FromCapture index reason a) accepted
      else if index < first \<or> \<not> tw_finalized row then capture_loop canonical reason first (Suc index) rows a accepted
      else capture_loop canonical reason first (Suc index) rows (accept_row (tw_origin row) a) (insert index accepted))"

record pipe_context =
  px_packet :: capture_packet
  px_skip :: nat
  px_finalized :: nat
  px_accepted :: "nat set"
  px_capture_start :: nat
  px_canonical :: bool
  px_reason :: gap_reason
  px_trusted :: bool

text \<open>\<open>finalizedIndexes\<close> is an initial segment; \<open>acceptedCapture\<close> a set of indexes.\<close>

definition in_finalized :: "pipe_context \<Rightarrow> int \<Rightarrow> bool" where
  "in_finalized x i \<longleftrightarrow> 0 \<le> i \<and> i < int (px_finalized x)"

definition in_accepted :: "pipe_context \<Rightarrow> int \<Rightarrow> bool" where
  "in_accepted x i \<longleftrightarrow> 0 \<le> i \<and> nat i \<in> px_accepted x"

text \<open>The part after the checks of the row's provenance.\<close>

definition settle_pipe_row :: "pipe_context \<Rightarrow> nat \<Rightarrow> stitch_row \<Rightarrow> bool \<Rightarrow> assembly \<Rightarrow> assembly" where
  "settle_pipe_row x index row carries a =
     (if carries \<and> \<not> px_canonical x then withhold_row FromPipe index (px_reason x) a
      else if \<not> px_trusted x \<and> \<not> after_capture row (px_packet x) then withhold_row FromPipe index UnprovenOverlap a
      else if has_uncertain row then withhold_row FromPipe index UnknownVtState a
      else accept_row (tw_origin row) a)"

definition pipe_row :: "pipe_context \<Rightarrow> nat \<Rightarrow> stitch_row \<Rightarrow> assembly \<times> int set \<Rightarrow> stitch_error + (assembly \<times> int set)" where
  "pipe_row x index row st =
     (let (a, seen) = st in
      if \<not> tw_finalized row \<or> index < px_skip x then Inr (a, seen)
      else
        (case provenance row (kp_snapshot_id (px_packet x)) of
           ForeignOrigin \<Rightarrow> Inl (row_error ''pipe row '' index '' names another snapshot'')
         | PipeOnly \<Rightarrow> Inr (settle_pipe_row x index row False a, seen)
         | BaselineOnly i \<Rightarrow>
             if in_finalized x i then
               (if \<not> px_canonical x then Inr (withhold_row FromPipe index (px_reason x) a, seen)
                else if \<not> in_accepted x i \<and> int (px_capture_start x) \<le> i
                then Inl (row_error ''pipe row '' index '' repeats an unaccepted capture row'')
                else Inr (a, seen))
             else if i \<in> seen then Inr (a, seen)
             else Inr (settle_pipe_row x index row True a, insert i seen)
         | MixedOrigin indexes \<Rightarrow>
             if list_ex (in_finalized x) indexes
             then Inl (row_error ''pipe row '' index '' edits finalized capture history'')
             else Inr (settle_pipe_row x index row True a, seen)))"

fun pipe_loop :: "pipe_context \<Rightarrow> nat \<Rightarrow> stitch_row list \<Rightarrow> assembly \<times> int set \<Rightarrow> stitch_error + (assembly \<times> int set)" where
  "pipe_loop x index [] st = Inr st"
| "pipe_loop x index (row # rows) st =
     (case pipe_row x index row st of Inl e \<Rightarrow> Inl e | Inr st' \<Rightarrow> pipe_loop x (Suc index) rows st')"

fun is_ambiguous :: "seam_outcome \<Rightarrow> bool" where
  "is_ambiguous (SeamAmbiguous a n) = True"
| "is_ambiguous _ = False"

fun is_unproven :: "seam_outcome \<Rightarrow> bool" where
  "is_unproven (SeamUnproven r) = True"
| "is_unproven _ = False"

fun is_seam_ok :: "seam_outcome option \<Rightarrow> bool" where
  "is_seam_ok (Some (SeamOk e)) = True"
| "is_seam_ok _ = False"

fun seam_end :: "seam_outcome option \<Rightarrow> nat" where
  "seam_end (Some (SeamOk e)) = e"
| "seam_end _ = 0"

definition seam_failure :: "seam_outcome \<Rightarrow> seam_outcome option \<Rightarrow> seam_outcome option" where
  "seam_failure tail_o pipe_o =
     (let outcomes = tail_o # (case pipe_o of None \<Rightarrow> [] | Some s \<Rightarrow> [s]) in
      case find is_ambiguous outcomes of Some s \<Rightarrow> Some s | None \<Rightarrow> find is_unproven outcomes)"

text \<open>The last lines of \<open>run\<close>: the status of the decision. A proven seam is never a failure.\<close>

definition stitch_status :: "bool \<Rightarrow> seam_outcome option \<Rightarrow> stitch_decision \<Rightarrow> stitch_proofs \<Rightarrow> stitch_reply" where
  "stitch_status tail_empty_start failure d proofs =
     (case failure of
        None \<Rightarrow>
          if tail_empty_start then UnprovenResult d UnprovenContent
          else if list_ex (\<lambda>w. wh_reason w = UnknownStateRows) (de_withheld d) then UnprovenResult d UnprovenState
          else Matched d proofs
      | Some (SeamAmbiguous reason n) \<Rightarrow> AmbiguousResult d reason n
      | Some (SeamUnproven reason) \<Rightarrow> UnprovenResult d reason
      | Some (SeamOk e) \<Rightarrow> UnprovenResult d UnprovenContent)"

definition pipe_context_of ::
  "capture_window \<Rightarrow> pipe_seam \<Rightarrow> seam_outcome \<Rightarrow> seam_outcome option \<Rightarrow> bool \<Rightarrow> nat set \<Rightarrow> pipe_context" where
  "pipe_context_of cap kind tail_o pipe_o canonical accepted =
     \<lparr>px_packet = wn_packet cap, px_skip = seam_end pipe_o, px_finalized = length (finalized_capture cap),
      px_accepted = accepted, px_capture_start = seam_end (Some tail_o), px_canonical = canonical,
      px_reason = seam_gap_reason tail_o, px_trusted = (kind = PipeCertified \<or> kind = PipeBirth \<or> is_seam_ok pipe_o)\<rparr>"

definition stitch_segment :: "(jstr \<Rightarrow> jstr) \<Rightarrow> stitch_options \<Rightarrow> stitch_proofs \<Rightarrow> capture_window \<Rightarrow> jstr" where
  "stitch_segment sha opts proofs cap =
     (case op_segment_id_for opts of None \<Rightarrow> default_segment_id sha | Some f \<Rightarrow> f)
       (pf_episode_id proofs) (kp_snapshot_id (wn_packet cap))"

definition assemble_rows ::
  "(jstr \<Rightarrow> jstr) \<Rightarrow> stitch_options \<Rightarrow> stitch_window \<Rightarrow> capture_window \<Rightarrow> pipe_window \<Rightarrow> stitch_proofs \<Rightarrow>
   pipe_seam \<Rightarrow> seam_outcome \<Rightarrow> seam_outcome option \<Rightarrow> stitch_reply" where
  "assemble_rows sha opts tail_w cap pipe proofs kind tail_o pipe_o =
     (let packet = wn_packet cap;
          tail_empty_start = (length (wn_rows tail_w) = 0 \<and> kind \<noteq> PipeBirth);
          canonical = (is_seam_ok (Some tail_o) \<or> tail_empty_start);
          failure = seam_failure tail_o pipe_o;
          a0 = new_assembly (wn_pane pipe) (stitch_segment sha opts proofs cap) packet (pf_episode_id proofs) (last_durable tail_w);
          a1 = (if tail_empty_start then leading_gap a0 else a0);
          (a2, accepted) = capture_loop canonical (seam_gap_reason tail_o) (seam_end (Some tail_o)) 0 (wn_rows cap) a1 {};
          x = pipe_context_of cap kind tail_o pipe_o canonical accepted
      in case pipe_loop x 0 (wn_rows pipe) (a2, {}) of
           Inl e \<Rightarrow> ErrorResult e
         | Inr (a3, seen) \<Rightarrow>
             (let a4 = (case failure of None \<Rightarrow> a3 | Some f \<Rightarrow> ensure_positioned (seam_gap_reason f) a3)
              in stitch_status tail_empty_start failure (finish_assembly sha a4) proofs))"

definition stitch_run ::
  "(jstr \<Rightarrow> jstr) \<Rightarrow> stitch_options \<Rightarrow> stitch_window \<Rightarrow> capture_window \<Rightarrow> pipe_window \<Rightarrow> stitch_proofs \<Rightarrow> stitch_reply" where
  "stitch_run sha opts tail_w cap pipe proofs =
     (case first_failure (stitch_checks tail_w cap pipe proofs) of
        Some e \<Rightarrow> ErrorResult e
      | None \<Rightarrow>
          (let deadline = op_clock opts 0 + po_deadline_ms (pf_policy proofs); kind = pipe_seam_of proofs cap pipe in
           case tail_seam opts deadline tail_w cap pipe proofs kind empty_interner 1 of
             Inl e \<Rightarrow> ErrorResult e
           | Inr (tail_o, it, t) \<Rightarrow>
               (let tail_empty_start = (length (wn_rows tail_w) = 0 \<and> kind \<noteq> PipeBirth) in
                assemble_rows sha opts tail_w cap pipe proofs kind tail_o
                  (pipe_outcome opts deadline cap pipe proofs kind (is_seam_ok (Some tail_o) \<or> tail_empty_start) it t))))"

end
