(* ===== verification/Stitch_Sound.thy ===== *)
theory Stitch_Sound
  imports Stream_Stitch
begin

text \<open>
  What a stitch may be relied on for: it matches exactly when it leaves no gap, its gaps account for
  every withheld row, it accepts rows in order under consecutive ids, and it joins the durable tail to a
  capture only behind a valid proof and the one alignment there is.
\<close>

section \<open>Invariants of the assembly\<close>

text \<open>An invariant that accepting a row keeps, and withholding one for a reason in \<open>R\<close>.\<close>

locale asm_invariant =
  fixes I :: "assembly \<Rightarrow> bool" and R :: "gap_reason set"
  assumes accept_keeps: "I a \<Longrightarrow> I (accept_row src a)"
    and withhold_keeps: "I a \<Longrightarrow> reason \<in> R \<Longrightarrow> I (withhold_row source index reason a)"
begin

lemma capture_loop_keeps:
  "I a \<Longrightarrow> canonical \<or> reason \<in> R \<Longrightarrow> I (fst (capture_loop canonical reason first index rows a acc))"
  by (induction canonical reason first index rows a acc rule: capture_loop.induct)
    (auto simp: accept_keeps withhold_keeps)

lemma settle_keeps:
  "I a \<Longrightarrow> px_canonical x \<or> px_reason x \<in> R \<Longrightarrow> px_trusted x \<or> UnprovenOverlap \<in> R \<Longrightarrow> UnknownVtState \<in> R \<Longrightarrow>
   I (settle_pipe_row x index row carries a)"
  by (auto simp: settle_pipe_row_def accept_keeps withhold_keeps)

lemma pipe_row_keeps:
  assumes "pipe_row x index row (a, seen) = Inr (a', seen')" "I a" "px_canonical x \<or> px_reason x \<in> R"
    "px_trusted x \<or> UnprovenOverlap \<in> R" "UnknownVtState \<in> R"
  shows "I a'"
  using assms settle_keeps withhold_keeps
  by (auto simp: pipe_row_def split: if_splits cell_provenance.splits)

lemma pipe_loop_keeps:
  assumes "pipe_loop x index rows (a, seen) = Inr (a', seen')" "I a" "px_canonical x \<or> px_reason x \<in> R"
    "px_trusted x \<or> UnprovenOverlap \<in> R" "UnknownVtState \<in> R"
  shows "I a'"
  using assms(1,2)
proof (induction rows arbitrary: index a seen)
  case (Cons row rows)
  then obtain b s where "pipe_row x index row (a, seen) = Inr (b, s)" "pipe_loop x (Suc index) rows (b, s) = Inr (a', seen')"
    by (auto split: sum.splits)
  then show ?case using Cons.IH[of "Suc index" b s] pipe_row_keeps[OF _ Cons.prems(2) assms(3-5)] by blast
qed simp

end

section \<open>Every withheld row is counted by one gap\<close>

definition range_rows :: "withheld_range \<Rightarrow> int" where
  "range_rows w = int (wh_end w) - int (wh_start w)"

definition run_rows :: "assembly \<Rightarrow> int" where
  "run_rows a = (case as_run a of None \<Rightarrow> 0 | Some (reason, n) \<Rightarrow> int n)"

definition segment_ids :: "assembly \<Rightarrow> segment_row_id list" where
  "segment_ids a = map (\<lambda>i. \<lparr>sr_pane = as_pane a, sr_segment_id = as_segment_id a, sr_row_ordinal = int i\<rparr>) [0..<length (as_accepted a)]"

definition gap_fresh :: "segment_row_id option set \<Rightarrow> gap_r2 \<Rightarrow> bool" where
  "gap_fresh places g \<longleftrightarrow> gp_left_row_id g \<in> places \<and> gp_missing g = MissingUnknown \<and> gr_state g = GapOpen \<and> gr_update g = 0 \<and>
     0 \<le> gp_withheld_rows g"

definition places :: "segment_row_id option \<Rightarrow> accepted_row list \<Rightarrow> segment_row_id option set" where
  "places tail_id accepted = {None, tail_id} \<union> Some ` ar_target ` set accepted"

definition asm_accounts :: "segment_row_id option \<Rightarrow> assembly \<Rightarrow> bool" where
  "asm_accounts tail_id a \<longleftrightarrow>
     sum_list (map gp_withheld_rows (as_gaps a)) + run_rows a = sum_list (map range_rows (as_withheld a)) \<and>
     map gr_sequence (as_gaps a) = map int [0..<length (as_gaps a)] \<and> as_sequence a = length (as_gaps a) \<and>
     map ar_target (as_accepted a) = segment_ids a \<and>
     as_left a \<in> places tail_id (as_accepted a) \<and>
     list_all (gap_fresh (places tail_id (as_accepted a))) (as_gaps a) \<and>
     (case as_run a of None \<Rightarrow> True | Some (reason, n) \<Rightarrow> 1 \<le> n) \<and>
     (as_withheld a = [] \<longrightarrow> as_run a = None) \<and>
     (as_withheld a \<noteq> [] \<longrightarrow> as_gaps a \<noteq> [] \<or> as_run a \<noteq> None)"

lemma places_mono: "set xs \<subseteq> set ys \<Longrightarrow> places t xs \<subseteq> places t ys"
  by (auto simp: places_def)

lemma gap_fresh_mono: "p \<subseteq> q \<Longrightarrow> list_all (gap_fresh p) gs \<Longrightarrow> list_all (gap_fresh q) gs"
  by (auto simp: gap_fresh_def list_all_iff)

lemma push_gap_simps [simp]:
  "as_pane (push_gap r n l a) = as_pane a" "as_segment_id (push_gap r n l a) = as_segment_id a"
  "as_accepted (push_gap r n l a) = as_accepted a" "as_withheld (push_gap r n l a) = as_withheld a"
  "as_run (push_gap r n l a) = as_run a" "as_left (push_gap r n l a) = as_left a"
  "as_gaps (push_gap r n l a) \<noteq> []" "as_sequence (push_gap r n l a) = Suc (as_sequence a)"
  "length (as_gaps (push_gap r n l a)) = Suc (length (as_gaps a))"
  "as_packet (push_gap r n l a) = as_packet a" "as_episode_id (push_gap r n l a) = as_episode_id a"
  by (simp_all add: push_gap_def Let_def)

lemma push_gap_gaps:
  "\<exists>g. as_gaps (push_gap r n l a) = as_gaps a @ [g] \<and> gp_withheld_rows g = int n \<and> gr_sequence g = int (as_sequence a) \<and>
     gp_left_row_id g = l \<and> gp_missing g = MissingUnknown \<and> gr_state g = GapOpen \<and> gr_update g = 0 \<and> gp_reason g = r"
  by (simp add: push_gap_def Let_def)

lemma push_gap_accounts:
  assumes "asm_accounts t a" "l \<in> places t (as_accepted a)"
  shows "sum_list (map gp_withheld_rows (as_gaps (push_gap r n l a))) + run_rows a =
      sum_list (map range_rows (as_withheld a)) + int n \<and>
    map gr_sequence (as_gaps (push_gap r n l a)) = map int [0..<length (as_gaps (push_gap r n l a))] \<and>
    list_all (gap_fresh (places t (as_accepted a))) (as_gaps (push_gap r n l a))"
proof -
  obtain g where g: "as_gaps (push_gap r n l a) = as_gaps a @ [g]" "gp_withheld_rows g = int n" "gr_sequence g = int (as_sequence a)"
    "gp_left_row_id g = l" "gp_missing g = MissingUnknown" "gr_state g = GapOpen" "gr_update g = 0"
    using push_gap_gaps by blast
  show ?thesis using assms by (simp add: g asm_accounts_def gap_fresh_def)
qed

lemma close_run_accounts:
  assumes "asm_accounts t a"
  shows "asm_accounts t (close_run a)" "as_run (close_run a) = None" "as_accepted (close_run a) = as_accepted a"
    "as_withheld (close_run a) = as_withheld a" "as_pane (close_run a) = as_pane a" "as_segment_id (close_run a) = as_segment_id a"
    "as_gaps (close_run a) = [] \<longleftrightarrow> as_gaps a = [] \<and> as_run a = None"
proof -
  have left: "as_left a \<in> places t (as_accepted a)" using assms by (simp add: asm_accounts_def)
  show "asm_accounts t (close_run a)"
  proof (cases "as_run a")
    case None then show ?thesis using assms by (simp add: close_run_def)
  next
    case (Some run)
    obtain reason n where run: "run = (reason, n)" by (cases run)
    note P = push_gap_accounts[OF assms left, of reason n]
    have "run_rows a = int n" by (simp add: run_rows_def Some run)
    with P assms show ?thesis
      unfolding asm_accounts_def close_run_def Some run option.case prod.case
      by (simp add: run_rows_def segment_ids_def)
  qed
qed (simp_all add: close_run_def split: option.split prod.split)

lemma accept_accounts: "asm_accounts t a \<Longrightarrow> asm_accounts t (accept_row src a)"
proof -
  assume a: "asm_accounts t a"
  note c = close_run_accounts[OF a]
  let ?b = "close_run a" and ?a = "accept_row src a"
  have acc: "as_accepted ?a = as_accepted ?b @ [\<lparr>ar_source = src, ar_target = \<lparr>sr_pane = as_pane ?b, sr_segment_id = as_segment_id ?b,
      sr_row_ordinal = int (length (as_accepted ?b))\<rparr>\<rparr>]" and same: "as_gaps ?a = as_gaps ?b" "as_run ?a = as_run ?b"
    "as_withheld ?a = as_withheld ?b" "as_sequence ?a = as_sequence ?b" "as_pane ?a = as_pane ?b" "as_segment_id ?a = as_segment_id ?b"
    and left: "as_left ?a = Some (ar_target (List.last (as_accepted ?a)))"
    by (simp_all add: accept_row_def Let_def)
  have "list_all (gap_fresh (places t (as_accepted ?a))) (as_gaps ?b)"
    using c(1) by (auto simp: asm_accounts_def acc intro: gap_fresh_mono[OF places_mono])
  moreover have "as_left ?a \<in> places t (as_accepted ?a)" by (simp add: left acc places_def)
  moreover have "map ar_target (as_accepted ?a) = segment_ids ?a"
    using c(1) by (simp add: asm_accounts_def segment_ids_def acc same)
  ultimately show ?thesis using c(1) by (simp add: asm_accounts_def same run_rows_def)
qed

lemma withhold_accounts: "asm_accounts t a \<Longrightarrow> asm_accounts t (withhold_row source index reason a)"
proof -
  assume a: "asm_accounts t a"
  let ?a = "withhold_row source index reason a" and ?k = "withheld_reason reason"
  have same: "as_gaps ?a = as_gaps a" "as_accepted ?a = as_accepted a" "as_sequence ?a = as_sequence a" "as_pane ?a = as_pane a"
    "as_segment_id ?a = as_segment_id a" "as_left ?a = as_left a"
    by (simp_all add: withhold_row_def Let_def split: prod.split)
  have run: "run_rows ?a = run_rows a + 1" "as_run ?a \<noteq> None" "case as_run ?a of None \<Rightarrow> True | Some (r, n) \<Rightarrow> 1 \<le> n"
    by (auto simp: withhold_row_def Let_def run_rows_def split: prod.splits option.splits)
  have ranges: "sum_list (map range_rows (as_withheld ?a)) = sum_list (map range_rows (as_withheld a)) + 1 \<and> as_withheld ?a \<noteq> []"
  proof (cases "extends_last a source index ?k")
    case True
    then have w: "as_withheld a = butlast (as_withheld a) @ [List.last (as_withheld a)]" "wh_end (List.last (as_withheld a)) = index"
      by (auto simp: extends_last_def Let_def)
    have "as_withheld ?a = butlast (as_withheld a) @ [(List.last (as_withheld a))\<lparr>wh_end := Suc index\<rparr>]"
      using True by (simp add: withhold_row_def Let_def split: prod.split)
    moreover have "sum_list (map range_rows (as_withheld a)) =
        sum_list (map range_rows (butlast (as_withheld a))) + range_rows (List.last (as_withheld a))"
      by (subst w(1)) simp
    ultimately show ?thesis using w(2) by (simp add: range_rows_def)
  next
    case False
    then have "as_withheld ?a = as_withheld a @ [\<lparr>wh_source = source, wh_start = index, wh_end = Suc index, wh_reason = ?k\<rparr>]"
      by (simp add: withhold_row_def Let_def split: prod.split)
    then show ?thesis by (simp add: range_rows_def)
  qed
  show ?thesis using a run ranges unfolding asm_accounts_def same segment_ids_def by simp
qed

interpretation acc: asm_invariant "asm_accounts t" UNIV for t
  by unfold_locales (simp_all add: accept_accounts withhold_accounts)

section \<open>A trusted run withholds nothing but unknown state\<close>

definition asm_quiet :: "assembly \<Rightarrow> bool" where
  "asm_quiet a \<longleftrightarrow> list_all (\<lambda>w. wh_reason w = UnknownStateRows) (as_withheld a) \<and>
     (as_withheld a = [] \<longrightarrow> as_gaps a = [] \<and> as_run a = None)"

lemma accept_quiet: "asm_quiet a \<Longrightarrow> asm_quiet (accept_row src a)"
  by (auto simp: asm_quiet_def accept_row_def Let_def close_run_def split: option.splits)

lemma withhold_quiet: "asm_quiet a \<Longrightarrow> asm_quiet (withhold_row source index UnknownVtState a)"
proof (cases "extends_last a source index UnknownStateRows")
  case True
  moreover assume "asm_quiet a"
  ultimately show ?thesis
    by (auto simp: asm_quiet_def list_all_iff withhold_row_def Let_def extends_last_def split: prod.splits dest: in_set_butlastD)
next
  case False
  moreover assume "asm_quiet a"
  ultimately show ?thesis
    by (auto simp: asm_quiet_def list_all_iff withhold_row_def Let_def split: prod.splits)
qed

interpretation quiet: asm_invariant asm_quiet "{UnknownVtState}"
  by unfold_locales (simp_all add: accept_quiet withhold_quiet)

section \<open>The decision as a whole\<close>

fun decision_of :: "stitch_reply \<Rightarrow> stitch_decision option" where
  "decision_of (Matched d p) = Some d"
| "decision_of (AmbiguousResult d r n) = Some d"
| "decision_of (UnprovenResult d r) = Some d"
| "decision_of (ErrorResult e) = None"

lemma decision_stitch_status [simp]: "decision_of (stitch_status te f d pf) = Some d"
  by (simp add: stitch_status_def split: option.split seam_outcome.split)

lemma ensure_positioned_accounts:
  assumes "asm_accounts t a"
  shows "asm_accounts t (ensure_positioned r a)" "as_accepted (ensure_positioned r a) = as_accepted a"
    "as_pane (ensure_positioned r a) = as_pane a" "as_segment_id (ensure_positioned r a) = as_segment_id a"
    "as_gaps (ensure_positioned r a) \<noteq> []"
proof -
  note c = close_run_accounts[OF assms]
  have "as_left (close_run a) \<in> places t (as_accepted (close_run a))" using c(1) by (simp add: asm_accounts_def)
  note P = push_gap_accounts[OF c(1) this, of r 0]
  have "asm_accounts t (push_gap r 0 (as_left (close_run a)) (close_run a))"
    using P c(1,2) by (simp add: asm_accounts_def run_rows_def segment_ids_def)
  then show "asm_accounts t (ensure_positioned r a)" using c(1) by (simp add: ensure_positioned_def Let_def)
qed (simp_all add: ensure_positioned_def Let_def close_run_accounts[OF assms])

text \<open>The rows a loop accepts are some of the rows it is given, in order.\<close>

definition sources :: "assembly \<Rightarrow> row_origin list" where
  "sources a = map ar_source (as_accepted a)"

lemma sources_accept [simp]: "sources (accept_row src a) = sources a @ [src]"
  by (simp add: sources_def accept_row_def Let_def close_run_def split: option.split prod.split)

lemma sources_withhold [simp]: "sources (withhold_row s i r a) = sources a"
  by (simp add: sources_def withhold_row_def Let_def split: prod.split)

lemma capture_loop_sources:
  "canonical \<Longrightarrow> sources (fst (capture_loop canonical reason first index rows a acc)) =
     sources a @ map tw_origin (filter tw_finalized (drop (first - index) rows))"
proof (induction canonical reason first index rows a acc rule: capture_loop.induct)
  case (2 canonical reason first index row rows a acc)
  show ?case
  proof (cases "index < first")
    case True
    then have "first - index = Suc (first - Suc index)" by simp
    then show ?thesis using 2 True by simp
  next
    case False
    then show ?thesis using 2 by (cases "tw_finalized row") simp_all
  qed
qed simp

lemma capture_loop_refused: "\<not> canonical \<Longrightarrow> sources (fst (capture_loop canonical reason first index rows a acc)) = sources a"
  by (induction canonical reason first index rows a acc rule: capture_loop.induct) simp_all

lemma settle_sources: "sources (settle_pipe_row x index row carries a) = sources a \<or>
  sources (settle_pipe_row x index row carries a) = sources a @ [tw_origin row]"
  by (simp add: settle_pipe_row_def)

lemma pipe_row_sources:
  assumes "pipe_row x index row (a, seen) = Inr (a', seen')"
  shows "sources a' = sources a \<or> sources a' = sources a @ [tw_origin row]"
  using assms settle_sources[of x index row _ a]
  by (auto simp: pipe_row_def split: if_splits cell_provenance.splits)

lemma pipe_loop_sources:
  assumes "pipe_loop x index rows (a, seen) = Inr (a', seen')"
  shows "\<exists>os. sources a' = sources a @ os \<and> subseq os (map tw_origin rows)"
  using assms
proof (induction rows arbitrary: index a seen)
  case (Cons row rows)
  obtain b s where step: "pipe_row x index row (a, seen) = Inr (b, s)" "pipe_loop x (Suc index) rows (b, s) = Inr (a', seen')"
    using Cons.prems by (auto split: sum.splits)
  obtain os where os: "sources a' = sources b @ os" "subseq os (map tw_origin rows)" using Cons.IH[OF step(2)] by blast
  from pipe_row_sources[OF step(1)] show ?case
  proof
    assume "sources b = sources a"
    then show ?thesis using os by (intro exI[of _ os]) (simp add: list_emb_Cons)
  next
    assume "sources b = sources a @ [tw_origin row]"
    then show ?thesis using os by (intro exI[of _ "tw_origin row # os"]) simp
  qed
qed simp

interpretation ids: asm_invariant "\<lambda>a. as_pane a = p \<and> as_segment_id a = s" UNIV for p s
  by unfold_locales (auto simp: accept_row_def withhold_row_def Let_def close_run_def split: option.split prod.split)

text \<open>A run that does not end in an error went through both loops.\<close>

lemma assemble_rows_cases:
  assumes "decision_of (assemble_rows sha opts tail_w cap pipe proofs kind tail_o pipe_o) = Some d"
  obtains a1 a2 acc a3 seen a4 where
    "a1 = (let a0 = new_assembly (wn_pane pipe) (stitch_segment sha opts proofs cap) (wn_packet cap) (pf_episode_id proofs)
             (last_durable tail_w) in if wn_rows tail_w = [] \<and> kind \<noteq> PipeBirth then leading_gap a0 else a0)"
    "capture_loop (is_seam_ok (Some tail_o) \<or> wn_rows tail_w = [] \<and> kind \<noteq> PipeBirth) (seam_gap_reason tail_o)
       (seam_end (Some tail_o)) 0 (wn_rows cap) a1 {} = (a2, acc)"
    "pipe_loop (pipe_context_of cap kind tail_o pipe_o (is_seam_ok (Some tail_o) \<or> wn_rows tail_w = [] \<and> kind \<noteq> PipeBirth) acc)
       0 (wn_rows pipe) (a2, {}) = Inr (a3, seen)"
    "a4 = (case seam_failure tail_o pipe_o of None \<Rightarrow> a3 | Some f \<Rightarrow> ensure_positioned (seam_gap_reason f) a3)"
    "d = finish_assembly sha a4"
    "assemble_rows sha opts tail_w cap pipe proofs kind tail_o pipe_o =
       stitch_status (wn_rows tail_w = [] \<and> kind \<noteq> PipeBirth) (seam_failure tail_o pipe_o) d proofs"
  using assms unfolding assemble_rows_def Let_def length_0_conv
  by (auto split: prod.splits sum.splits simp del: capture_loop.simps pipe_loop.simps)

lemma new_assembly_accounts:
  "asm_accounts t (new_assembly p s k e t)" "asm_accounts t (leading_gap (new_assembly p s k e t))"
  by (simp_all add: asm_accounts_def new_assembly_def leading_gap_def push_gap_def Let_def run_rows_def segment_ids_def places_def gap_fresh_def)

lemma assemble_rows_accounts:
  assumes "decision_of (assemble_rows sha opts tail_w cap pipe proofs kind tail_o pipe_o) = Some d"
  shows "sum_list (map gp_withheld_rows (de_gaps d)) = sum_list (map range_rows (de_withheld d)) \<and>
    map gr_sequence (de_gaps d) = map int [0..<length (de_gaps d)] \<and>
    list_all (gap_fresh (places (last_durable tail_w) (de_accepted d))) (de_gaps d) \<and>
    map ar_target (de_accepted d) = map (\<lambda>i. \<lparr>sr_pane = wn_pane pipe, sr_segment_id = stitch_segment sha opts proofs cap,
      sr_row_ordinal = int i\<rparr>) [0..<length (de_accepted d)] \<and>
    subseq (map ar_source (de_accepted d)) (map tw_origin (wn_rows cap @ wn_rows pipe)) \<and>
    (de_withheld d \<noteq> [] \<longrightarrow> de_gaps d \<noteq> [])"
proof -
  let ?t = "last_durable tail_w"
  obtain a1 a2 acc a3 seen a4 where
    a1: "a1 = (let a0 = new_assembly (wn_pane pipe) (stitch_segment sha opts proofs cap) (wn_packet cap) (pf_episode_id proofs) ?t
           in if wn_rows tail_w = [] \<and> kind \<noteq> PipeBirth then leading_gap a0 else a0)"
    and cl: "capture_loop (is_seam_ok (Some tail_o) \<or> wn_rows tail_w = [] \<and> kind \<noteq> PipeBirth) (seam_gap_reason tail_o)
       (seam_end (Some tail_o)) 0 (wn_rows cap) a1 {} = (a2, acc)"
    and pl: "pipe_loop (pipe_context_of cap kind tail_o pipe_o (is_seam_ok (Some tail_o) \<or> wn_rows tail_w = [] \<and> kind \<noteq> PipeBirth) acc)
       0 (wn_rows pipe) (a2, {}) = Inr (a3, seen)"
    and a4: "a4 = (case seam_failure tail_o pipe_o of None \<Rightarrow> a3 | Some f \<Rightarrow> ensure_positioned (seam_gap_reason f) a3)"
    and d: "d = finish_assembly sha a4"
    using assms by (rule assemble_rows_cases)
  have i1: "asm_accounts ?t a1" by (simp add: a1 Let_def new_assembly_accounts)
  have id1: "as_pane a1 = wn_pane pipe \<and> as_segment_id a1 = stitch_segment sha opts proofs cap" and src1: "sources a1 = []"
    by (simp_all add: a1 Let_def new_assembly_def leading_gap_def sources_def)
  have i2: "asm_accounts ?t a2" using acc.capture_loop_keeps[OF i1] cl by (metis UNIV_I fst_conv)
  have id2: "as_pane a2 = wn_pane pipe \<and> as_segment_id a2 = stitch_segment sha opts proofs cap"
    using ids.capture_loop_keeps[OF id1] cl by (metis UNIV_I fst_conv)
  have i3: "asm_accounts ?t a3" by (rule acc.pipe_loop_keeps[OF pl i2]) simp_all
  have id3: "as_pane a3 = wn_pane pipe \<and> as_segment_id a3 = stitch_segment sha opts proofs cap"
    by (rule ids.pipe_loop_keeps[OF pl id2]) simp_all
  have i4: "asm_accounts ?t a4" "as_accepted a4 = as_accepted a3"
    "as_pane a4 = wn_pane pipe" "as_segment_id a4 = stitch_segment sha opts proofs cap"
    using i3 id3 ensure_positioned_accounts[OF i3] by (simp_all add: a4 split: option.split)
  note c = close_run_accounts[OF i4(1)]
  have fields: "de_accepted d = as_accepted a3" "de_withheld d = as_withheld (close_run a4)" "de_gaps d = as_gaps (close_run a4)"
    using c(3) i4(2) by (simp_all add: d finish_assembly_def Let_def)
  have "sources a2 = [] \<or> (\<exists>n. sources a2 = map tw_origin (filter tw_finalized (drop n (wn_rows cap))))"
    using capture_loop_sources capture_loop_refused cl src1 by (metis append_Nil fst_conv)
  then have "subseq (sources a2) (map tw_origin (wn_rows cap))"
    using subseq_map[OF subseq_order.trans[OF subseq_filter_left suffix_imp_subseq[OF suffix_drop]]] by (elim disjE exE) auto
  then have "subseq (sources a3) (map tw_origin (wn_rows cap @ wn_rows pipe))"
    using pipe_loop_sources[OF pl] list_emb_append_mono by fastforce
  then show ?thesis
    using c(1,2) unfolding asm_accounts_def fields
    by (simp add: c i4 segment_ids_def sources_def run_rows_def)
qed

text \<open>Every decision comes from the assembly.\<close>

lemma stitch_run_cases:
  assumes "decision_of (stitch_run sha opts tail_w cap pipe proofs) = Some d"
  obtains tail_o it t where
    "first_failure (stitch_checks tail_w cap pipe proofs) = None"
    "tail_seam opts (op_clock opts 0 + po_deadline_ms (pf_policy proofs)) tail_w cap pipe proofs (pipe_seam_of proofs cap pipe)
       empty_interner 1 = Inr (tail_o, it, t)"
    "stitch_run sha opts tail_w cap pipe proofs = assemble_rows sha opts tail_w cap pipe proofs (pipe_seam_of proofs cap pipe) tail_o
       (pipe_outcome opts (op_clock opts 0 + po_deadline_ms (pf_policy proofs)) cap pipe proofs (pipe_seam_of proofs cap pipe)
          (is_seam_ok (Some tail_o) \<or> wn_rows tail_w = [] \<and> pipe_seam_of proofs cap pipe \<noteq> PipeBirth) it t)"
  using assms unfolding stitch_run_def Let_def length_0_conv
  by (auto split: option.splits sum.splits prod.splits simp del: first_failure_None)


section \<open>Matched means no gap\<close>

lemma find_is: "find P xs = Some s \<Longrightarrow> P s"
  by (auto simp: find_Some_iff)

lemma seam_failure_None:
  "seam_failure tail_o pipe_o = None \<longleftrightarrow> is_seam_ok (Some tail_o) \<and> (pipe_o = None \<or> is_seam_ok pipe_o)"
proof -
  have "\<not> is_ambiguous s \<and> \<not> is_unproven s \<longleftrightarrow> is_seam_ok (Some s)" for s by (cases s) simp_all
  then show ?thesis
    by (auto simp: seam_failure_def Let_def find_None_iff split: option.split)
qed

lemma pipe_outcome_ok:
  assumes "canonical" "pipe_outcome opts deadline cap pipe proofs kind canonical it t = None \<or>
    is_seam_ok (pipe_outcome opts deadline cap pipe proofs kind canonical it t)"
  shows "kind = PipeCertified \<or> kind = PipeBirth \<or> is_seam_ok (pipe_outcome opts deadline cap pipe proofs kind canonical it t)"
  using assms by (cases kind) (auto simp: pipe_outcome_def split: prod.splits)

lemma assemble_matched:
  assumes "decision_of (assemble_rows sha opts tail_w cap pipe proofs kind tail_o pipe_o) = Some d"
    "seam_failure tail_o pipe_o = None" "\<not> (wn_rows tail_w = [] \<and> kind \<noteq> PipeBirth)"
    "kind = PipeCertified \<or> kind = PipeBirth \<or> is_seam_ok pipe_o"
  shows "(assemble_rows sha opts tail_w cap pipe proofs kind tail_o pipe_o = Matched d proofs \<and> de_gaps d = [] \<and> de_withheld d = []) \<or>
    (assemble_rows sha opts tail_w cap pipe proofs kind tail_o pipe_o = UnprovenResult d UnprovenState \<and> de_withheld d \<noteq> [])"
proof -
  obtain a1 a2 acc a3 seen a4 where
    a1: "a1 = (let a0 = new_assembly (wn_pane pipe) (stitch_segment sha opts proofs cap) (wn_packet cap) (pf_episode_id proofs) (last_durable tail_w)
           in if wn_rows tail_w = [] \<and> kind \<noteq> PipeBirth then leading_gap a0 else a0)"
    and cl: "capture_loop (is_seam_ok (Some tail_o) \<or> wn_rows tail_w = [] \<and> kind \<noteq> PipeBirth) (seam_gap_reason tail_o)
       (seam_end (Some tail_o)) 0 (wn_rows cap) a1 {} = (a2, acc)"
    and pl: "pipe_loop (pipe_context_of cap kind tail_o pipe_o (is_seam_ok (Some tail_o) \<or> wn_rows tail_w = [] \<and> kind \<noteq> PipeBirth) acc)
       0 (wn_rows pipe) (a2, {}) = Inr (a3, seen)"
    and a4: "a4 = (case seam_failure tail_o pipe_o of None \<Rightarrow> a3 | Some f \<Rightarrow> ensure_positioned (seam_gap_reason f) a3)"
    and d: "d = finish_assembly sha a4"
    and res: "assemble_rows sha opts tail_w cap pipe proofs kind tail_o pipe_o =
       stitch_status (wn_rows tail_w = [] \<and> kind \<noteq> PipeBirth) (seam_failure tail_o pipe_o) d proofs"
    using assms(1) by (rule assemble_rows_cases)
  have ok: "is_seam_ok (Some tail_o)" using assms(2) by (simp add: seam_failure_None)
  have "asm_quiet a1" using assms(3) by (auto simp: a1 Let_def new_assembly_def asm_quiet_def)
  then have q2: "asm_quiet a2" using quiet.capture_loop_keeps cl ok by (metis fst_conv)
  have q3: "asm_quiet a3"
    by (rule quiet.pipe_loop_keeps[OF pl q2]) (use ok assms(4) in \<open>simp_all add: pipe_context_of_def\<close>)
  have fin: "de_withheld d = as_withheld a3" "de_gaps d = as_gaps (close_run a3)"
    using assms(2) by (simp_all add: d a4 finish_assembly_def Let_def close_run_def split: option.split prod.split)
  have "de_withheld d = [] \<Longrightarrow> de_gaps d = []" using q3 by (simp add: fin asm_quiet_def close_run_def)
  moreover have "list_ex (\<lambda>w. wh_reason w = UnknownStateRows) (de_withheld d) \<longleftrightarrow> de_withheld d \<noteq> []"
    using q3 unfolding fin asm_quiet_def by (cases "as_withheld a3") simp_all
  ultimately show ?thesis using assms(2,3) by (simp add: res stitch_status_def)
qed

lemma assemble_failed:
  assumes "decision_of (assemble_rows sha opts tail_w cap pipe proofs kind tail_o pipe_o) = Some d"
    "seam_failure tail_o pipe_o = Some f"
  shows "de_gaps d \<noteq> [] \<and> (\<forall>e p. assemble_rows sha opts tail_w cap pipe proofs kind tail_o pipe_o \<noteq> Matched e p)"
proof -
  obtain a1 a2 acc a3 seen a4 where
    a1: "a1 = (let a0 = new_assembly (wn_pane pipe) (stitch_segment sha opts proofs cap) (wn_packet cap) (pf_episode_id proofs) (last_durable tail_w)
           in if wn_rows tail_w = [] \<and> kind \<noteq> PipeBirth then leading_gap a0 else a0)"
    and cl: "capture_loop (is_seam_ok (Some tail_o) \<or> wn_rows tail_w = [] \<and> kind \<noteq> PipeBirth) (seam_gap_reason tail_o)
       (seam_end (Some tail_o)) 0 (wn_rows cap) a1 {} = (a2, acc)"
    and pl: "pipe_loop (pipe_context_of cap kind tail_o pipe_o (is_seam_ok (Some tail_o) \<or> wn_rows tail_w = [] \<and> kind \<noteq> PipeBirth) acc)
       0 (wn_rows pipe) (a2, {}) = Inr (a3, seen)"
    and a4: "a4 = (case seam_failure tail_o pipe_o of None \<Rightarrow> a3 | Some f \<Rightarrow> ensure_positioned (seam_gap_reason f) a3)"
    and d: "d = finish_assembly sha a4"
    and res: "assemble_rows sha opts tail_w cap pipe proofs kind tail_o pipe_o =
       stitch_status (wn_rows tail_w = [] \<and> kind \<noteq> PipeBirth) (seam_failure tail_o pipe_o) d proofs"
    using assms(1) by (rule assemble_rows_cases)
  have "asm_accounts (last_durable tail_w) a1" by (simp add: a1 Let_def new_assembly_accounts)
  then have "asm_accounts (last_durable tail_w) a2" using acc.capture_loop_keeps cl by (metis UNIV_I fst_conv)
  then have i3: "asm_accounts (last_durable tail_w) a3" using acc.pipe_loop_keeps[OF pl] by simp
  note e = ensure_positioned_accounts[OF i3]
  have "de_gaps d \<noteq> []"
    using assms(2) e(5) close_run_accounts(7)[OF e(1)] by (simp add: d a4 finish_assembly_def Let_def)
  moreover have "stitch_status te (Some f) d proofs \<noteq> Matched e p" for te e p
    by (simp add: stitch_status_def split: seam_outcome.split)
  ultimately show ?thesis by (simp add: res assms(2))
qed

text \<open>
  C19: A stitch matches exactly when it leaves no gap. A decision has the status \<open>matched\<close> only with no
  gap and no withheld row, and then returns the proofs it was given; every other decision, ambiguous or
  unproven, labels at least one gap, so an uncertain stitch is never silent.
\<close>

theorem stitch_matched_iff_no_gap:
  "case stitch_run sha opts tail_w cap pipe proofs of
     ErrorResult e \<Rightarrow> True
   | Matched d p \<Rightarrow> p = proofs \<and> de_gaps d = [] \<and> de_withheld d = []
   | AmbiguousResult d reason n \<Rightarrow> de_gaps d \<noteq> []
   | UnprovenResult d reason \<Rightarrow> de_gaps d \<noteq> []"
proof (cases "decision_of (stitch_run sha opts tail_w cap pipe proofs)")
  case None
  then show ?thesis by (cases "stitch_run sha opts tail_w cap pipe proofs") simp_all
next
  case (Some d)
  let ?kind = "pipe_seam_of proofs cap pipe" and ?deadline = "op_clock opts 0 + po_deadline_ms (pf_policy proofs)"
  obtain tail_o it t where
    ts: "tail_seam opts ?deadline tail_w cap pipe proofs ?kind empty_interner 1 = Inr (tail_o, it, t)"
    and run: "stitch_run sha opts tail_w cap pipe proofs = assemble_rows sha opts tail_w cap pipe proofs ?kind tail_o
       (pipe_outcome opts ?deadline cap pipe proofs ?kind (is_seam_ok (Some tail_o) \<or> wn_rows tail_w = [] \<and> ?kind \<noteq> PipeBirth) it t)"
    using Some by (rule stitch_run_cases)
  let ?o = "pipe_outcome opts ?deadline cap pipe proofs ?kind (is_seam_ok (Some tail_o) \<or> wn_rows tail_w = [] \<and> ?kind \<noteq> PipeBirth) it t"
  have dec: "decision_of (assemble_rows sha opts tail_w cap pipe proofs ?kind tail_o ?o) = Some d" using Some run by simp
  show ?thesis
  proof (cases "seam_failure tail_o ?o")
    case (Some f)
    from assemble_failed[OF dec Some] dec show ?thesis unfolding run
      by (cases "assemble_rows sha opts tail_w cap pipe proofs ?kind tail_o ?o") auto
  next
    case None
    then have ok: "is_seam_ok (Some tail_o)" "?o = None \<or> is_seam_ok ?o" unfolding seam_failure_None by blast+
    have no_start: "\<not> (wn_rows tail_w = [] \<and> ?kind \<noteq> PipeBirth)"
      using ts ok(1) by (auto simp: tail_seam_def Let_def split: if_splits)
    have trusted: "?kind = PipeCertified \<or> ?kind = PipeBirth \<or> is_seam_ok ?o"
      using pipe_outcome_ok[OF _ ok(2)] ok(1) by blast
    from assemble_matched[OF dec None no_start trusted] assemble_rows_accounts[OF dec] show ?thesis unfolding run by auto
  qed
qed

section \<open>Matched means proven\<close>

definition rows_aligned :: "stitch_row list \<Rightarrow> stitch_row list \<Rightarrow> nat \<Rightarrow> bool" where
  "rows_aligned ls rs e \<longleftrightarrow>
     (let k = min (length ls) e in
      1 \<le> e \<and> e \<le> length rs \<and>
      (\<forall>i \<in> {1..k}. same_content (ls ! (length ls - i)) (rs ! (e - i)) \<and> wrap_agrees (ls ! (length ls - i)) (rs ! (e - i))) \<and>
      (\<exists>i \<in> {1..k}. \<not> is_blank_row (rs ! (e - i))))"

lemma make_sides_same_row:
  assumes "interner_ok hash it" "make_side hash ls it = (l, it1)" "make_side hash rs it1 = (r, it2)"
  shows "sd_rows l = ls \<and> sd_rows r = rs \<and>
    (\<forall>i < length ls. \<forall>j < length rs. same_row l i r j \<longleftrightarrow> same_content (ls ! i) (rs ! j) \<and> wrap_agrees (ls ! i) (rs ! j))"
proof -
  obtain a b where a: "intern_all hash ls it = (a, it1)" "l = \<lparr>sd_rows = ls, sd_ids = a\<rparr>"
    and b: "intern_all hash rs it1 = (b, it2)" "r = \<lparr>sd_rows = rs, sd_ids = b\<rparr>"
    using assms(2,3) by (auto simp: make_side_def split: prod.splits)
  note A = intern_all_step[OF assms(1) a(1)]
  note B = intern_all_step[OF conjunct1[OF A] b(1)]
  have "a ! i = text_id hash it2 (stitch_row_canonical (ls ! i) False)" "known_text hash it2 (stitch_row_canonical (ls ! i) False)"
    if "i < length ls" for i using A B that by (simp_all add: interner_extends_def)
  moreover have "b ! j = text_id hash it2 (stitch_row_canonical (rs ! j) False)" "known_text hash it2 (stitch_row_canonical (rs ! j) False)"
    if "j < length rs" for j using B that by simp_all
  ultimately show ?thesis using B text_id_inject by (simp add: a b same_row_def row_canonical_content)
qed

lemma aligned_rows:
  assumes "sd_rows l = ls \<and> sd_rows r = rs \<and>
    (\<forall>i < length ls. \<forall>j < length rs. same_row l i r j \<longleftrightarrow> same_content (ls ! i) (rs ! j) \<and> wrap_agrees (ls ! i) (rs ! j))"
  shows "1 \<le> e \<Longrightarrow> e \<le> length rs \<Longrightarrow> aligned l r e \<longleftrightarrow> rows_aligned ls rs e"
proof -
  assume e: "1 \<le> e" "e \<le> length rs"
  have "same_row l (length ls - i) r (e - i) \<longleftrightarrow>
      same_content (ls ! (length ls - i)) (rs ! (e - i)) \<and> wrap_agrees (ls ! (length ls - i)) (rs ! (e - i))"
    if "i \<in> {1..min (length ls) e}" for i
    using assms e that by auto
  then show ?thesis using assms e unfolding aligned_def rows_aligned_def Let_def by simp
qed

lemma anchor_ok_rows:
  assumes "anchor_verdict l r c policy = AnchorOk"
  shows "po_min_anchor_rows policy \<le> length (filter tw_finalized (take (cand_overlap c) (drop (cand_end c - cand_overlap c) (sd_rows r))))"
  by (rule ccontr) (use assms in \<open>simp add: anchor_verdict_def Let_def not_le\<close>)

lemma seam_ok_search:
  assumes "stitch_seam clock deadline policy l r proven t = (SeamOk e, t')"
  obtains c u where "search_candidates l r (po_max_candidates policy) deadline clock t = (SearchDone [c], u)"
    "anchor_verdict l r c policy = AnchorOk" "proven" "e = cand_end c"
proof -
  obtain search u where s: "search_candidates l r (po_max_candidates policy) deadline clock t = (search, u)" by fastforce
  show thesis
  proof (cases search)
    case (SearchDone cs)
    with assms s obtain c where "cs = [c]" by (cases cs rule: list.exhaust; cases "tl cs") (simp_all add: stitch_seam_def)
    with assms s SearchDone that show ?thesis by (simp add: stitch_seam_def Let_def split: if_splits)
  qed (use assms s in \<open>simp_all add: stitch_seam_def\<close>)
qed

lemma seam_ok:
  assumes "stitch_seam clock deadline policy l r proven t = (SeamOk e, t')"
    "\<And>x. 1 \<le> x \<Longrightarrow> x \<le> length (sd_rows r) \<Longrightarrow> aligned l r x \<longleftrightarrow> rows_aligned (sd_rows l) (sd_rows r) x"
  shows "proven \<and> {x. rows_aligned (sd_rows l) (sd_rows r) x} = {e} \<and>
    (let k = min (length (sd_rows l)) e in
     po_min_anchor_rows policy \<le> length (filter tw_finalized (take k (drop (e - k) (sd_rows r)))))"
proof -
  obtain c u where s: "search_candidates l r (po_max_candidates policy) deadline clock t = (SearchDone [c], u)"
    and v: "anchor_verdict l r c policy = AnchorOk" and pr: "proven" and e: "e = cand_end c"
    using assms(1) by (rule seam_ok_search)
  define F where "F = filter (aligned l r) [1..<Suc (length (sd_rows r))]"
  have one: "[c] = map (candidate_at l) F"
    using search_loop_done[OF s[unfolded search_candidates_def]] unfolding F_def by simp
  have "map cand_end [c] = map cand_end (map (candidate_at l) F)" by (simp only: one)
  then have F: "F = [e]" by (simp add: candidate_at_def comp_def e)
  then have c: "c = candidate_at l e" using one by simp
  have "x \<in> set F \<longleftrightarrow> rows_aligned (sd_rows l) (sd_rows r) x" for x
  proof -
    have "x \<in> set F \<longleftrightarrow> 1 \<le> x \<and> x \<le> length (sd_rows r) \<and> aligned l r x" unfolding F_def set_filter set_upt by auto
    also have "\<dots> \<longleftrightarrow> rows_aligned (sd_rows l) (sd_rows r) x" using assms(2)[of x] unfolding rows_aligned_def Let_def by blast
    finally show ?thesis .
  qed
  then have "{x. rows_aligned (sd_rows l) (sd_rows r) x} = {e}" unfolding F by auto
  then show ?thesis
    using anchor_ok_rows[OF v] pr by (simp add: Let_def c candidate_at_def)
qed

text \<open>
  C4: A stitch joins the durable tail to a capture only behind a proof. When a stitch with a nonempty
  tail matches, one of the supplied tail proofs is valid for exactly this tail and capture; there is
  one and only one way to lay the end of the tail over the capture with equal content, and it covers at
  least eight finalized rows; and what is accepted is every finalized row of the capture after that
  overlap, followed by rows of the pipe in order.
\<close>

theorem stitch_matched_is_proven:
  assumes "stitch_run sha opts tail_w cap pipe proofs = Matched d p" "wn_rows tail_w \<noteq> []"
  shows "\<exists>m e rest. m \<in> set (pf_tail_to_capture proofs) \<and> tail_proof_valid m tail_w cap \<and>
    {x. rows_aligned (tail_rows tail_w) (wn_rows cap) x} = {e} \<and>
    8 \<le> length (filter tw_finalized (drop (e - min (length (tail_rows tail_w)) e) (take e (wn_rows cap)))) \<and>
    map ar_source (de_accepted d) = map tw_origin (filter tw_finalized (drop e (wn_rows cap))) @ rest \<and>
    subseq rest (map tw_origin (wn_rows pipe))"
proof -
  let ?kind = "pipe_seam_of proofs cap pipe" and ?deadline = "op_clock opts 0 + po_deadline_ms (pf_policy proofs)"
  have some: "decision_of (stitch_run sha opts tail_w cap pipe proofs) = Some d" by (simp add: assms(1))
  then obtain tail_o it t where
    checks: "first_failure (stitch_checks tail_w cap pipe proofs) = None" and
    ts: "tail_seam opts ?deadline tail_w cap pipe proofs ?kind empty_interner 1 = Inr (tail_o, it, t)"
    and run: "stitch_run sha opts tail_w cap pipe proofs = assemble_rows sha opts tail_w cap pipe proofs ?kind tail_o
       (pipe_outcome opts ?deadline cap pipe proofs ?kind (is_seam_ok (Some tail_o) \<or> wn_rows tail_w = [] \<and> ?kind \<noteq> PipeBirth) it t)"
    by (rule stitch_run_cases)
  let ?o = "pipe_outcome opts ?deadline cap pipe proofs ?kind (is_seam_ok (Some tail_o) \<or> wn_rows tail_w = [] \<and> ?kind \<noteq> PipeBirth) it t"
  have dec: "decision_of (assemble_rows sha opts tail_w cap pipe proofs ?kind tail_o ?o) = Some d" using some run by simp
  have "seam_failure tail_o ?o = None"
    using assemble_failed[OF dec] assms(1) run by (cases "seam_failure tail_o ?o") auto
  then have "is_seam_ok (Some tail_o)" by (simp add: seam_failure_None)
  then obtain e where e: "tail_o = SeamOk e" by (cases tail_o) simp_all
  obtain l it1 r it2 t' where
    sides: "make_side (op_hash opts) (tail_rows tail_w) empty_interner = (l, it1)" "make_side (op_hash opts) (wn_rows cap) it1 = (r, it2)"
    and seam: "stitch_seam (op_clock opts) ?deadline (pf_policy proofs) l r
      (list_ex (\<lambda>m. tail_proof_valid m tail_w cap) (pf_tail_to_capture proofs)) 1 = (SeamOk e, t')"
    using ts assms(2) by (auto simp: tail_seam_def Let_def e split: if_splits prod.splits)
  note same = make_sides_same_row[OF interner_ok_empty sides]
  have rows: "sd_rows l = tail_rows tail_w" "sd_rows r = wn_rows cap" using same by simp_all
  have al: "aligned l r x \<longleftrightarrow> rows_aligned (sd_rows l) (sd_rows r) x" if "1 \<le> x" "x \<le> length (sd_rows r)" for x
    using aligned_rows[OF same] that by (simp add: rows)
  note S = seam_ok[OF seam al]
  have policy: "po_min_anchor_rows (pf_policy proofs) = 8"
    using checks unfolding first_failure_None by (simp add: stitch_checks_def Let_def policy_matches_def min_anchor_rows_def)
  have content: "8 \<le> length (filter tw_finalized (drop (e - min (length (tail_rows tail_w)) e) (take e (wn_rows cap))))"
    using S by (simp add: Let_def rows policy drop_take)
  obtain m where m: "m \<in> set (pf_tail_to_capture proofs)" "tail_proof_valid m tail_w cap"
    using S by (auto simp: list_ex_iff)
  obtain a1 a2 acc a3 seen a4 where
    a1: "a1 = (let a0 = new_assembly (wn_pane pipe) (stitch_segment sha opts proofs cap) (wn_packet cap) (pf_episode_id proofs) (last_durable tail_w)
           in if wn_rows tail_w = [] \<and> ?kind \<noteq> PipeBirth then leading_gap a0 else a0)"
    and cl: "capture_loop (is_seam_ok (Some tail_o) \<or> wn_rows tail_w = [] \<and> ?kind \<noteq> PipeBirth) (seam_gap_reason tail_o)
       (seam_end (Some tail_o)) 0 (wn_rows cap) a1 {} = (a2, acc)"
    and pl: "pipe_loop (pipe_context_of cap ?kind tail_o ?o (is_seam_ok (Some tail_o) \<or> wn_rows tail_w = [] \<and> ?kind \<noteq> PipeBirth) acc)
       0 (wn_rows pipe) (a2, {}) = Inr (a3, seen)"
    and a4: "a4 = (case seam_failure tail_o ?o of None \<Rightarrow> a3 | Some f \<Rightarrow> ensure_positioned (seam_gap_reason f) a3)"
    and d: "d = finish_assembly sha a4"
    using dec by (rule assemble_rows_cases)
  have "sources a1 = []" by (simp add: a1 Let_def new_assembly_def leading_gap_def sources_def)
  then have "sources a2 = map tw_origin (filter tw_finalized (drop e (wn_rows cap)))"
    using capture_loop_sources[of "is_seam_ok (Some tail_o) \<or> wn_rows tail_w = [] \<and> ?kind \<noteq> PipeBirth" "seam_gap_reason tail_o"
        "seam_end (Some tail_o)" 0 "wn_rows cap" a1 "{}"] cl by (simp add: e)
  moreover obtain rest where "sources a3 = sources a2 @ rest" "subseq rest (map tw_origin (wn_rows pipe))"
    using pipe_loop_sources[OF pl] by blast
  moreover have "map ar_source (de_accepted d) = sources a3"
    using \<open>seam_failure tail_o ?o = None\<close> by (simp add: d a4 finish_assembly_def Let_def sources_def close_run_def split: option.split prod.split)
  ultimately show ?thesis using S content m by (auto simp: rows)
qed

section \<open>A matched stitch\<close>

text \<open>Eight rows of the durable tail are seen again in a capture of nine; the pipe is still empty.\<close>

definition seam_row :: "row_origin \<Rightarrow> string \<Rightarrow> stitch_row" where
  "seam_row orig s = (example_row_of s)\<lparr>tw_origin := orig\<rparr>"

definition seam_range :: raw_range where
  "seam_range = \<lparr>rw_epoch = example_epoch, rw_start = 0, rw_end = 0\<rparr>"

definition seam_file :: evidence_file where
  "seam_file = \<lparr>ev_path = js ''/t'', ev_bytes = 1, ev_sha256 = example_hash\<rparr>"

definition seam_boundary :: certified_boundary where
  "seam_boundary = \<lparr>cb_pane = example_pane, cb_epoch = example_epoch, cb_geometry = \<lparr>geo_columns = 4, geo_rows = 2\<rparr>,
     cb_binary_sha256 = example_hash, cb_hook_config_sha256 = example_hash, cb_transcript = seam_file, cb_event_coverage = seam_file,
     cb_raw_start = \<lparr>rp_epoch = example_epoch, rp_byte_offset = 0\<rparr>, cb_certificate_id = js ''c''\<rparr>"

definition seam_packet :: capture_packet where
  "seam_packet = \<lparr>kp_version = 1, kp_snapshot_id = js ''s'', kp_episode_id = js ''e'', kp_capture_count = 1, kp_complete = True,
     kp_pane = example_pane, kp_geometry = \<lparr>geo_columns = 4, geo_rows = 2\<rparr>, kp_active_buffer = PacketNormal,
     kp_main_history = HistoryAvailable, kp_raw_range = seam_range, kp_boundary = Proven (CertifiedSameTurn seam_boundary),
     kp_started_at = 0, kp_clock_epoch = js ''k''\<rparr>"

definition seam_tail :: stitch_window where
  "seam_tail = \<lparr>wn_pane = example_pane,
     wn_rows = map (\<lambda>(i, c). seam_row (DurableOrigin \<lparr>sr_pane = example_pane, sr_segment_id = js ''g'', sr_row_ordinal = int i\<rparr>) [c])
       (enumerate 0 ''abcdefgh'')\<rparr>"

definition seam_capture :: capture_window where
  "seam_capture = \<lparr>wn_pane = example_pane,
     wn_rows = map (\<lambda>(i, c). seam_row (CaptureOrigin (js ''s'') (int i)) [c]) (enumerate 0 ''abcdefghi''), wn_packet = seam_packet\<rparr>"

definition seam_pipe :: pipe_window where
  "seam_pipe = \<lparr>wn_pane = example_pane, wn_rows = [], wn_raw_range = seam_range\<rparr>"

definition seam_mapping :: mapping_proof where
  "seam_mapping = \<lparr>mp_range = seam_range, mp_checkpoint_id = js ''c'', mp_mapping = seam_file,
     mp_coverage = [RowsPart \<lparr>rr_pane = example_pane, rr_segment_id = js ''g'', rr_start = 0, rr_end = 8\<rparr> example_hash]\<rparr>"

definition seam_proofs :: stitch_proofs where
  "seam_proofs = \<lparr>pf_policy = \<lparr>po_version = 1, po_min_anchor_rows = 8, po_min_distinct_keys = 4, po_min_nonblank_rows = 2,
       po_max_candidates = 4096, po_deadline_ms = 100\<rparr>, pf_episode_id = js ''e'',
     pf_tail_to_capture = [RecordedMapping seam_mapping], pf_capture_to_pipe = [IndependentBoundary (CertifiedSameTurn seam_boundary)]\<rparr>"

definition seam_options :: stitch_options where
  "seam_options = \<lparr>op_hash = (\<lambda>_. []), op_clock = (\<lambda>_. 0), op_segment_id_for = Some (\<lambda>_ _. js ''n'')\<rparr>"

lemma seam_interned:
  "\<exists>it1 it2. make_side (\<lambda>_. []) (wn_rows seam_tail) empty_interner = (\<lparr>sd_rows = wn_rows seam_tail, sd_ids = [0,1,2,3,4,5,6,7]\<rparr>, it1) \<and>
    make_side (\<lambda>_. []) (wn_rows seam_capture) it1 = (\<lparr>sd_rows = wn_rows seam_capture, sd_ids = [0,1,2,3,4,5,6,7,8]\<rparr>, it2)"
  by (simp add: make_side_def seam_tail_def seam_capture_def intern_id_def intern_ordinal_def Let_def empty_interner_def index_of_def
      row_canonical_content same_content_def seam_row_def example_row_of_def enumerate_Suc_eq)

lemma seam_search:
  "stitch_seam (\<lambda>_. 0) 100 (pf_policy seam_proofs) \<lparr>sd_rows = wn_rows seam_tail, sd_ids = [0,1,2,3,4,5,6,7]\<rparr>
     \<lparr>sd_rows = wn_rows seam_capture, sd_ids = [0,1,2,3,4,5,6,7,8]\<rparr> True 1 = (SeamOk 8, 2)"
  by code_simp

lemma seam_checks: "list_all fst (stitch_checks seam_tail seam_capture seam_pipe seam_proofs)"
  by code_simp

lemma seam_kind: "pipe_seam_of seam_proofs seam_capture seam_pipe = PipeCertified"
  by code_simp

lemma seam_proof_ok: "tail_proof_valid (RecordedMapping seam_mapping) seam_tail seam_capture"
  by code_simp

lemma seam_matched: "\<exists>d. stitch_run sha seam_options seam_tail seam_capture seam_pipe seam_proofs = Matched d seam_proofs"
proof -
  obtain it1 it2 where sides:
    "make_side (\<lambda>_. []) (wn_rows seam_tail) empty_interner = (\<lparr>sd_rows = wn_rows seam_tail, sd_ids = [0,1,2,3,4,5,6,7]\<rparr>, it1)"
    "make_side (\<lambda>_. []) (wn_rows seam_capture) it1 = (\<lparr>sd_rows = wn_rows seam_capture, sd_ids = [0,1,2,3,4,5,6,7,8]\<rparr>, it2)"
    using seam_interned by blast
  have recent: "tail_rows seam_tail = wn_rows seam_tail" by (simp add: tail_rows_def tail_search_rows_def seam_tail_def)
  have proven: "list_ex (\<lambda>m. tail_proof_valid m seam_tail seam_capture) (pf_tail_to_capture seam_proofs)"
    using seam_proof_ok by (simp add: seam_proofs_def)
  have opts: "op_hash seam_options = (\<lambda>_. [])" "op_clock seam_options = (\<lambda>_. 0)" "po_deadline_ms (pf_policy seam_proofs) = 100"
    by (simp_all add: seam_options_def seam_proofs_def)
  have guards: "0 < length (wn_rows seam_tail)" "kp_active_buffer seam_packet = PacketNormal" "kp_main_history seam_packet = HistoryAvailable"
    "geo_columns (tw_geometry (List.last (wn_rows seam_tail))) = geo_columns (kp_geometry seam_packet)" "wn_packet seam_capture = seam_packet"
    by code_simp+
  have ts: "tail_seam seam_options 100 seam_tail seam_capture seam_pipe seam_proofs PipeCertified empty_interner 1 = Inr (SeamOk 8, it2, 2)"
    using guards sides seam_search proven by (simp add: tail_seam_def Let_def recent opts)
  have first: "first_failure (stitch_checks seam_tail seam_capture seam_pipe seam_proofs) = None"
    unfolding first_failure_None by (rule seam_checks)
  have run: "stitch_run sha seam_options seam_tail seam_capture seam_pipe seam_proofs =
      assemble_rows sha seam_options seam_tail seam_capture seam_pipe seam_proofs PipeCertified (SeamOk 8) None"
    using guards(1) ts
    by (simp add: stitch_run_def first seam_kind opts Let_def pipe_outcome_def del: first_failure_None)
  have loop: "capture_loop True reason 8 0 (wn_rows seam_capture) a {} = (accept_row (CaptureOrigin (js ''s'') 8) a, {8})" for reason a
    by (simp add: seam_capture_def seam_row_def example_row_of_def enumerate_Suc_eq)
  have "wn_rows seam_pipe = []" "wn_rows seam_tail \<noteq> []" using guards(1) by (simp_all add: seam_pipe_def)
  then show ?thesis
    by (simp add: run assemble_rows_def Let_def loop seam_failure_def stitch_status_def finish_assembly_def accept_row_def
        new_assembly_def close_run_def)
qed

lemma stitch_matched_is_proven_witness:
  "\<exists>m e. m \<in> set (pf_tail_to_capture seam_proofs) \<and> tail_proof_valid m seam_tail seam_capture \<and>
     {x. rows_aligned (tail_rows seam_tail) (wn_rows seam_capture) x} = {e}"
proof -
  obtain d where "stitch_run (\<lambda>_. []) seam_options seam_tail seam_capture seam_pipe seam_proofs = Matched d seam_proofs"
    using seam_matched by blast
  moreover have "wn_rows seam_tail \<noteq> []" by (simp add: seam_tail_def)
  ultimately show ?thesis using stitch_matched_is_proven by blast
qed

end
