(* ===== verification/History_Calibrator.thy ===== *)
theory History_Calibrator
  imports Row_Matcher_Sound
begin

text \<open>
  The per-pane calibrator, \<open>server/src/history-calibrator.ts\<close>: a state machine that asks tmux for captures,
  matches them against the parser's rows, submits them to the store and publishes what the store committed.
  The ports are the calls and answers of the steps: an effect is a call of a port, an answer (a capture, a
  snapshot, a commit, a clock reading, an exception) is an argument of the step that resumes on it. The two
  \<open>await\<close>s of \<open>runDue\<close> are the phases of a run, so the other methods may be called in between. Times are
  rationals with the two infinities the source uses.
\<close>

section \<open>Instants\<close>

datatype instant = Past | At rat | Never

fun instant_le :: "instant \<Rightarrow> instant \<Rightarrow> bool" where
  "instant_le Past _ = True"
| "instant_le _ Never = True"
| "instant_le (At a) (At b) = (a \<le> b)"
| "instant_le _ _ = False"

instantiation instant :: linorder
begin

definition less_eq_instant :: "instant \<Rightarrow> instant \<Rightarrow> bool" where
  "less_eq_instant = instant_le"

definition less_instant :: "instant \<Rightarrow> instant \<Rightarrow> bool" where
  "less_instant a b = (instant_le a b \<and> \<not> instant_le b a)"

instance
proof
  fix x y z :: instant
  show "x < y \<longleftrightarrow> x \<le> y \<and> \<not> y \<le> x" by (simp add: less_eq_instant_def less_instant_def)
  show "x \<le> x" by (cases x) (auto simp: less_eq_instant_def)
  show "x \<le> y \<Longrightarrow> y \<le> z \<Longrightarrow> x \<le> z" by (cases x; cases y; cases z) (auto simp: less_eq_instant_def)
  show "x \<le> y \<Longrightarrow> y \<le> x \<Longrightarrow> x = y" by (cases x; cases y) (auto simp: less_eq_instant_def)
  show "x \<le> y \<or> y \<le> x" by (cases x; cases y) (auto simp: less_eq_instant_def)
qed

end

lemma instant_le_simps [simp]:
  "Past \<le> t" "t \<le> Never" "At a \<le> At b \<longleftrightarrow> a \<le> b" "\<not> At a \<le> Past" "\<not> Never \<le> At a" "\<not> Never \<le> Past"
  by (simp_all add: less_eq_instant_def) (cases t; simp)+

lemma instant_less_simps [simp]:
  "At a < At b \<longleftrightarrow> a < b" "Past < At a" "At a < Never" "Past < Never" "\<not> t < Past" "\<not> Never < t"
  by (simp_all add: not_le[symmetric])

text \<open>\<open>t + d\<close> and \<open>now - t\<close> on numbers that may be infinite.\<close>

fun after :: "instant \<Rightarrow> rat \<Rightarrow> instant" where
  "after (At t) d = At (t + d)"
| "after Past d = Past"
| "after Never d = Never"

fun since :: "rat \<Rightarrow> instant \<Rightarrow> instant" where
  "since now (At t) = At (now - t)"
| "since now Past = Never"
| "since now Never = Past"

section \<open>Frames, captures and snapshots\<close>

record calib_pane =
  cpk_server :: jstr
  cpk_pane :: jstr
  cpk_birth :: int

record frame_cursor =
  fcu_x :: int
  fcu_y :: int
  fcu_visible :: bool

datatype buffer_kind = Normal | Alternate

record cal_frame =
  fr_cells :: "hist_cell list list"
  fr_cursor :: "frame_cursor option"
  fr_kind :: buffer_kind
  fr_geometry :: int
  fr_receive_seq :: int

record capture_meta =
  mt_history_epoch :: jnum
  mt_source_epoch :: int
  mt_geometry :: int
  mt_cols :: nat
  mt_rows :: nat
  mt_kind :: buffer_kind
  mt_cursor :: "frame_cursor option"

record cal_capture =
  cap_pane :: calib_pane
  cap_id :: jstr
  cap_before :: capture_meta
  cap_after :: capture_meta
  cap_frame :: cal_frame
  cap_history :: "captured_row list"
  cap_complete :: bool
  cap_uncertain_history :: "nat list option"
  cap_uncertain_screen :: "nat list option"

datatype capture_evidence =
    Quiescent int int int int "nat list"
  | Unfenced string

text \<open>\<open>sn_recent_last\<close>: \<open>None\<close> when the port does not give the field, \<open>Some None\<close> when there is no row.\<close>

record cal_snapshot =
  sn_revision :: int
  sn_source_epoch :: int
  sn_geometry :: int
  sn_recent :: "history_row list"
  sn_parser_frame :: cal_frame
  sn_recent_last :: "int option option"

record cal_commit =
  cc_revision :: int
  cc_durable_revision :: int
  cc_next_line :: int

record style_claim =
  sc_mask :: jnum
  sc_history_rows :: "nat list"
  sc_screen_rows :: "nat list"

record cal_input =
  ci_capture :: cal_capture
  ci_checks :: "row_check list"
  ci_content :: "row_check list"
  ci_repairs :: "(row_check \<times> captured_row) list"
  ci_revision :: int
  ci_evidence :: capture_evidence
  ci_style :: "style_claim option"

text \<open>A number under the source's bitwise operators: its low 32 bits.\<close>

definition style_word :: "jnum \<Rightarrow> 32 word" where
  "style_word n = of_int (num_int n)"

definition equal_frames :: "cal_frame \<Rightarrow> cal_frame \<Rightarrow> 32 word \<Rightarrow> bool" where
  "equal_frames a b keep \<longleftrightarrow>
     fr_kind a = fr_kind b \<and> fr_geometry a = fr_geometry b \<and> fr_cursor a = fr_cursor b \<and>
     list_all2 (\<lambda>r q. list_all2 (\<lambda>c d. equal_cells c d keep) r q) (fr_cells a) (fr_cells b)"

definition uncertified_rows :: "hist_cell list list \<Rightarrow> 32 word \<Rightarrow> nat list" where
  "uncertified_rows rows keep =
     filter (\<lambda>y. list_ex (\<lambda>c. and (hc_style c) (not keep) \<noteq> 0) (rows ! y)) [0..<length rows]"

definition tail_gap_slack :: nat where
  "tail_gap_slack = 256"

definition fence_line :: "cal_snapshot \<Rightarrow> int option" where
  "fence_line before =
     (case sn_recent_last before of
        Some l \<Rightarrow> l
      | None \<Rightarrow> (case sn_recent before of [] \<Rightarrow> None | rows \<Rightarrow> Some (hr_line_id (last rows))))"

definition fenced_history :: "history_row list \<Rightarrow> cal_snapshot \<Rightarrow> history_row list" where
  "fenced_history recent before =
     (case fence_line before of
        None \<Rightarrow> []
      | Some l \<Rightarrow> (case last_line recent l of None \<Rightarrow> [] | Some i \<Rightarrow> take (Suc i) recent))"

section \<open>The state of a calibrator\<close>

definition event_ms :: rat where "event_ms = 50"
definition active_ms :: rat where "active_ms = 200"
definition idle_ms :: rat where "idle_ms = 1000"
definition unviewed_ms :: rat where "unviewed_ms = 5000"

record cal_options =
  co_history_limit :: "jnum option"
  co_incremental :: bool
  co_viewers :: "jnum option"
  co_mask :: "jnum option"

datatype cal_mode = PipeMode | CaptureMode

record run_context =
  rc_now :: rat
  rc_anchor :: rat
  rc_generation :: nat
  rc_history_due :: bool
  rc_scrolls :: int

record pending_commit =
  pc_capture :: cal_capture
  pc_matched :: bool
  pc_recent :: "history_row list"
  pc_certified :: "captured_row list"
  pc_match :: row_match
  pc_evidence :: capture_evidence
  pc_receive_seq :: int

datatype run_phase =
    Capturing cal_snapshot
  | Committing pending_commit

record calibrator =
  ca_pane :: calib_pane
  ca_options :: cal_options
  ca_matcher :: matcher
  ca_mode :: cal_mode
  ca_deadline :: instant
  ca_last_capture :: instant
  ca_last_history :: instant
  ca_output_at :: instant
  ca_force_full :: bool
  ca_generation :: nat
  ca_scrolls :: int
  ca_in_flight :: bool
  ca_latch :: "rat option"
  ca_degraded :: bool
  ca_next_pipe :: instant
  ca_pending_pipe :: "nat option"
  ca_viewers :: "int option"
  ca_closed :: bool
  ca_abort :: bool
  ca_run :: "(run_context \<times> run_phase) option"

datatype cal_effect =
    Schedule instant
  | Capture nat
  | AbortCapture
  | Calibrate cal_input
  | Publish cal_commit cal_frame
  | PublishPipe nat
  | CaptureFault rat
  | LatchFault rat
  | Raise string

definition due_at :: "calibrator \<Rightarrow> instant" where
  "due_at s = (if ca_closed s then Never else min (ca_deadline s) (ca_next_pipe s))"

definition accepts_pipe_frame :: "calibrator \<Rightarrow> bool" where
  "accepts_pipe_frame s \<longleftrightarrow> ca_mode s = PipeMode"

definition viewed :: "calibrator \<Rightarrow> bool" where
  "viewed s \<longleftrightarrow> (case ca_viewers s of None \<Rightarrow> True | Some n \<Rightarrow> 0 < n)"

definition request :: "instant \<Rightarrow> calibrator \<Rightarrow> calibrator \<times> cal_effect list" where
  "request t_end s =
     (if ca_closed s then (s, [])
      else if t_end < ca_deadline s then
        (let s' = s\<lparr>ca_deadline := t_end\<rparr> in (s', [Schedule (due_at s')]))
      else (s, []))"

definition enter_capture :: "rat \<Rightarrow> calibrator \<Rightarrow> calibrator" where
  "enter_capture now s =
     s\<lparr>ca_mode := CaptureMode, ca_latch := (case ca_latch s of None \<Rightarrow> Some now | Some t \<Rightarrow> Some t),
       ca_pending_pipe := None, ca_next_pipe := Never\<rparr>"

definition history_limit_ok :: "jnum \<Rightarrow> bool" where
  "history_limit_ok n \<longleftrightarrow> is_integer_num n \<and> 0 \<le> num_int n \<and> num_int n \<le> 4500"

text \<open>An option is checked only when it is given.\<close>

definition if_given :: "('a \<Rightarrow> bool) \<Rightarrow> 'a option \<Rightarrow> bool" where
  "if_given ok v = (case v of None \<Rightarrow> True | Some x \<Rightarrow> ok x)"

definition cal_new :: "calib_pane \<Rightarrow> cal_options \<Rightarrow> rat \<Rightarrow> string + calibrator \<times> cal_effect list" where
  "cal_new pane opts now =
     (if \<not> if_given history_limit_ok (co_history_limit opts) then Inl ''invalid history limit''
      else if \<not> if_given is_safe_integer (co_mask opts) then Inl ''invalid style mask''
      else if \<not> if_given (safe_count 0) (co_viewers opts) then Inl ''invalid viewer count''
      else Inr (request (At now)
        \<lparr>ca_pane = pane, ca_options = opts, ca_matcher = new_matcher, ca_mode = PipeMode, ca_deadline = Never,
         ca_last_capture = Past, ca_last_history = Past, ca_output_at = Past, ca_force_full = True,
         ca_generation = 0, ca_scrolls = 0, ca_in_flight = False, ca_latch = None, ca_degraded = False,
         ca_next_pipe = Never, ca_pending_pipe = None, ca_viewers = map_option num_int (co_viewers opts),
         ca_closed = False, ca_abort = False, ca_run = None\<rparr>))"

section \<open>The synchronous operations\<close>

definition set_viewers :: "jnum \<Rightarrow> rat \<Rightarrow> calibrator \<Rightarrow> calibrator \<times> cal_effect list" where
  "set_viewers count now s =
     (if \<not> safe_count 0 count then (s, [Raise ''invalid viewer count''])
      else if ca_closed s then (s, [])
      else
        (let s1 = s\<lparr>ca_viewers := Some (num_int count)\<rparr>
         in if \<not> viewed s \<and> viewed s1
            then request (max (At now) (after (ca_last_capture s1) event_ms)) (s1\<lparr>ca_last_history := Past\<rparr>)
            else (s1, [])))"

definition cal_close :: "calibrator \<Rightarrow> calibrator \<times> cal_effect list" where
  "cal_close s =
     (if ca_closed s then (s, [])
      else (s\<lparr>ca_closed := True, ca_deadline := Never, ca_next_pipe := Never, ca_pending_pipe := None\<rparr>,
            if ca_abort s then [AbortCapture] else []))"

definition cal_output :: "nat option \<Rightarrow> rat \<Rightarrow> calibrator \<Rightarrow> calibrator \<times> cal_effect list" where
  "cal_output publish now s =
     (if ca_closed s then (s, [])
      else
        (let s1 = s\<lparr>ca_output_at := At now\<rparr>;
             (s2, e2) = (case publish of
                 Some p \<Rightarrow>
                   if ca_mode s1 = PipeMode then
                     (let s' = s1\<lparr>ca_pending_pipe := Some p, ca_next_pipe := min (ca_next_pipe s1) (At (now + 16))\<rparr>
                      in (s', [Schedule (due_at s')]))
                   else (s1, [])
               | None \<Rightarrow> (s1, []));
             (s3, e3) = request (max (At now)
               (after (ca_last_capture s2) (if viewed s2 then active_ms else unviewed_ms))) s2
         in (s3, e2 @ e3)))"

definition cal_scroll :: "jnum \<Rightarrow> rat \<Rightarrow> calibrator \<Rightarrow> calibrator \<times> cal_effect list" where
  "cal_scroll count now s =
     (if \<not> safe_count 0 count then (s, [Raise ''invalid scroll count''])
      else cal_output None now (s\<lparr>ca_scrolls := min 4500 (ca_scrolls s + num_int count)\<rparr>))"

definition cal_event :: "rat \<Rightarrow> rat \<Rightarrow> calibrator \<Rightarrow> calibrator \<times> cal_effect list" where
  "cal_event now_latch now s =
     (if ca_closed s then (s, [])
      else
        (let s1 = enter_capture now_latch
               (s\<lparr>ca_generation := Suc (ca_generation s), ca_force_full := True,
                  ca_matcher := matcher_reset (ca_matcher s)\<rparr>)
         in request (max (At now) (after (ca_last_capture s1) event_ms)) s1))"

section \<open>A run: start, capture, commit, finish\<close>

definition latch_stuck :: "rat \<Rightarrow> calibrator \<Rightarrow> bool" where
  "latch_stuck t_end s =
     (case ca_latch s of None \<Rightarrow> False | Some t \<Rightarrow> 1000 < t_end - t \<and> \<not> ca_degraded s)"

definition run_interval :: "bool \<Rightarrow> bool \<Rightarrow> rat \<Rightarrow> calibrator \<Rightarrow> rat" where
  "run_interval successful diverged t_end s =
     (if \<not> successful \<or> ca_mode s = CaptureMode \<or> (diverged \<and> viewed s) then event_ms
      else if \<not> viewed s then unviewed_ms
      else if since t_end (ca_output_at s) \<le> At active_ms then active_ms else idle_ms)"

definition finish_run :: "run_context \<Rightarrow> bool \<Rightarrow> bool \<Rightarrow> rat \<Rightarrow> calibrator \<Rightarrow> calibrator \<times> cal_effect list" where
  "finish_run c successful diverged t_end s =
     (let s1 = s\<lparr>ca_in_flight := False, ca_last_capture := At (rc_anchor c), ca_run := None\<rparr> in
      if ca_closed s1 then (s1, [])
      else
        (let stuck = latch_stuck t_end s1;
             s2 = s1\<lparr>ca_degraded := ca_degraded s1 \<or> stuck\<rparr>;
             s3 = s2\<lparr>ca_deadline := max (At (rc_now c + 50))
                       (min (ca_deadline s2) (At (max t_end (rc_anchor c + run_interval successful diverged t_end s2))))\<rparr>
         in (s3, (if stuck then [LatchFault t_end] else []) @ [Schedule (due_at s3)])))"

definition run_failed :: "run_context \<Rightarrow> rat \<Rightarrow> rat \<Rightarrow> calibrator \<Rightarrow> calibrator \<times> cal_effect list" where
  "run_failed c now_fault t_end s =
     (let s1 = s\<lparr>ca_mode := PipeMode, ca_latch := None\<rparr>;
          e1 = (if ca_closed s1 then [] else [CaptureFault now_fault]);
          (s2, e2) = finish_run c False False t_end s1
      in (s2, e1 @ e2))"

definition history_limit :: "cal_options \<Rightarrow> int" where
  "history_limit opts = (case co_history_limit opts of None \<Rightarrow> 4500 | Some n \<Rightarrow> num_int n)"

definition tail_limit :: "run_context \<Rightarrow> calibrator \<Rightarrow> int" where
  "tail_limit c s =
     (if \<not> rc_history_due c then 0
      else if ca_force_full s \<or> \<not> co_incremental (ca_options s) then history_limit (ca_options s)
      else min (history_limit (ca_options s)) (rc_scrolls c + 128))"

definition run_anchor :: "instant \<Rightarrow> rat \<Rightarrow> rat" where
  "run_anchor planned now = (case planned of At p \<Rightarrow> if now - p < 200 then p else now | _ \<Rightarrow> now)"

definition start_capture ::
  "rat \<Rightarrow> string + cal_snapshot \<Rightarrow> rat \<Rightarrow> rat \<Rightarrow> calibrator \<Rightarrow> calibrator \<times> cal_effect list" where
  "start_capture now fence now_fault t_end s =
     (let anchor = run_anchor (ca_deadline s) now;
          s1 = s\<lparr>ca_in_flight := True, ca_deadline := Never, ca_last_capture := At anchor\<rparr>;
          c = \<lparr>rc_now = now, rc_anchor = anchor, rc_generation = ca_generation s1,
               rc_history_due = ca_force_full s1 \<or> At 200 \<le> since anchor (ca_last_history s1),
               rc_scrolls = ca_scrolls s1\<rparr>
      in case fence of
           Inl _ \<Rightarrow> run_failed c now_fault t_end s1
         | Inr snap \<Rightarrow> (s1\<lparr>ca_abort := True, ca_run := Some (c, Capturing snap)\<rparr>, [Capture (nat (tail_limit c s1))]))"

definition release_latch :: "rat \<Rightarrow> calibrator \<Rightarrow> calibrator \<times> cal_effect list" where
  "release_latch now s =
     (case ca_latch s of
        Some t \<Rightarrow>
          if 1000 \<le> now - t
          then (s\<lparr>ca_degraded := True, ca_mode := PipeMode, ca_latch := None\<rparr>, if ca_degraded s then [] else [LatchFault now])
          else (s, [])
      | None \<Rightarrow> (s, []))"

definition publish_due :: "rat \<Rightarrow> calibrator \<Rightarrow> calibrator \<times> cal_effect list" where
  "publish_due now s =
     (if ca_next_pipe s \<le> At now
      then (s\<lparr>ca_next_pipe := Never, ca_pending_pipe := None\<rparr>,
            if ca_mode s = PipeMode then (case ca_pending_pipe s of None \<Rightarrow> [] | Some p \<Rightarrow> [PublishPipe p]) else [])
      else (s, []))"

text \<open>\<open>publish_ok\<close>: the pipe publisher, when it is called, returns; otherwise its exception leaves \<open>runDue\<close>.\<close>

definition run_due ::
  "rat \<Rightarrow> bool \<Rightarrow> string + cal_snapshot \<Rightarrow> rat \<Rightarrow> rat \<Rightarrow> calibrator \<Rightarrow> calibrator \<times> cal_effect list" where
  "run_due now publish_ok fence now_fault t_end s =
     (if ca_closed s then (s, [])
      else
        (let (s1, e1) = release_latch now s; (s2, e2) = publish_due now s1 in
         if e2 \<noteq> [] \<and> \<not> publish_ok then (s2, e1 @ e2 @ [Raise ''publish''])
         else if ca_in_flight s2 then (s2, e1 @ e2)
         else if At now < ca_deadline s2 then (s2, e1 @ e2 @ [Schedule (due_at s2)])
         else (let (s3, e3) = start_capture now fence now_fault t_end s2 in (s3, e1 @ e2 @ e3))))"

definition capture_stable :: "calibrator \<Rightarrow> run_context \<Rightarrow> cal_snapshot \<Rightarrow> cal_snapshot \<Rightarrow> cal_capture \<Rightarrow> bool" where
  "capture_stable s c fence read cap \<longleftrightarrow>
     (let m = cap_after cap; f = cap_frame cap in
      cap_pane cap = ca_pane s \<and> cap_before cap = m \<and>
      safe_count 0 (mt_history_epoch m) \<and> mt_history_epoch m = int_num (sn_source_epoch fence) \<and>
      mt_source_epoch m = sn_source_epoch read \<and> mt_geometry m = sn_geometry read \<and>
      fr_geometry f = mt_geometry m \<and> fr_kind f = mt_kind m \<and> fr_cursor f = mt_cursor m \<and> fr_cursor f \<noteq> None \<and>
      length (fr_cells f) = mt_rows m \<and> list_all (\<lambda>row. length row = mt_cols m) (fr_cells f) \<and>
      sn_source_epoch fence = sn_source_epoch read \<and> sn_geometry fence = sn_geometry read \<and>
      rc_generation c = ca_generation s)"

definition certified_history :: "calibrator \<Rightarrow> cal_capture \<Rightarrow> captured_row list" where
  "certified_history s cap =
     (case co_mask (ca_options s) of
        None \<Rightarrow> cap_history cap | Some m \<Rightarrow> certified_rows (cap_history cap) (style_word m))"

definition run_scope :: "cal_snapshot \<Rightarrow> history_row list \<Rightarrow> cal_capture \<Rightarrow> match_scope" where
  "run_scope read recent cap =
     \<lparr>ms_epoch = sn_source_epoch read, ms_geometry = sn_geometry read, ms_complete = cap_complete cap,
      ms_max_tail_gap = Some (length (sn_recent read) - length recent + tail_gap_slack),
      ms_uncertain = (case cap_uncertain_history cap of None \<Rightarrow> {} | Some ys \<Rightarrow> set ys)\<rparr>"

definition evidence_of :: "cal_snapshot \<Rightarrow> cal_snapshot \<Rightarrow> cal_capture \<Rightarrow> capture_evidence" where
  "evidence_of fence read cap =
     (let before = fr_receive_seq (sn_parser_frame fence); now = fr_receive_seq (sn_parser_frame read) in
      if before \<noteq> now then Unfenced ''received-during-capture''
      else Quiescent (mt_source_epoch (cap_after cap)) (mt_geometry (cap_after cap)) before now
             (case cap_uncertain_screen cap of None \<Rightarrow> [] | Some ys \<Rightarrow> ys))"

definition style_claim_of :: "calibrator \<Rightarrow> cal_capture \<Rightarrow> style_claim option" where
  "style_claim_of s cap =
     map_option (\<lambda>m. \<lparr>sc_mask = m, sc_history_rows = uncertified_rows (map cr_cells (cap_history cap)) (style_word m),
                       sc_screen_rows = uncertified_rows (fr_cells (cap_frame cap)) (style_word m)\<rparr>)
       (co_mask (ca_options s))"

text \<open>After the capture: \<open>captured\<close> is how the race ended, \<open>read\<close> the snapshot taken then.\<close>

definition capture_done ::
  "memo_choice \<Rightarrow> string + cal_capture \<Rightarrow> string + cal_snapshot \<Rightarrow> rat \<Rightarrow> rat \<Rightarrow>
   run_context \<Rightarrow> cal_snapshot \<Rightarrow> calibrator \<Rightarrow> calibrator \<times> cal_effect list" where
  "capture_done mc captured read now_fault t_end c fence s0 =
     (let s = s0\<lparr>ca_abort := False\<rparr> in
      case captured of
        Inl _ \<Rightarrow> run_failed c now_fault t_end s
      | Inr cap \<Rightarrow>
         (case read of
            Inl _ \<Rightarrow> run_failed c now_fault t_end s
          | Inr snap \<Rightarrow>
              if \<not> capture_stable s c fence snap cap then
                finish_run c False False t_end
                  (s\<lparr>ca_matcher := matcher_reset (ca_matcher s), ca_force_full := True, ca_mode := PipeMode, ca_latch := None\<rparr>)
              else
                (let matched = rc_history_due c \<and> mt_kind (cap_after cap) = Normal;
                     recent = (if matched then fenced_history (sn_recent snap) fence else []);
                     certified = certified_history s cap;
                     (result, m) = (if matched then matcher_match mc (ca_matcher s) recent certified (run_scope snap recent cap)
                                    else (empty_match PartialTail, ca_matcher s));
                     s1 = s\<lparr>ca_matcher := m\<rparr>
                 in if ca_closed s1 then finish_run c False False t_end s1
                    else (s1\<lparr>ca_run := Some (c, Committing
                            \<lparr>pc_capture = cap, pc_matched = matched, pc_recent = recent, pc_certified = certified,
                             pc_match = result, pc_evidence = evidence_of fence snap cap,
                             pc_receive_seq = fr_receive_seq (sn_parser_frame snap)\<rparr>)\<rparr>,
                          [Calibrate \<lparr>ci_capture = cap, ci_checks = rm_checks result, ci_content = rm_content result,
                             ci_repairs = rm_repairs result, ci_revision = sn_revision snap,
                             ci_evidence = evidence_of fence snap cap, ci_style = style_claim_of s cap\<rparr>]))))"

definition is_quiescent :: "capture_evidence \<Rightarrow> bool" where
  "is_quiescent e = (case e of Quiescent _ _ _ _ _ \<Rightarrow> True | Unfenced _ \<Rightarrow> False)"

definition compare_mask :: "calibrator \<Rightarrow> 32 word" where
  "compare_mask s = (case co_mask (ca_options s) of None \<Rightarrow> -1 | Some m \<Rightarrow> style_word m)"

definition screen_diverged :: "calibrator \<Rightarrow> cal_snapshot \<Rightarrow> cal_frame \<Rightarrow> bool" where
  "screen_diverged s latest f \<longleftrightarrow>
     length (fr_cells (sn_parser_frame latest)) = length (fr_cells f) \<and>
     \<not> equal_frames (sn_parser_frame latest) f (compare_mask s)"

definition settle_success :: "run_context \<Rightarrow> pending_commit \<Rightarrow> calibrator \<Rightarrow> calibrator" where
  "settle_success c p s =
     (let s1 = s\<lparr>ca_force_full := rc_history_due c \<and> rm_reason (pc_match p) \<noteq> Matched \<and>
                                   rm_reason (pc_match p) \<noteq> Generation\<rparr>
      in if rc_history_due c
         then s1\<lparr>ca_last_history := At (rc_anchor c), ca_scrolls := max 0 (ca_scrolls s1 - rc_scrolls c)\<rparr> else s1)"

definition remember_match :: "pending_commit \<Rightarrow> calibrator \<Rightarrow> calibrator" where
  "remember_match p s =
     (if pc_matched p
      then s\<lparr>ca_matcher := matcher_remember (ca_matcher s) (pc_recent p) (pc_certified p) (pc_match p)\<rparr>
      else s)"

text \<open>The committed frame is shown only when no byte and no revision arrived since; \<open>publish_ok\<close> whether
  the publisher returns.\<close>

definition publish_commit ::
  "run_context \<Rightarrow> pending_commit \<Rightarrow> cal_commit \<Rightarrow> cal_snapshot \<Rightarrow> bool \<Rightarrow> rat \<Rightarrow> rat \<Rightarrow>
   calibrator \<Rightarrow> calibrator \<times> cal_effect list" where
  "publish_commit c p cm latest publish_ok now_fault t_end s =
     (let f = cap_frame (pc_capture p) in
      if is_quiescent (pc_evidence p) \<and> sn_revision latest = cc_revision cm \<and>
         fr_receive_seq (sn_parser_frame latest) = pc_receive_seq p
      then (let s1 = s\<lparr>ca_pending_pipe := None, ca_next_pipe := Never\<rparr>;
                (s2, es) = (if \<not> publish_ok then run_failed c now_fault t_end s1
                            else finish_run c True (screen_diverged s1 latest f) t_end (settle_success c p s1))
            in (s2, Publish cm f # es))
      else finish_run c True False t_end (settle_success c p s))"

text \<open>After the store answered: \<open>latest\<close> is the snapshot read then.\<close>

definition commit_done ::
  "string + cal_commit option \<Rightarrow> string + cal_snapshot \<Rightarrow> bool \<Rightarrow> rat \<Rightarrow> rat \<Rightarrow> rat \<Rightarrow>
   run_context \<Rightarrow> pending_commit \<Rightarrow> calibrator \<Rightarrow> calibrator \<times> cal_effect list" where
  "commit_done committed latest publish_ok now_latch now_fault t_end c p s =
     (case committed of
        Inl _ \<Rightarrow> run_failed c now_fault t_end s
      | Inr answer \<Rightarrow>
         if ca_closed s then finish_run c False False t_end s
         else (case answer of
             None \<Rightarrow> finish_run c False False t_end (s\<lparr>ca_force_full := True, ca_mode := PipeMode, ca_latch := None\<rparr>)
           | Some cm \<Rightarrow>
               if rc_generation c \<noteq> ca_generation s then finish_run c False False t_end (enter_capture now_latch s)
               else (case latest of
                   Inl _ \<Rightarrow> run_failed c now_fault t_end s
                 | Inr snap \<Rightarrow>
                     publish_commit c p cm snap publish_ok now_fault t_end
                       ((remember_match p s)\<lparr>ca_mode := PipeMode, ca_latch := None, ca_degraded := False\<rparr>))))"

section \<open>The calls of a calibrator\<close>

datatype cal_call =
    SetViewers jnum rat
  | Close
  | Output "nat option" rat
  | Scroll jnum rat
  | Event rat rat
  | RunDue rat bool "string + cal_snapshot" rat rat
  | CaptureDone memo_choice "string + cal_capture" "string + cal_snapshot" rat rat
  | CommitDone "string + cal_commit option" "string + cal_snapshot" bool rat rat rat

text \<open>A continuation runs only in its phase; otherwise nothing waits for it.\<close>

fun cal_step :: "cal_call \<Rightarrow> calibrator \<Rightarrow> calibrator \<times> cal_effect list" where
  "cal_step (SetViewers n now) s = set_viewers n now s"
| "cal_step Close s = cal_close s"
| "cal_step (Output p now) s = cal_output p now s"
| "cal_step (Scroll n now) s = cal_scroll n now s"
| "cal_step (Event t now) s = cal_event t now s"
| "cal_step (RunDue now ok fence t t_end) s = run_due now ok fence t t_end s"
| "cal_step (CaptureDone mc captured read t t_end) s =
     (case ca_run s of Some (c, Capturing fence) \<Rightarrow> capture_done mc captured read t t_end c fence s | _ \<Rightarrow> (s, []))"
| "cal_step (CommitDone committed latest ok l t t_end) s =
     (case ca_run s of Some (c, Committing p) \<Rightarrow> commit_done committed latest ok l t t_end c p s | _ \<Rightarrow> (s, []))"

type_synonym cal_trace = "(cal_call \<times> cal_effect list) list"

inductive calibrates :: "calibrator \<Rightarrow> cal_trace \<Rightarrow> bool" where
  born: "cal_new pane opts now = Inr (s, es) \<Longrightarrow> calibrates s []"
| call: "calibrates s tr \<Longrightarrow> cal_step c s = (s', es) \<Longrightarrow> calibrates s' (tr @ [(c, es)])"

end
