(* ===== verification/Calibrator_Sound.thy ===== *)
theory Calibrator_Sound
  imports History_Calibrator
begin

text \<open>
  Correctness of the calibrator over every history of calls: what may be submitted and published, how often
  captures start, that no pane is lost by the calibrator or by the host's timer
  (\<open>server/src/pipe-history-runtime.ts\<close>), with runs that show the hypotheses can hold.
\<close>

section \<open>What a step changes\<close>

definition is_event :: "cal_call \<Rightarrow> bool" where
  "is_event c = (case c of Event _ _ \<Rightarrow> True | _ \<Rightarrow> False)"

text \<open>Effects that only ask the host for a timer or report a condition.\<close>

definition quiet_effect :: "cal_effect \<Rightarrow> bool" where
  "quiet_effect e =
     (case e of Capture _ \<Rightarrow> False | Calibrate _ \<Rightarrow> False | Publish _ _ \<Rightarrow> False | PublishPipe _ \<Rightarrow> False | _ \<Rightarrow> True)"

lemma quiet_simps [simp]:
  "quiet_effect (Schedule t)" "quiet_effect AbortCapture" "quiet_effect (CaptureFault r)" "quiet_effect (LatchFault r)"
  "quiet_effect (Raise m)" "\<not> quiet_effect (Capture n)" "\<not> quiet_effect (Calibrate i)" "\<not> quiet_effect (Publish cm f)"
  "\<not> quiet_effect (PublishPipe q)"
  by (simp_all add: quiet_effect_def)

lemma quiet_none:
  assumes "list_all quiet_effect es"
  shows "Capture n \<notin> set es" "Calibrate i \<notin> set es" "Publish cm g \<notin> set es"
  using assms by (auto simp: list_all_iff)

lemma request_same [simp]:
  "ca_run (fst (request t s)) = ca_run s" "ca_in_flight (fst (request t s)) = ca_in_flight s"
  "ca_generation (fst (request t s)) = ca_generation s" "ca_closed (fst (request t s)) = ca_closed s"
  "ca_last_capture (fst (request t s)) = ca_last_capture s" "ca_pane (fst (request t s)) = ca_pane s"
  "ca_options (fst (request t s)) = ca_options s" "ca_abort (fst (request t s)) = ca_abort s"
  "list_all quiet_effect (snd (request t s))"
  by (simp_all add: request_def Let_def)

lemma request_deadline:
  "ca_deadline (fst (request t s)) = (if ca_closed s then ca_deadline s else min t (ca_deadline s))"
  by (auto simp: request_def Let_def min_def)

lemma enter_capture_same [simp]:
  "ca_run (enter_capture t s) = ca_run s" "ca_in_flight (enter_capture t s) = ca_in_flight s"
  "ca_generation (enter_capture t s) = ca_generation s" "ca_closed (enter_capture t s) = ca_closed s"
  "ca_last_capture (enter_capture t s) = ca_last_capture s" "ca_deadline (enter_capture t s) = ca_deadline s"
  "ca_options (enter_capture t s) = ca_options s" "ca_pane (enter_capture t s) = ca_pane s"
  by (simp_all add: enter_capture_def)

lemma finish_same [simp]:
  "ca_run (fst (finish_run c ok d t s)) = None" "\<not> ca_in_flight (fst (finish_run c ok d t s))"
  "ca_generation (fst (finish_run c ok d t s)) = ca_generation s" "ca_closed (fst (finish_run c ok d t s)) = ca_closed s"
  "ca_last_capture (fst (finish_run c ok d t s)) = At (rc_anchor c)" "ca_pane (fst (finish_run c ok d t s)) = ca_pane s"
  "ca_options (fst (finish_run c ok d t s)) = ca_options s"
  "list_all quiet_effect (snd (finish_run c ok d t s))" "ca_closed s \<Longrightarrow> snd (finish_run c ok d t s) = []"
  by (simp_all add: finish_run_def Let_def)

definition is_schedule :: "cal_effect \<Rightarrow> bool" where
  "is_schedule e = (case e of Schedule _ \<Rightarrow> True | _ \<Rightarrow> False)"

lemma is_schedule_simps [simp]: "is_schedule (Schedule d)" "\<not> is_schedule (Publish cm f)"
  by (simp_all add: is_schedule_def)

lemma finish_arms: "ca_closed s \<or> list_ex is_schedule (snd (finish_run c ok d t s))"
  by (simp add: finish_run_def Let_def)

lemma failed_arms: "ca_closed s \<or> list_ex is_schedule (snd (run_failed c f t s))"
  using finish_arms[of "s\<lparr>ca_mode := PipeMode, ca_latch := None\<rparr>" c False False t]
  by (auto simp: run_failed_def split_beta Let_def)

lemma max_min_not_Never: "max (At a) (min d (At b)) \<noteq> Never"
  by (auto simp: max_def min_def split: if_splits)

lemma finish_deadline:
  assumes "\<not> ca_closed s"
  shows "At (rc_now c + 50) \<le> ca_deadline (fst (finish_run c ok d t s)) \<and>
     ca_deadline (fst (finish_run c ok d t s)) \<noteq> Never"
proof -
  obtain b where "ca_deadline (fst (finish_run c ok d t s)) = max (At (rc_now c + 50)) (min (ca_deadline s) (At b))"
    using assms by (simp add: finish_run_def Let_def)
  then show ?thesis using max_min_not_Never by simp
qed

lemma run_failed_same [simp]:
  "ca_run (fst (run_failed c f t s)) = None" "\<not> ca_in_flight (fst (run_failed c f t s))"
  "ca_generation (fst (run_failed c f t s)) = ca_generation s" "ca_closed (fst (run_failed c f t s)) = ca_closed s"
  "ca_last_capture (fst (run_failed c f t s)) = At (rc_anchor c)" "ca_pane (fst (run_failed c f t s)) = ca_pane s"
  "ca_options (fst (run_failed c f t s)) = ca_options s"
  "list_all quiet_effect (snd (run_failed c f t s))" "ca_closed s \<Longrightarrow> snd (run_failed c f t s) = []"
  by (simp_all add: run_failed_def split_beta Let_def)

lemma run_failed_deadline:
  "\<not> ca_closed s \<Longrightarrow> At (rc_now c + 50) \<le> ca_deadline (fst (run_failed c f t s)) \<and>
     ca_deadline (fst (run_failed c f t s)) \<noteq> Never"
  using finish_deadline[of "s\<lparr>ca_mode := PipeMode, ca_latch := None\<rparr>"] by (simp add: run_failed_def split_beta Let_def)

text \<open>The methods the host may call at any time leave the run of the pane alone.\<close>

fun host_call :: "cal_call \<Rightarrow> bool" where
  "host_call (RunDue _ _ _ _ _) = False"
| "host_call (CaptureDone _ _ _ _ _) = False"
| "host_call (CommitDone _ _ _ _ _ _) = False"
| "host_call _ = True"

lemma host_call_same:
  assumes "host_call c"
  shows "ca_run (fst (cal_step c s)) = ca_run s" "ca_in_flight (fst (cal_step c s)) = ca_in_flight s"
    "ca_last_capture (fst (cal_step c s)) = ca_last_capture s"
    "ca_generation (fst (cal_step c s)) = ca_generation s + (if is_event c \<and> \<not> ca_closed s then 1 else 0)"
    "ca_closed (fst (cal_step c s)) = (ca_closed s \<or> c = Close)"
    "list_all quiet_effect (snd (cal_step c s))"
  using assms
  by (cases c; simp add: set_viewers_def cal_close_def cal_output_def cal_scroll_def cal_event_def is_event_def
      Let_def split_beta split: option.splits)+

text \<open>No host call brings the deadline closer than 50 ms after the last anchor, or removes it.\<close>

definition deadline_kept :: "calibrator \<Rightarrow> calibrator \<Rightarrow> bool" where
  "deadline_kept s s' \<longleftrightarrow>
     (\<forall>a. ca_last_capture s = At a \<longrightarrow> At (a + 50) \<le> ca_deadline s \<longrightarrow> At (a + 50) \<le> ca_deadline s') \<and>
     (\<not> ca_closed s' \<longrightarrow> ca_deadline s \<noteq> Never \<longrightarrow> ca_deadline s' \<noteq> Never)"

lemma deadline_kept_refl: "ca_deadline s' = ca_deadline s \<Longrightarrow> deadline_kept s s'"
  by (simp add: deadline_kept_def)

lemma cadence_order [simp]: "event_ms \<le> event_ms" "event_ms \<le> active_ms" "event_ms \<le> unviewed_ms"
  by (simp_all add: event_ms_def active_ms_def unviewed_ms_def)

lemma request_keeps:
  assumes "l = ca_last_capture s0" "ca_deadline s = ca_deadline s0" "event_ms \<le> d"
  shows "deadline_kept s0 (fst (request (max (At now) (after l d)) s))"
proof -
  have 1: "At (a + 50) \<le> max (At now) (after (At a) d)" for a
    using assms(3) by (simp add: event_ms_def le_max_iff_disj)
  have 2: "min t (ca_deadline s0) \<noteq> Never" if "ca_deadline s0 \<noteq> Never" for t
    using that by (cases "ca_deadline s0") (auto simp: min_def dest: sym)
  show ?thesis unfolding deadline_kept_def request_deadline
    using 1 2 assms(1,2) by auto
qed

lemma host_call_deadline:
  assumes "host_call c"
  shows "deadline_kept s (fst (cal_step c s))"
proof (cases c)
  case Close
  then show ?thesis by (simp add: cal_close_def deadline_kept_def)
next
  case (SetViewers n now)
  then show ?thesis by (auto simp: set_viewers_def Let_def intro: request_keeps deadline_kept_refl)
next
  case (Output q now)
  then show ?thesis by (auto simp: cal_output_def Let_def split_beta intro: request_keeps deadline_kept_refl split: option.splits)
next
  case (Scroll n now)
  then show ?thesis by (auto simp: cal_output_def cal_scroll_def Let_def split_beta intro: request_keeps deadline_kept_refl)
next
  case (Event l now)
  then show ?thesis by (auto simp: cal_event_def Let_def intro: request_keeps deadline_kept_refl)
qed (use assms in simp_all)

lemma latch_publish_same:
  "release_latch now s = (s1, e1) \<Longrightarrow> publish_due now s1 = (s2, e2) \<Longrightarrow>
     ca_run s2 = ca_run s \<and> ca_in_flight s2 = ca_in_flight s \<and> ca_last_capture s2 = ca_last_capture s \<and>
     ca_generation s2 = ca_generation s \<and> ca_closed s2 = ca_closed s \<and> ca_deadline s2 = ca_deadline s \<and>
     (ca_next_pipe s2 = ca_next_pipe s \<or> ca_next_pipe s2 = Never) \<and>
     list_all quiet_effect e1 \<and> (\<forall>e \<in> set e2. \<exists>q. e = PublishPipe q)"
  by (auto simp: release_latch_def publish_due_def split: option.splits if_splits)

text \<open>\<open>runDue\<close> either leaves the run alone, or starts one, or fails at its fence.\<close>

lemma run_due_cases:
  assumes "run_due now ok fence f t s = (s', es)"
  obtains (same) "ca_run s' = ca_run s" "ca_in_flight s' = ca_in_flight s" "ca_generation s' = ca_generation s"
      "ca_closed s' = ca_closed s" "ca_last_capture s' = ca_last_capture s" "ca_deadline s' = ca_deadline s"
      "ca_next_pipe s' = ca_next_pipe s \<or> ca_next_pipe s' = Never"
      "\<forall>n. Capture n \<notin> set es" "\<forall>i. Calibrate i \<notin> set es" "\<forall>cm g. Publish cm g \<notin> set es"
  | (failed) c :: run_context where "\<not> ca_closed s" "\<not> ca_in_flight s" "ca_deadline s \<le> At now" "ca_run s' = None" "\<not> ca_in_flight s'"
      "ca_generation s' = ca_generation s" "ca_closed s' = ca_closed s" "ca_last_capture s' = At (rc_anchor c)"
      "rc_anchor c = run_anchor (ca_deadline s) now" "rc_now c = now"
      "At (rc_now c + 50) \<le> ca_deadline s'" "ca_deadline s' \<noteq> Never" "list_ex is_schedule es"
      "\<forall>n. Capture n \<notin> set es" "\<forall>i. Calibrate i \<notin> set es" "\<forall>cm g. Publish cm g \<notin> set es"
  | (started) c :: run_context and snap n where "\<not> ca_closed s" "\<not> ca_in_flight s" "ca_deadline s \<le> At now" "fence = Inr snap"
      "ca_run s' = Some (c, Capturing snap)"
      "ca_in_flight s'" "ca_generation s' = ca_generation s" "ca_closed s' = ca_closed s"
      "ca_last_capture s' = At (rc_anchor c)" "ca_deadline s' = Never"
      "ca_next_pipe s' = ca_next_pipe s \<or> ca_next_pipe s' = Never" "rc_generation c = ca_generation s"
      "rc_anchor c = run_anchor (ca_deadline s) now" "rc_now c = now" "Capture n \<in> set es"
      "\<forall>i. Calibrate i \<notin> set es" "\<forall>cm g. Publish cm g \<notin> set es"
proof -
  obtain s1 e1 where r: "release_latch now s = (s1, e1)" by force
  obtain s2 e2 where p: "publish_due now s1 = (s2, e2)" by force
  note L = latch_publish_same[OF r p]
  have quiet: "Capture n \<notin> set e1" "Calibrate i \<notin> set e1" "Publish cm g \<notin> set e1" for n i cm g
    using L by (auto simp: list_all_iff)
  have pipe: "Capture n \<notin> set e2" "Calibrate i \<notin> set e2" "Publish cm g \<notin> set e2" for n i cm g
    using L by auto
  show thesis
  proof (cases "ca_closed s \<or> e2 \<noteq> [] \<and> \<not> ok \<or> ca_in_flight s2 \<or> At now < ca_deadline s2")
    case True
    then show thesis using assms L r p quiet pipe by (intro same) (auto simp: run_due_def split: if_splits)
  next
    case False
    then have run: "run_due now ok fence f t s = (let (s3, e3) = start_capture now fence f t s2 in (s3, e1 @ e2 @ e3))"
      using r p by (auto simp: run_due_def)
    define c where "c = \<lparr>rc_now = now, rc_anchor = run_anchor (ca_deadline s2) now, rc_generation = ca_generation s2,
      rc_history_due = ca_force_full s2 \<or> At 200 \<le> since (run_anchor (ca_deadline s2) now) (ca_last_history s2),
      rc_scrolls = ca_scrolls s2\<rparr>"
    define s3 where "s3 = s2\<lparr>ca_in_flight := True, ca_deadline := Never, ca_last_capture := At (run_anchor (ca_deadline s2) now)\<rparr>"
    show thesis
    proof (cases fence)
      case (Inl m)
      then have st: "start_capture now fence f t s2 = run_failed c f t s3"
        by (simp add: start_capture_def Let_def c_def s3_def)
      obtain r3 e3 where F: "run_failed c f t s3 = (r3, e3)" by force
      have res: "s' = r3" "es = e1 @ e2 @ e3" using assms run st F by simp_all
      have q: "list_all quiet_effect e3" by (rule run_failed_same(8)[of c f t s3, unfolded F snd_conv])
      have f3: "ca_run r3 = None" "\<not> ca_in_flight r3" "ca_generation r3 = ca_generation s" "ca_closed r3 = ca_closed s"
        "ca_last_capture r3 = At (rc_anchor c)"
        using run_failed_same(1-5)[of c f t s3, unfolded F fst_conv] L by (simp_all add: s3_def)
      have D: "At (rc_now c + 50) \<le> ca_deadline r3 \<and> ca_deadline r3 \<noteq> Never"
        using run_failed_deadline[of s3 c f t] F False L by (simp add: s3_def)
      have W: "list_ex is_schedule e3"
        using failed_arms[of s3 c f t, unfolded F snd_conv] False L by (simp add: s3_def)
      have C: "rc_anchor c = run_anchor (ca_deadline s) now" "rc_now c = now" using L by (simp_all add: c_def)
      have G: "\<not> ca_closed s" "\<not> ca_in_flight s" "ca_deadline s \<le> At now" using False L by (auto simp: not_less)
      show thesis
        by (rule failed[of c]) (use C G D W f3 quiet pipe quiet_none[OF q] in \<open>simp_all add: res\<close>)
    next
      case (Inr snap)
      then show thesis using assms run False L quiet pipe
        by (intro started[of snap c]) (auto simp: start_capture_def Let_def c_def)
    qed
  qed
qed

lemma capture_stable_abort [simp]: "capture_stable (s\<lparr>ca_abort := b\<rparr>) c fence snap cap = capture_stable s c fence snap cap"
  by (simp add: capture_stable_def)

text \<open>What a finished run leaves: no run, a finite deadline at least 50 ms after the start, no new port call.\<close>

definition ends_run :: "run_context \<Rightarrow> calibrator \<Rightarrow> calibrator \<Rightarrow> bool" where
  "ends_run c s s' \<longleftrightarrow>
     ca_run s' = None \<and> \<not> ca_in_flight s' \<and> ca_generation s' = ca_generation s \<and> ca_closed s' = ca_closed s \<and>
     ca_last_capture s' = At (rc_anchor c) \<and>
     (\<not> ca_closed s \<longrightarrow> At (rc_now c + 50) \<le> ca_deadline s' \<and> ca_deadline s' \<noteq> Never)"

lemma finish_ends: "ends_run c s (fst (finish_run c ok d t s))"
  using finish_deadline by (auto simp: ends_run_def)

lemma failed_ends: "ends_run c s (fst (run_failed c f t s))"
  using run_failed_deadline by (auto simp: ends_run_def)

lemma ends_run_cong:
  "ca_generation s = ca_generation s0 \<Longrightarrow> ca_closed s = ca_closed s0 \<Longrightarrow> ends_run c s s' \<Longrightarrow> ends_run c s0 s'"
  by (simp add: ends_run_def)

lemma capture_done_cases:
  assumes "capture_done mc captured read f t c fence s = (s', es)"
  obtains (ended) "ends_run c s s'" "list_all quiet_effect es" "ca_closed s \<or> list_ex is_schedule es"
  | (submitted) cap snap p ci where "\<not> ca_closed s" "captured = Inr cap" "read = Inr snap" "capture_stable s c fence snap cap"
      "ca_run s' = Some (c, Committing p)" "es = [Calibrate ci]"
      "ca_in_flight s' = ca_in_flight s" "ca_generation s' = ca_generation s" "ca_closed s' = ca_closed s"
      "ca_last_capture s' = ca_last_capture s" "ca_deadline s' = ca_deadline s" "ca_next_pipe s' = ca_next_pipe s"
      "pc_capture p = cap" "pc_evidence p = evidence_of fence snap cap" "pc_receive_seq p = fr_receive_seq (sn_parser_frame snap)"
      "ci_capture ci = cap" "ci_evidence ci = evidence_of fence snap cap" "ci_revision ci = sn_revision snap"
      "ci_checks ci = rm_checks (pc_match p)" "ci_content ci = rm_content (pc_match p)" "ci_repairs ci = rm_repairs (pc_match p)"
      "pc_matched p = (rc_history_due c \<and> mt_kind (cap_after cap) = Normal)"
      "pc_recent p = (if pc_matched p then fenced_history (sn_recent snap) fence else [])"
      "pc_certified p = certified_history s cap"
      "pc_match p = (if pc_matched p then fst (matcher_match mc (ca_matcher s) (pc_recent p) (pc_certified p) (run_scope snap (pc_recent p) cap))
                     else empty_match PartialTail)"
proof -
  define s0 where "s0 = s\<lparr>ca_abort := False\<rparr>"
  have S: "ca_generation s0 = ca_generation s" "ca_closed s0 = ca_closed s" by (simp_all add: s0_def)
  have fin: thesis if "finish_run c False False t u = (s', es)" "ca_generation u = ca_generation s" "ca_closed u = ca_closed s" for u
    using finish_ends[of c u False False t] finish_same(8)[of c False False t u] finish_arms[of u c False False t] that ends_run_cong[OF that(2,3)]
    by (intro ended) simp_all
  have fail: thesis if "run_failed c f t s0 = (s', es)"
    using failed_ends[of c s0 f t] run_failed_same(8)[of c f t s0] failed_arms[of s0 c f t] S that ends_run_cong[OF S] by (intro ended) simp_all
  show thesis
  proof (cases "\<exists>cap snap. captured = Inr cap \<and> read = Inr snap \<and> capture_stable s c fence snap cap")
    case False
    then have "capture_done mc captured read f t c fence s = run_failed c f t s0 \<or>
        capture_done mc captured read f t c fence s = finish_run c False False t
          (s0\<lparr>ca_matcher := matcher_reset (ca_matcher s0), ca_force_full := True, ca_mode := PipeMode, ca_latch := None\<rparr>)"
      by (cases captured; cases read) (simp_all add: capture_done_def s0_def)
    then show thesis using assms fail
        fin[of "s0\<lparr>ca_matcher := matcher_reset (ca_matcher s0), ca_force_full := True, ca_mode := PipeMode, ca_latch := None\<rparr>"] S
      by auto
  next
    case True
    then obtain cap snap where C: "captured = Inr cap" "read = Inr snap" "capture_stable s c fence snap cap" by blast
    define matched where "matched = (rc_history_due c \<and> mt_kind (cap_after cap) = Normal)"
    define recent where "recent = (if matched then fenced_history (sn_recent snap) fence else [])"
    obtain result m where R: "(if matched then matcher_match mc (ca_matcher s0) recent (certified_history s0 cap) (run_scope snap recent cap)
                                    else (empty_match PartialTail, ca_matcher s0)) = (result, m)" by force
    have stable0: "capture_stable s0 c fence snap cap" using C by (simp add: s0_def)
    have res: "result = (if matched then fst (matcher_match mc (ca_matcher s) recent (certified_history s cap) (run_scope snap recent cap))
                     else empty_match PartialTail)"
      using R by (auto simp: s0_def certified_history_def split: if_splits)
    have eq: "capture_done mc captured read f t c fence s =
      (if ca_closed s then finish_run c False False t (s0\<lparr>ca_matcher := m\<rparr>)
       else (s0\<lparr>ca_matcher := m, ca_run := Some (c, Committing
                            \<lparr>pc_capture = cap, pc_matched = matched, pc_recent = recent, pc_certified = certified_history s0 cap,
                             pc_match = result, pc_evidence = evidence_of fence snap cap,
                             pc_receive_seq = fr_receive_seq (sn_parser_frame snap)\<rparr>)\<rparr>,
                          [Calibrate \<lparr>ci_capture = cap, ci_checks = rm_checks result, ci_content = rm_content result,
                             ci_repairs = rm_repairs result, ci_revision = sn_revision snap,
                             ci_evidence = evidence_of fence snap cap, ci_style = style_claim_of s0 cap\<rparr>]))"
      using C S R stable0 unfolding capture_done_def s0_def[symmetric] Let_def
      by (cases matched) (simp_all add: matched_def[symmetric] recent_def)
    show thesis
    proof (cases "ca_closed s")
      case True
      then show thesis using assms eq fin[of "s0\<lparr>ca_matcher := m\<rparr>"] S by simp
    next
      case False
      show thesis
        by (rule submitted[OF False C]) (use assms eq False res in \<open>auto simp: s0_def certified_history_def matched_def recent_def\<close>)
    qed
  qed
qed

lemma settle_success_same [simp]:
  "ca_generation (settle_success c p s) = ca_generation s" "ca_closed (settle_success c p s) = ca_closed s"
  by (simp_all add: settle_success_def Let_def)

lemma commit_done_cases:
  assumes "commit_done committed latest ok l f t c p s = (s', es)"
  obtains (ended) "ends_run c s s'" "list_all quiet_effect es" "ca_closed s \<or> list_ex is_schedule es"
  | (published) cm snap es' where "ends_run c s s'" "es = Publish cm (cap_frame (pc_capture p)) # es'" "list_all quiet_effect es'"
      "list_ex is_schedule es'"
      "\<not> ca_closed s" "committed = Inr (Some cm)" "latest = Inr snap" "rc_generation c = ca_generation s"
      "is_quiescent (pc_evidence p)" "sn_revision snap = cc_revision cm" "fr_receive_seq (sn_parser_frame snap) = pc_receive_seq p"
proof -
  have fin: thesis if "finish_run c a b t u = (s', es)" "ca_generation u = ca_generation s" "ca_closed u = ca_closed s" for a b u
    using finish_ends[of c u a b t] finish_same(8)[of c a b t u] finish_arms[of u c a b t] that ends_run_cong[OF that(2,3)]
    by (intro ended) simp_all
  have fail: thesis if "run_failed c f t s = (s', es)"
    using failed_ends[of c s f t] run_failed_same(8)[of c f t s] failed_arms[of s c f t] that by (intro ended) simp_all
  show thesis
  proof (cases "ca_closed s \<or> (\<nexists>cm. committed = Inr (Some cm)) \<or> rc_generation c \<noteq> ca_generation s \<or> (\<nexists>snap. latest = Inr snap)")
    case True
    let ?conflict = "s\<lparr>ca_force_full := True, ca_mode := PipeMode, ca_latch := None\<rparr>"
    from True consider (F) "commit_done committed latest ok l f t c p s = run_failed c f t s"
      | (A) "commit_done committed latest ok l f t c p s = finish_run c False False t s"
      | (B) "commit_done committed latest ok l f t c p s = finish_run c False False t ?conflict"
      | (E) "commit_done committed latest ok l f t c p s = finish_run c False False t (enter_capture l s)"
      by (cases committed; cases "projr committed"; cases latest; cases "ca_closed s"; cases "rc_generation c = ca_generation s")
        (simp_all add: commit_done_def)
    then show thesis
    proof cases
      case F
      show thesis by (rule fail) (use assms F in simp)
    next
      case A
      show thesis by (rule fin[of False False s]) (use assms A in simp_all)
    next
      case B
      show thesis by (rule fin[of False False ?conflict]) (use assms B in simp_all)
    next
      case E
      show thesis by (rule fin[of False False "enter_capture l s"]) (use assms E in simp_all)
    qed
  next
    case False
    then obtain cm snap where C: "committed = Inr (Some cm)" "latest = Inr snap" and G: "rc_generation c = ca_generation s" "\<not> ca_closed s"
      by blast
    define s2 where "s2 = (remember_match p s)\<lparr>ca_mode := PipeMode, ca_latch := None, ca_degraded := False\<rparr>"
    define s3 where "s3 = s2\<lparr>ca_pending_pipe := None, ca_next_pipe := Never\<rparr>"
    have S: "ca_generation s2 = ca_generation s" "ca_closed s2 = ca_closed s" "ca_generation s3 = ca_generation s" "ca_closed s3 = ca_closed s"
      by (simp_all add: s3_def s2_def remember_match_def)
    have eq: "commit_done committed latest ok l f t c p s = publish_commit c p cm snap ok f t s2"
      using C G by (simp add: commit_done_def s2_def)
    show thesis
    proof (cases "is_quiescent (pc_evidence p) \<and> sn_revision snap = cc_revision cm \<and> fr_receive_seq (sn_parser_frame snap) = pc_receive_seq p")
      case False
      then have pc: "publish_commit c p cm snap ok f t s2 = finish_run c True False t (settle_success c p s2)"
        by (auto simp: publish_commit_def Let_def)
      show thesis by (rule fin[of True False "settle_success c p s2"]) (use assms eq pc S in simp_all)
    next
      case True
      then have P: "is_quiescent (pc_evidence p)" "sn_revision snap = cc_revision cm" "fr_receive_seq (sn_parser_frame snap) = pc_receive_seq p"
        by simp_all
      define r where "r = (if \<not> ok then run_failed c f t s3
        else finish_run c True (screen_diverged s3 snap (cap_frame (pc_capture p))) t (settle_success c p s3))"
      have eq2: "publish_commit c p cm snap ok f t s2 = (fst r, Publish cm (cap_frame (pc_capture p)) # snd r)"
        using P unfolding publish_commit_def Let_def s3_def[symmetric] r_def[symmetric] by (simp add: split_beta)
      have q: "list_all quiet_effect (snd r)" by (simp add: r_def)
      have W: "list_ex is_schedule (snd r)"
        using failed_arms[of s3 c f t] finish_arms[of "settle_success c p s3" c True] G(2) S by (simp add: r_def)
      have "ends_run c s3 (fst r)"
        using failed_ends[of c s3 f t] ends_run_cong[OF _ _ finish_ends[of c "settle_success c p s3" True], of s3] by (simp add: r_def)
      then have E: "ends_run c s (fst r)" by (rule ends_run_cong[OF S(3,4)])
      show thesis
        by (rule published[OF _ _ q W G(2) C G(1) P]) (use assms eq eq2 E in auto)
    qed
  qed
qed

section \<open>Invariants of a run\<close>

text \<open>How a step may move the run, whatever the call.\<close>

lemma step_cases:
  assumes step: "cal_step call s = (s', es)"
  obtains (same) "ca_run s' = ca_run s" "ca_in_flight s' = ca_in_flight s" "ca_last_capture s' = ca_last_capture s"
      "ca_generation s' = ca_generation s + (if is_event call \<and> \<not> ca_closed s then 1 else 0)"
      "ca_closed s' = (ca_closed s \<or> call = Close)" "deadline_kept s s'"
      "\<forall>n. Capture n \<notin> set es" "\<forall>i. Calibrate i \<notin> set es" "\<forall>cm g. Publish cm g \<notin> set es"
  | (ended) c where "ends_run c s s'" "\<exists>phase. ca_run s = Some (c, phase)" "\<not> is_event call" "call \<noteq> Close"
      "\<forall>n. Capture n \<notin> set es" "\<forall>i. Calibrate i \<notin> set es" "\<forall>cm g. Publish cm g \<notin> set es"
  | (failed) c now where "ends_run c s s'" "\<not> ca_closed s" "\<not> ca_in_flight s" "\<not> is_event call" "call \<noteq> Close"
      "ca_deadline s \<le> At now" "rc_anchor c = run_anchor (ca_deadline s) now" "rc_now c = now"
      "\<forall>n. Capture n \<notin> set es" "\<forall>i. Calibrate i \<notin> set es" "\<forall>cm g. Publish cm g \<notin> set es"
  | (started) c snap n now ok fence f t where "call = RunDue now ok fence f t" "\<not> ca_closed s" "\<not> ca_in_flight s"
      "ca_deadline s \<le> At now" "ca_run s' = Some (c, Capturing snap)" "ca_in_flight s'" "ca_generation s' = ca_generation s"
      "ca_closed s' = ca_closed s" "ca_last_capture s' = At (rc_anchor c)" "ca_deadline s' = Never"
      "rc_generation c = ca_generation s" "rc_anchor c = run_anchor (ca_deadline s) now" "rc_now c = now"
      "Capture n \<in> set es" "\<forall>i. Calibrate i \<notin> set es" "\<forall>cm g. Publish cm g \<notin> set es"
  | (submitted) c fence snap p ci mc captured f t where "call = CaptureDone mc captured (Inr snap) f t"
      "ca_run s = Some (c, Capturing fence)" "\<not> ca_closed s" "rc_generation c = ca_generation s"
      "ca_run s' = Some (c, Committing p)" "es = [Calibrate ci]"
      "ca_in_flight s' = ca_in_flight s" "ca_generation s' = ca_generation s" "ca_closed s' = ca_closed s"
      "ca_last_capture s' = ca_last_capture s" "ca_deadline s' = ca_deadline s"
      "pc_capture p = ci_capture ci" "pc_evidence p = ci_evidence ci" "ci_evidence ci = evidence_of fence snap (ci_capture ci)"
      "pc_receive_seq p = fr_receive_seq (sn_parser_frame snap)"
  | (published) c p cm snap ok l f t where "call = CommitDone (Inr (Some cm)) (Inr snap) ok l f t"
      "ca_run s = Some (c, Committing p)" "\<not> ca_closed s" "rc_generation c = ca_generation s" "ends_run c s s'"
      "Publish cm (cap_frame (pc_capture p)) \<in> set es"
      "\<forall>cm' g. Publish cm' g \<in> set es \<longrightarrow> cm' = cm \<and> g = cap_frame (pc_capture p)"
      "is_quiescent (pc_evidence p)" "sn_revision snap = cc_revision cm" "fr_receive_seq (sn_parser_frame snap) = pc_receive_seq p"
      "\<forall>n. Capture n \<notin> set es" "\<forall>i. Calibrate i \<notin> set es"
proof (cases "host_call call")
  case True
  show thesis
    by (rule same) (use host_call_same[OF True, of s] host_call_deadline[OF True, of s] quiet_none step in simp_all)
next
  case False
  then consider (R) now ok fence f t where "call = RunDue now ok fence f t"
    | (C) mc captured read f t where "call = CaptureDone mc captured read f t"
    | (D) committed latest ok l f t where "call = CommitDone committed latest ok l f t"
    by (cases call) auto
  then show thesis
  proof cases
    case R
    then have "run_due now ok fence f t s = (s', es)" using step by simp
    then show thesis
    proof (cases rule: run_due_cases)
      case same: same
      then show thesis using R by (intro that(1)) (simp_all add: is_event_def deadline_kept_refl)
    next
      case (failed c)
      then show thesis using R by (intro that(3)[of c now]) (simp_all add: is_event_def ends_run_def)
    next
      case (started c snap n)
      then show thesis using R by (intro that(4)[of now ok fence f t c snap n]) simp_all
    qed
  next
    case C
    show thesis
    proof (cases "\<exists>c fence. ca_run s = Some (c, Capturing fence)")
      case True
      then obtain c fence where run: "ca_run s = Some (c, Capturing fence)" by blast
      then have "capture_done mc captured read f t c fence s = (s', es)" using step C by simp
      then show thesis
      proof (cases rule: capture_done_cases)
        case ended
        then show thesis using C run by (intro that(2)[of c]) (simp_all add: is_event_def quiet_none)
      next
        case (submitted cap snap p ci)
        then show thesis using C run
          by (intro that(5)[of mc captured snap f t c fence p ci]) (simp_all add: capture_stable_def Let_def)
      qed
    next
      case False
      then have "s' = s" "es = []" using step C by (auto split: option.splits run_phase.splits)
      then show thesis using C by (intro that(1)) (simp_all add: is_event_def deadline_kept_refl)
    qed
  next
    case D
    show thesis
    proof (cases "\<exists>c p. ca_run s = Some (c, Committing p)")
      case True
      then obtain c p where run: "ca_run s = Some (c, Committing p)" by blast
      then have "commit_done committed latest ok l f t c p s = (s', es)" using step D by simp
      then show thesis
      proof (cases rule: commit_done_cases)
        case ended
        then show thesis using D run by (intro that(2)[of c]) (simp_all add: is_event_def quiet_none)
      next
        case (published cm snap es')
        then show thesis using D run
          by (intro that(6)[of cm snap ok l f t c p]) (auto simp: quiet_none)
      qed
    next
      case False
      then have "s' = s" "es = []" using step D by (auto split: option.splits run_phase.splits)
      then show thesis using D by (intro that(1)) (simp_all add: is_event_def deadline_kept_refl)
    qed
  qed
qed

definition events :: "cal_trace \<Rightarrow> nat" where
  "events tr = length (filter (\<lambda>x. is_event (fst x)) tr)"

definition captured_at :: "cal_trace \<Rightarrow> nat \<Rightarrow> bool" where
  "captured_at tr k \<longleftrightarrow> k < length tr \<and> (\<exists>n. Capture n \<in> set (snd (tr ! k)))"

definition submitted_at :: "cal_trace \<Rightarrow> nat \<Rightarrow> pending_commit \<Rightarrow> bool" where
  "submitted_at tr j p \<longleftrightarrow> j < length tr \<and>
     (\<exists>ci. Calibrate ci \<in> set (snd (tr ! j)) \<and> ci_capture ci = pc_capture p \<and> ci_evidence ci = pc_evidence p \<and>
        (is_quiescent (pc_evidence p) \<longrightarrow>
           (\<exists>e g u. ci_evidence ci = Quiescent e g (pc_receive_seq p) (pc_receive_seq p) u)))"

definition run_traced :: "calibrator \<Rightarrow> cal_trace \<Rightarrow> bool" where
  "run_traced s tr \<longleftrightarrow>
     (ca_closed s \<longleftrightarrow> Close \<in> fst ` set tr) \<and> ca_in_flight s = (ca_run s \<noteq> None) \<and>
     (case ca_run s of None \<Rightarrow> True
      | Some (c, phase) \<Rightarrow>
          \<exists>k. captured_at tr k \<and> (\<not> ca_closed s \<longrightarrow> ca_generation s = rc_generation c + events (drop (Suc k) tr)) \<and>
              (\<forall>p. phase = Committing p \<longrightarrow> (\<exists>j. k < j \<and> submitted_at tr j p)))"

lemma captured_at_append: "captured_at tr k \<Longrightarrow> captured_at (tr @ xs) k"
  by (auto simp: captured_at_def nth_append)

lemma submitted_at_append: "submitted_at tr j p \<Longrightarrow> submitted_at (tr @ xs) j p"
  by (auto simp: submitted_at_def nth_append)

lemma events_append [simp]: "events (xs @ ys) = events xs + events ys" "events [] = 0"
  "events [x] = (if is_event (fst x) then 1 else 0)"
  by (simp_all add: events_def)

lemma run_traced_run:
  assumes "run_traced s tr" "ca_run s = Some (c, phase)"
  obtains k where "captured_at tr k" "\<not> ca_closed s \<Longrightarrow> ca_generation s = rc_generation c + events (drop (Suc k) tr)"
    "\<And>p. phase = Committing p \<Longrightarrow> \<exists>j. k < j \<and> submitted_at tr j p"
  using assms unfolding run_traced_def by auto

lemma run_traced_intro:
  assumes "ca_closed s \<longleftrightarrow> Close \<in> fst ` set tr" "ca_in_flight s" "ca_run s = Some (c, phase)" "captured_at tr k"
    "\<not> ca_closed s \<Longrightarrow> ca_generation s = rc_generation c + events (drop (Suc k) tr)"
    "\<And>p. phase = Committing p \<Longrightarrow> \<exists>j. k < j \<and> submitted_at tr j p"
  shows "run_traced s tr"
  using assms unfolding run_traced_def by auto

lemma run_traced_ended:
  assumes "run_traced s tr" "ends_run c s s'" "call \<noteq> Close"
  shows "run_traced s' (tr @ [(call, es)])"
  using assms unfolding run_traced_def ends_run_def by auto

lemma run_traced_step:
  assumes inv: "run_traced s tr" and step: "cal_step call s = (s', es)"
  shows "run_traced s' (tr @ [(call, es)])"
  using step
proof (cases rule: step_cases)
  case same
  have flags: "ca_closed s' = (Close \<in> fst ` set (tr @ [(call, es)]))" "ca_in_flight s' = (ca_run s' \<noteq> None)"
    using same inv by (auto simp: run_traced_def)
  show ?thesis
  proof (cases "ca_run s")
    case None
    then show ?thesis using same flags by (simp add: run_traced_def)
  next
    case (Some r)
    obtain c phase where r: "r = (c, phase)" by (cases r)
    obtain k where k: "captured_at tr k" "\<not> ca_closed s \<Longrightarrow> ca_generation s = rc_generation c + events (drop (Suc k) tr)"
      "\<And>p. phase = Committing p \<Longrightarrow> \<exists>j. k < j \<and> submitted_at tr j p"
      using run_traced_run[OF inv] Some r by metis
    have K: "captured_at (tr @ [(call, es)]) k" using k(1) by (rule captured_at_append)
    have d: "drop (Suc k) (tr @ [(call, es)]) = drop (Suc k) tr @ [(call, es)]" using k(1) by (simp add: captured_at_def)
    have G: "\<not> ca_closed s' \<Longrightarrow> ca_generation s' = rc_generation c + events (drop (Suc k) (tr @ [(call, es)]))"
      using k(2) same(4,5) by (simp add: d del: drop_append)
    have P: "\<exists>j. k < j \<and> submitted_at (tr @ [(call, es)]) j p" if "phase = Committing p" for p
      using k(3)[OF that] submitted_at_append by blast
    have R: "ca_run s' = Some (c, phase)" using same Some r by simp
    then have "ca_in_flight s'" using flags(2) by simp
    from run_traced_intro[OF flags(1) this R K G P] show ?thesis .
  qed
next
  case (ended c)
  show ?thesis by (rule run_traced_ended[OF inv ended(1,4)])
next
  case (failed c now)
  show ?thesis by (rule run_traced_ended[OF inv failed(1,5)])
next
  case (started c snap n now ok fence f t)
  have K: "captured_at (tr @ [(call, es)]) (length tr)" using started(14) by (auto simp: captured_at_def)
  have G: "ca_generation s' = rc_generation c + events (drop (Suc (length tr)) (tr @ [(call, es)]))"
    using started by simp
  have "ca_closed s' \<longleftrightarrow> Close \<in> fst ` set (tr @ [(call, es)])"
    using started(1,8) inv by (simp add: run_traced_def)
  then show ?thesis by (rule run_traced_intro[OF _ started(6,5) K G]) simp
next
  case (submitted c fence snap p ci mc captured f t)
  obtain k where k: "captured_at tr k" "ca_generation s = rc_generation c + events (drop (Suc k) tr)"
    using run_traced_run[OF inv submitted(2)] submitted(3) by metis
  have K: "captured_at (tr @ [(call, es)]) k" using k(1) by (rule captured_at_append)
  have G: "ca_generation s' = rc_generation c + events (drop (Suc k) (tr @ [(call, es)]))"
    using k submitted by (simp add: captured_at_def is_event_def)
  have "submitted_at (tr @ [(call, es)]) (length tr) p"
    by (auto simp: submitted_at_def submitted(6,12-15) evidence_of_def is_quiescent_def Let_def)
  then have P: "\<exists>j. k < j \<and> submitted_at (tr @ [(call, es)]) j q" if "Committing p = Committing q" for q
    using that k(1) by (auto simp: captured_at_def)
  have flags: "ca_closed s' \<longleftrightarrow> Close \<in> fst ` set (tr @ [(call, es)])" "ca_in_flight s'"
    using submitted(1,2,7,9) inv by (simp_all add: run_traced_def)
  show ?thesis by (rule run_traced_intro[OF flags submitted(5) K G P])
next
  case (published c p cm snap ok l f t)
  show ?thesis by (rule run_traced_ended[OF inv published(5)]) (simp add: published(1))
qed

lemma born_state:
  "cal_new pane opts now = Inr (s, es) \<Longrightarrow>
     \<not> ca_closed s \<and> \<not> ca_in_flight s \<and> ca_run s = None \<and> ca_last_capture s = Past \<and> ca_deadline s \<noteq> Never"
  by (auto simp: cal_new_def request_def Let_def split: if_splits)

lemma calibrates_traced: "calibrates s tr \<Longrightarrow> run_traced s tr"
proof (induction rule: calibrates.induct)
  case (born pane opts now s es)
  then show ?case using born_state[OF born] by (simp add: run_traced_def)
next
  case (call s tr c s' es)
  then show ?case using run_traced_step by blast
qed

text \<open>
  C9: Only what the store committed is ever published, and only while it is still the truth. In any
  history of calls on one calibrator (viewers, output, scrolls, lifecycle events, timer wakes and answers, in any
  order, with any captures, store answers and exceptions), a published frame is the frame of an earlier capture that
  was submitted as quiescent: the parser received nothing between the reads around that capture, and still nothing
  when the frame is shown. The store answered that submission with the very commit that is published and still has its
  revision; no lifecycle event happened since the capture was requested, and the calibrator was never closed.
\<close>

theorem published_frame_was_committed:
  assumes "calibrates s tr" "i < length tr" "Publish cm f \<in> set (snd (tr ! i))"
  shows "\<exists>k j n ci e g b u snap ok l x t.
    k < j \<and> j < i \<and> Capture n \<in> set (snd (tr ! k)) \<and> Calibrate ci \<in> set (snd (tr ! j)) \<and>
    cap_frame (ci_capture ci) = f \<and> ci_evidence ci = Quiescent e g b b u \<and>
    fst (tr ! i) = CommitDone (Inr (Some cm)) (Inr snap) ok l x t \<and>
    sn_revision snap = cc_revision cm \<and> fr_receive_seq (sn_parser_frame snap) = b \<and>
    (\<forall>m. k < m \<and> m \<le> i \<longrightarrow> \<not> is_event (fst (tr ! m))) \<and> (\<forall>m \<le> i. fst (tr ! m) \<noteq> Close)"
  using assms
proof (induction arbitrary: i rule: calibrates.induct)
  case (born pane opts now s es)
  then show ?case by simp
next
  case (call s tr c s' es)
  let ?tr = "tr @ [(c, es)]"
  show ?case
  proof (cases "i < length tr")
    case True
    then have P: "Publish cm f \<in> set (snd (tr ! i))" using call.prems by (simp add: nth_append)
    have same: "?tr ! m = tr ! m" if "m \<le> i" for m using that True by (simp add: nth_append)
    from call.IH[OF True P] show ?thesis
      apply (elim exE conjE)
      subgoal for k j n ci e g b u snap ok l x t
        by (rule exI[of _ k], rule exI[of _ j], rule exI[of _ n], rule exI[of _ ci], rule exI[of _ e], rule exI[of _ g],
            rule exI[of _ b], rule exI[of _ u], rule exI[of _ snap], rule exI[of _ ok], rule exI[of _ l], rule exI[of _ x],
            rule exI[of _ t]) (simp add: same)
      done
  next
    case False
    then have i: "i = length tr" using call.prems by simp
    then have pub: "Publish cm f \<in> set es" using call.prems by simp
    note inv = calibrates_traced[OF call.hyps(1)]
    from call.hyps(2) show ?thesis
    proof (cases rule: step_cases)
      case (published c' p cm' snap ok l x t)
      have E: "cm = cm'" "f = cap_frame (pc_capture p)" using published(7) pub by auto
      obtain k where k: "captured_at tr k" "ca_generation s = rc_generation c' + events (drop (Suc k) tr)"
        "\<exists>j. k < j \<and> submitted_at tr j p"
        using run_traced_run[OF inv published(2)] published(3) by metis
      then obtain j where j: "k < j" "submitted_at tr j p" by blast
      obtain n where n: "Capture n \<in> set (snd (tr ! k))" "k < length tr" using k(1) by (auto simp: captured_at_def)
      obtain ci e g u where ci: "j < length tr" "Calibrate ci \<in> set (snd (tr ! j))" "ci_capture ci = pc_capture p"
        "ci_evidence ci = Quiescent e g (pc_receive_seq p) (pc_receive_seq p) u"
        using j(2) published(8) unfolding submitted_at_def by blast
      have none: "filter (\<lambda>x. is_event (fst x)) (drop (Suc k) tr) = []" using k(2) published(4) by (simp add: events_def)
      have quiet: "\<not> is_event (fst (?tr ! m))" if "k < m" "m \<le> i" for m
      proof (cases "m < length tr")
        case True
        then have "tr ! m = drop (Suc k) tr ! (m - Suc k)" "m - Suc k < length (drop (Suc k) tr)" using that(1) by simp_all
        then have "tr ! m \<in> set (drop (Suc k) tr)" by (metis nth_mem)
        then show ?thesis using none True by (auto simp: filter_empty_conv nth_append)
      next
        case False
        then show ?thesis using that i published(1) by (simp add: is_event_def)
      qed
      have "Close \<notin> fst ` set tr" using inv published(3) by (simp add: run_traced_def)
      then have "fst (tr ! m) \<noteq> Close" if "m < length tr" for m using that nth_mem by (metis image_eqI)
      then have alive: "fst (?tr ! m) \<noteq> Close" if "m \<le> i" for m
        using that i published(1) by (cases "m < length tr") (auto simp: nth_append)
      have old: "?tr ! k = tr ! k" "?tr ! j = tr ! j" using n(2) ci(1) by (simp_all add: nth_append)
      have "fst (?tr ! i) = CommitDone (Inr (Some cm)) (Inr snap) ok l x t" using i published(1) E by simp
      note facts = j(1) this published(9,10)
      have "j < i" "Capture n \<in> set (snd (?tr ! k))" "Calibrate ci \<in> set (snd (?tr ! j))" "cap_frame (ci_capture ci) = f"
        using ci n i E old by simp_all
      moreover have "\<forall>m. k < m \<and> m \<le> i \<longrightarrow> \<not> is_event (fst (?tr ! m))" "\<forall>m \<le> i. fst (?tr ! m) \<noteq> Close"
        using quiet alive by blast+
      ultimately show ?thesis using facts E(1) ci(4) by blast
    qed (use pub in simp_all)
  qed
qed

text \<open>
  A closed calibrator is silent. Whatever is called on it or resumes in it, it asks the ports for
  nothing more, neither a timer nor a capture, commit, frame or fault, and stays closed; it only still refuses
  ill-formed counts.
\<close>

lemma closed_is_silent:
  assumes "ca_closed s"
  shows "ca_closed (fst (cal_step c s)) \<and> (\<forall>e \<in> set (snd (cal_step c s)). \<exists>msg. e = Raise msg)"
proof (cases c)
  case (CaptureDone mc captured read f t)
  have "ca_closed (fst (capture_done mc captured read f t c' fence s)) \<and> snd (capture_done mc captured read f t c' fence s) = []" for c' fence
    using assms run_failed_same(4,9) finish_same(4,9)
    by (auto simp: capture_done_def Let_def split: sum.splits prod.splits)
  then show ?thesis using CaptureDone assms by (auto split: option.splits run_phase.splits)
next
  case (CommitDone committed latest ok l f t)
  have "ca_closed (fst (commit_done committed latest ok l f t c' p s)) \<and> snd (commit_done committed latest ok l f t c' p s) = []" for c' p
    using assms run_failed_same(4,9) finish_same(4,9) by (auto simp: commit_done_def split: sum.splits)
  then show ?thesis using CommitDone assms by (auto split: option.splits run_phase.splits)
qed (use assms in \<open>auto simp: set_viewers_def cal_close_def cal_output_def cal_scroll_def cal_event_def run_due_def\<close>)

section \<open>How often a pane is captured\<close>

definition is_capture :: "cal_effect \<Rightarrow> bool" where
  "is_capture e = (case e of Capture _ \<Rightarrow> True | _ \<Rightarrow> False)"

definition capture_starts :: "cal_trace \<Rightarrow> rat list" where
  "capture_starts tr =
     concat (map (\<lambda>(c, es). case c of RunDue now _ _ _ _ \<Rightarrow> if list_ex is_capture es then [now] else [] | _ \<Rightarrow> []) tr)"

lemma capture_starts_append [simp]: "capture_starts (xs @ ys) = capture_starts xs @ capture_starts ys"
  "capture_starts [] = []"
  by (simp_all add: capture_starts_def)

lemma is_capture_iff: "list_ex is_capture es \<longleftrightarrow> (\<exists>n. Capture n \<in> set es)"
proof -
  have "is_capture e \<longleftrightarrow> (\<exists>n. e = Capture n)" for e by (cases e) (simp_all add: is_capture_def)
  then show ?thesis by (auto simp: list_ex_iff)
qed

lemma no_start: "\<forall>n. Capture n \<notin> set es \<Longrightarrow> capture_starts [(c, es)] = []"
  by (cases c) (simp_all add: capture_starts_def is_capture_iff)

lemma one_start: "Capture n \<in> set es \<Longrightarrow> capture_starts [(RunDue now ok fence f t, es)] = [now]"
  by (auto simp: capture_starts_def is_capture_iff)

lemma run_anchor_bounds:
  assumes "d \<le> At now"
  shows "run_anchor d now \<le> now" "now - 200 < run_anchor d now" "At x \<le> d \<Longrightarrow> x \<le> run_anchor d now"
  using assms by (cases d; simp add: run_anchor_def)+

text \<open>The anchors of the runs are 50 ms apart, and a start is less than 200 ms after its anchor.\<close>

definition spaced :: "calibrator \<Rightarrow> rat list \<Rightarrow> bool" where
  "spaced s xs \<longleftrightarrow>
     (ca_last_capture s \<noteq> Never \<and> (xs \<noteq> [] \<longrightarrow> ca_last_capture s \<noteq> Past)) \<and>
     (\<forall>c phase. ca_run s = Some (c, phase) \<longrightarrow> ca_last_capture s = At (rc_anchor c) \<and> rc_anchor c \<le> rc_now c) \<and>
     (\<forall>a. ca_last_capture s = At a \<longrightarrow> At (a + 50) \<le> ca_deadline s \<or> ca_closed s) \<and>
     (\<forall>a i. ca_last_capture s = At a \<longrightarrow> i < length xs \<longrightarrow> xs ! i + 50 * of_nat (length xs - 1 - i) < a + 200) \<and>
     (\<forall>i j. i < j \<longrightarrow> j < length xs \<longrightarrow> xs ! i + 50 * of_nat (j - i) < xs ! j + 200)"

lemma spaced_ended:
  assumes "spaced s xs" "ends_run c s s'" "ca_last_capture s = At (rc_anchor c)" "rc_anchor c \<le> rc_now c"
  shows "spaced s' xs"
proof -
  have "At (rc_anchor c + 50) \<le> t" if "At (rc_now c + 50) \<le> t" for t
    using assms(4) order_trans[OF _ that, of "At (rc_anchor c + 50)"] by simp
  then show ?thesis using assms(1-3) unfolding spaced_def ends_run_def by auto
qed

lemma spaced_next:
  assumes inv: "spaced s xs" and last: "ca_last_capture s = At a" and a: "a + 50 \<le> a'" and i: "i < length xs"
  shows "xs ! i + 50 * of_nat (length xs - i) < a' + 200"
proof -
  have "xs ! i + 50 * of_nat (length xs - 1 - i) < a + 200" using inv last i by (auto simp: spaced_def)
  moreover have "length xs - i = Suc (length xs - 1 - i)" using i by simp
  ultimately show ?thesis using a by simp
qed

text \<open>A new anchor: at its deadline, or at the wake when that is 200 ms late or more.\<close>

lemma anchor_next:
  assumes inv: "spaced s xs" and alive: "\<not> ca_closed s" and due: "ca_deadline s \<le> At now" and i: "i < length xs"
  shows "xs ! i + 50 * of_nat (length xs - i) < run_anchor (ca_deadline s) now + 200"
proof -
  obtain a where a: "ca_last_capture s = At a" using inv i by (cases "ca_last_capture s") (auto simp: spaced_def)
  then have "At (a + 50) \<le> ca_deadline s" using inv alive by (auto simp: spaced_def)
  then have "a + 50 \<le> run_anchor (ca_deadline s) now" using run_anchor_bounds(3)[OF due] by blast
  then show ?thesis by (rule spaced_next[OF inv a _ i])
qed

lemma spaced_failed:
  assumes inv: "spaced s xs" and alive: "\<not> ca_closed s" and due: "ca_deadline s \<le> At now"
    and c: "rc_anchor c = run_anchor (ca_deadline s) now" "rc_now c = now" and ends: "ends_run c s s'"
  shows "spaced s' xs"
proof -
  have le: "rc_anchor c \<le> now" using run_anchor_bounds(1)[OF due] c by simp
  have D: "At (rc_anchor c + 50) \<le> ca_deadline s'"
    using ends alive le c order_trans[of "At (rc_anchor c + 50)" "At (now + 50)"] by (simp add: ends_run_def)
  have N: "xs ! i + 50 * of_nat (length xs - 1 - i) < rc_anchor c + 200" if "i < length xs" for i
  proof -
    have "(of_nat (length xs - 1 - i) :: rat) \<le> of_nat (length xs - i)" by simp
    then show ?thesis using anchor_next[OF inv alive due that] c(1) by linarith
  qed
  show ?thesis using inv ends D N unfolding spaced_def ends_run_def by auto
qed

lemma spaced_started:
  assumes inv: "spaced s xs" and alive: "\<not> ca_closed s" and due: "ca_deadline s \<le> At now"
    and c: "rc_anchor c = run_anchor (ca_deadline s) now" "rc_now c = now"
    and s': "ca_run s' = Some (c, ph)" "ca_last_capture s' = At (rc_anchor c)" "ca_deadline s' = Never"
  shows "spaced s' (xs @ [now])"
proof -
  have le: "rc_anchor c \<le> now" "now < rc_anchor c + 200" using run_anchor_bounds(1,2)[OF due] c by simp_all
  have N: "xs ! i + 50 * of_nat (length xs - i) < rc_anchor c + 200" if "i < length xs" for i
    using anchor_next[OF inv alive due that] c(1) by simp
  have A: "(xs @ [now]) ! i + 50 * of_nat (length (xs @ [now]) - 1 - i) < rc_anchor c + 200" if "i < length (xs @ [now])" for i
    using N[of i] le that by (cases "i < length xs") (auto simp: nth_append less_Suc_eq)
  have P: "(xs @ [now]) ! i + 50 * of_nat (j - i) < (xs @ [now]) ! j + 200" if "i < j" "j < length (xs @ [now])" for i j
  proof (cases "j < length xs")
    case True
    then show ?thesis using inv that by (auto simp: spaced_def nth_append)
  next
    case False
    then have "j = length xs" using that by simp
    then show ?thesis using N[of i] le(1) that by (simp add: nth_append)
  qed
  show ?thesis unfolding spaced_def using s' A P le(1) c(2) by (auto simp del: length_append)
qed

lemma spaced_run:
  "spaced s xs \<Longrightarrow> ca_run s = Some (c, phase) \<Longrightarrow> ca_last_capture s = At (rc_anchor c) \<and> rc_anchor c \<le> rc_now c"
  unfolding spaced_def by blast

lemma spaced_kept:
  assumes "spaced s xs" "deadline_kept s s'" "ca_last_capture s' = ca_last_capture s" "ca_closed s \<Longrightarrow> ca_closed s'"
    "\<And>c phase. ca_run s' = Some (c, phase) \<Longrightarrow> \<exists>ph. ca_run s = Some (c, ph)"
  shows "spaced s' xs"
proof -
  have "ca_last_capture s' = At (rc_anchor c) \<and> rc_anchor c \<le> rc_now c" if "ca_run s' = Some (c, phase)" for c phase
    using assms(5)[OF that] spaced_run[OF assms(1)] assms(3) by metis
  moreover have "At (a + 50) \<le> ca_deadline s' \<or> ca_closed s'" if "ca_last_capture s' = At a" for a
    using assms(1-4) that unfolding spaced_def deadline_kept_def by metis
  ultimately show ?thesis using assms(1,3) unfolding spaced_def by simp
qed

lemma calibrates_spaced: "calibrates s tr \<Longrightarrow> spaced s (capture_starts tr)"
proof (induction rule: calibrates.induct)
  case (born pane opts now s es)
  then show ?case using born_state[OF born] by (simp add: spaced_def)
next
  case (call s tr c s' es)
  note inv = call.IH
  from call.hyps(2) show ?case
  proof (cases rule: step_cases)
    case same
    have "capture_starts (tr @ [(c, es)]) = capture_starts tr" using no_start[OF same(7)] by simp
    moreover have "spaced s' (capture_starts tr)" by (rule spaced_kept[OF inv]) (use same(1,3,5,6) in simp_all)
    ultimately show ?thesis by simp
  next
    case (ended c')
    have "capture_starts (tr @ [(c, es)]) = capture_starts tr" using no_start[OF ended(5)] by simp
    then show ?thesis using spaced_ended[OF inv ended(1)] ended(2) spaced_run[OF inv] by metis
  next
    case (failed c' now)
    have "capture_starts (tr @ [(c, es)]) = capture_starts tr" using no_start[OF failed(9)] by simp
    then show ?thesis using spaced_failed[OF inv failed(2,6,7,8,1)] by simp
  next
    case (started c' snap n now ok fence f t)
    have "capture_starts (tr @ [(c, es)]) = capture_starts tr @ [now]" using one_start[OF started(14)] started(1) by simp
    then show ?thesis using spaced_started[OF inv started(2,4,12,13,5,9,10)] by simp
  next
    case (submitted c' fence snap p ci mc captured f t)
    have "capture_starts (tr @ [(c, es)]) = capture_starts tr" using no_start[of es c] submitted(6) by simp
    moreover have "spaced s' (capture_starts tr)"
      by (rule spaced_kept[OF inv]) (use submitted(2,5,9,10,11) deadline_kept_refl in simp_all)
    ultimately show ?thesis by simp
  next
    case (published c' p cm snap ok l f t)
    have "capture_starts (tr @ [(c, es)]) = capture_starts tr" using no_start[OF published(11)] by simp
    then show ?thesis using spaced_ended[OF inv published(5)] spaced_run[OF inv published(2)] by simp
  qed
qed

text \<open>
  C22: The capture rate is bounded. Whatever output, events, viewers and late timers do, and
  whatever the clock returns, the starts of any two captures of a pane, the second being n captures after
  the first, are more than 50 n - 200 milliseconds apart: a pane never costs tmux more than twenty captures a
  second, plus the slack of one late wake.
\<close>

theorem captures_spaced:
  assumes "calibrates s tr" "i < j" "j < length (capture_starts tr)"
  shows "capture_starts tr ! i + 50 * of_nat (j - i) < capture_starts tr ! j + 200"
  using calibrates_spaced[OF assms(1)] assms(2,3) unfolding spaced_def by blast

section \<open>Every earlier due time is announced\<close>

lemma due_request: "due_at s \<le> due_at (fst (request t s)) \<or> list_ex is_schedule (snd (request t s))"
  by (auto simp: request_def Let_def)

lemma due_request_later:
  assumes "due_at s0 \<le> due_at s"
  shows "due_at s0 \<le> due_at (fst (request t s)) \<or> list_ex is_schedule (snd (request t s))"
  using due_request[of s t] assms by (auto intro: order_trans)

lemma due_enter: "ca_deadline s = ca_deadline s0 \<Longrightarrow> ca_closed s = ca_closed s0 \<Longrightarrow> due_at s0 \<le> due_at (enter_capture l s)"
  by (simp add: due_at_def enter_capture_def min_le_iff_disj)

lemma due_frame [simp]:
  "due_at (s\<lparr>ca_viewers := v\<rparr>) = due_at s" "due_at (s\<lparr>ca_last_history := h\<rparr>) = due_at s"
  "due_at (s\<lparr>ca_output_at := h\<rparr>) = due_at s" "due_at (s\<lparr>ca_scrolls := n\<rparr>) = due_at s"
  by (simp_all add: due_at_def)

lemma host_call_announces:
  assumes "host_call c"
  shows "due_at s \<le> due_at (fst (cal_step c s)) \<or> list_ex is_schedule (snd (cal_step c s))"
proof (cases c)
  case Close
  then show ?thesis by (simp add: cal_close_def due_at_def)
next
  case (SetViewers n now)
  show ?thesis
    using SetViewers due_request_later[of s "s\<lparr>ca_viewers := Some (num_int n), ca_last_history := Past\<rparr>"]
    by (simp add: set_viewers_def Let_def)
next
  case (Output q now)
  show ?thesis
    using Output due_request_later[of s "s\<lparr>ca_output_at := At now\<rparr>"]
    by (cases q) (simp_all add: cal_output_def Let_def split_beta)
next
  case (Scroll n now)
  show ?thesis
    using Scroll due_request_later[of s "s\<lparr>ca_scrolls := min 4500 (ca_scrolls s + num_int n), ca_output_at := At now\<rparr>"]
    by (simp add: cal_output_def cal_scroll_def Let_def split_beta)
next
  case (Event l now)
  define u where "u = s\<lparr>ca_generation := Suc (ca_generation s), ca_force_full := True, ca_matcher := matcher_reset (ca_matcher s)\<rparr>"
  have "due_at s \<le> due_at (enter_capture l u)" by (rule due_enter) (simp_all add: u_def)
  from due_request_later[OF this] show ?thesis
    using Event by (simp add: cal_event_def Let_def u_def)
qed (use assms in simp_all)

lemma due_later:
  "ca_closed s' = ca_closed s \<Longrightarrow> ca_deadline s \<le> ca_deadline s' \<Longrightarrow>
   ca_next_pipe s' = ca_next_pipe s \<or> ca_next_pipe s' = Never \<Longrightarrow> due_at s \<le> due_at s'"
  by (auto simp: due_at_def min_le_iff_disj)

lemma closed_due: "ca_closed s' \<Longrightarrow> due_at s \<le> due_at s'"
  by (simp add: due_at_def)

text \<open>Whoever watches the due time hears of every step that brings it closer.\<close>

lemma step_announces:
  assumes "cal_step call s = (s', es)"
  shows "due_at s \<le> due_at s' \<or> list_ex is_schedule es"
proof (cases "host_call call")
  case True
  then show ?thesis using host_call_announces[OF True, of s] assms by simp
next
  case False
  then consider (R) now ok fence f t where "call = RunDue now ok fence f t"
    | (C) mc captured read f t where "call = CaptureDone mc captured read f t"
    | (D) committed latest ok l f t where "call = CommitDone committed latest ok l f t"
    by (cases call) auto
  then show ?thesis
  proof cases
    case R
    then have "run_due now ok fence f t s = (s', es)" using assms by simp
    then show ?thesis
    proof (cases rule: run_due_cases)
      case same
      then show ?thesis using due_later[OF same(4) _ same(7)] by simp
    next
      case (started c snap n)
      then show ?thesis using due_later[OF started(8) _ started(11)] by simp
    qed simp
  next
    case C
    show ?thesis
    proof (cases "\<exists>c fence. ca_run s = Some (c, Capturing fence)")
      case True
      then obtain c fence where run: "ca_run s = Some (c, Capturing fence)" by blast
      then have "capture_done mc captured read f t c fence s = (s', es)" using assms C by simp
      then show ?thesis
      proof (cases rule: capture_done_cases)
        case ended
        then show ?thesis using closed_due[of s'] by (auto simp: ends_run_def)
      next
        case (submitted cap snap p ci)
        then show ?thesis using due_later[OF submitted(9)] by simp
      qed
    next
      case False
      then have "s' = s" using assms C by (auto split: option.splits run_phase.splits)
      then show ?thesis by simp
    qed
  next
    case D
    show ?thesis
    proof (cases "\<exists>c p. ca_run s = Some (c, Committing p)")
      case True
      then obtain c p where run: "ca_run s = Some (c, Committing p)" by blast
      then have "commit_done committed latest ok l f t c p s = (s', es)" using assms D by simp
      then show ?thesis
      proof (cases rule: commit_done_cases)
        case ended
        then show ?thesis using closed_due[of s'] by (auto simp: ends_run_def)
      next
        case (published cm snap es')
        then show ?thesis by simp
      qed
    next
      case False
      then have "s' = s" using assms D by (auto split: option.splits run_phase.splits)
      then show ?thesis by simp
    qed
  qed
qed

section \<open>The timer of the host\<close>

text \<open>
  What a host with one timer for many clients needs of them: a step that makes a client due earlier asks for the
  timer. Then an armed instant that covers a client covers it through every step that does not ask.
\<close>

locale announcing_client =
  fixes step :: "'c \<Rightarrow> 's \<Rightarrow> 's \<times> 'e list" and due :: "'s \<Rightarrow> instant" and asks :: "'e \<Rightarrow> bool"
  assumes announces: "step c s = (s', es) \<Longrightarrow> due s \<le> due s' \<or> list_ex asks es"
begin

lemma still_covered: "armed \<le> due s \<Longrightarrow> step c s = (s', es) \<Longrightarrow> \<not> list_ex asks es \<Longrightarrow> armed \<le> due s'"
  using announces by (blast intro: order_trans)

lemma all_still_covered:
  assumes "\<forall>s \<in> set ss. armed \<le> due s" "i < length ss" "step c (ss ! i) = (s', es)" "\<not> list_ex asks es"
  shows "\<forall>s \<in> set (ss[i := s']). armed \<le> due s"
  using assms still_covered[OF _ assms(3,4)] by (auto dest: set_update_subset_insert[THEN subsetD])

end

interpretation calibrators: announcing_client cal_step due_at is_schedule
  by unfold_locales (rule step_announces)

text \<open>
  \<open>PipeHistoryRuntime\<close> keeps one timer for all panes: \<open>arm\<close> moves it to the earliest due time, a wake runs
  every pane that is due and arms again. \<open>hs_timer\<close> is the delay the running timer was set to.
\<close>

record cal_host =
  hs_panes :: "calibrator list"
  hs_armed :: instant
  hs_timer :: "rat option"
  hs_closed :: bool

definition earliest_due :: "calibrator list \<Rightarrow> instant" where
  "earliest_due panes = foldl (\<lambda>due s. min due (due_at s)) Never panes"

fun delay_until :: "instant \<Rightarrow> rat \<Rightarrow> rat" where
  "delay_until (At t) now = max 0 (t - now)"
| "delay_until _ now = 0"

definition host_arm :: "rat \<Rightarrow> cal_host \<Rightarrow> cal_host" where
  "host_arm now h =
     (let due = earliest_due (hs_panes h) in
      if hs_closed h \<or> due = Never \<or> hs_armed h \<le> due then h
      else h\<lparr>hs_armed := due, hs_timer := Some (delay_until due now)\<rparr>)"

text \<open>A call on one pane: its \<open>schedule\<close> port is \<open>arm\<close>.\<close>

definition pane_call :: "nat \<Rightarrow> cal_call \<Rightarrow> rat \<Rightarrow> cal_host \<Rightarrow> cal_host" where
  "pane_call i c now h =
     (if i < length (hs_panes h) then
        (let (s', es) = cal_step c (hs_panes h ! i); h1 = h\<lparr>hs_panes := (hs_panes h)[i := s']\<rparr>
         in if list_ex is_schedule es then host_arm now h1 else h1)
      else h)"

fun wake_panes :: "nat list \<Rightarrow> (nat \<Rightarrow> bool \<times> (string + cal_snapshot) \<times> rat \<times> rat) \<Rightarrow> rat \<Rightarrow> cal_host \<Rightarrow> cal_host" where
  "wake_panes [] inputs now h = h"
| "wake_panes (i # is) inputs now h =
     wake_panes is inputs now
       (if due_at (hs_panes h ! i) \<le> At now
        then (case inputs i of (ok, fence, f, t) \<Rightarrow> pane_call i (RunDue now ok fence f t) now h)
        else h)"

definition host_run_due :: "(nat \<Rightarrow> bool \<times> (string + cal_snapshot) \<times> rat \<times> rat) \<Rightarrow> rat \<Rightarrow> rat \<Rightarrow> cal_host \<Rightarrow> cal_host" where
  "host_run_due inputs now now_arm h =
     (let h1 = h\<lparr>hs_timer := None, hs_armed := Never\<rparr> in
      if hs_closed h1 then h1
      else host_arm now_arm (wake_panes [0..<length (hs_panes h1)] inputs now h1))"

definition host_add_pane :: "calibrator \<Rightarrow> rat \<Rightarrow> cal_host \<Rightarrow> cal_host" where
  "host_add_pane s now h = host_arm now (h\<lparr>hs_panes := hs_panes h @ [s]\<rparr>)"

definition host_remove_pane :: "nat \<Rightarrow> cal_host \<Rightarrow> cal_host" where
  "host_remove_pane i h = h\<lparr>hs_panes := take i (hs_panes h) @ drop (Suc i) (hs_panes h)\<rparr>"

datatype host_event =
    PaneCall nat cal_call rat
  | Wake "nat \<Rightarrow> bool \<times> (string + cal_snapshot) \<times> rat \<times> rat" rat rat
  | AddPane calibrator rat
  | RemovePane nat

fun host_step :: "host_event \<Rightarrow> cal_host \<Rightarrow> cal_host" where
  "host_step (PaneCall i c now) h = pane_call i c now h"
| "host_step (Wake inputs now now_arm) h = host_run_due inputs now now_arm h"
| "host_step (AddPane s now) h = host_add_pane s now h"
| "host_step (RemovePane i) h = host_remove_pane i h"

definition new_host :: cal_host where
  "new_host = \<lparr>hs_panes = [], hs_armed = Never, hs_timer = None, hs_closed = False\<rparr>"

definition timer_covers :: "cal_host \<Rightarrow> bool" where
  "timer_covers h \<longleftrightarrow> (\<forall>s \<in> set (hs_panes h). hs_armed h \<le> due_at s) \<and> (hs_armed h \<noteq> Never \<longrightarrow> hs_timer h \<noteq> None)"

lemma earliest_foldl: "foldl (\<lambda>due s. min due (due_at s)) d panes \<le> t \<longleftrightarrow> d \<le> t \<or> (\<exists>s \<in> set panes. due_at s \<le> t)"
  by (induction panes arbitrary: d) (auto simp: min_le_iff_disj)

lemma earliest_due_le: "s \<in> set panes \<Longrightarrow> earliest_due panes \<le> due_at s"
  using earliest_foldl[of Never panes "due_at s"] by (auto simp: earliest_due_def)

lemma host_arm_covers:
  assumes "\<not> hs_closed h" "hs_armed h \<noteq> Never \<Longrightarrow> hs_timer h \<noteq> None"
  shows "timer_covers (host_arm now h)"
proof -
  have le: "earliest_due (hs_panes h) \<le> due_at s" if "s \<in> set (hs_panes h)" for s using earliest_due_le that .
  consider (N) "earliest_due (hs_panes h) = Never" | (A) "hs_armed h \<le> earliest_due (hs_panes h)"
    | (S) "\<not> (earliest_due (hs_panes h) = Never \<or> hs_armed h \<le> earliest_due (hs_panes h))" by blast
  then show ?thesis
  proof cases
    case N
    then have "due_at s = Never" if "s \<in> set (hs_panes h)" for s using le[OF that] by (cases "due_at s") auto
    then show ?thesis using N assms by (simp add: host_arm_def timer_covers_def)
  next
    case A
    then have "hs_armed h \<le> due_at s" if "s \<in> set (hs_panes h)" for s using le[OF that] by (rule order_trans)
    then show ?thesis using A assms by (simp add: host_arm_def timer_covers_def)
  next
    case S
    then show ?thesis using assms le by (simp add: host_arm_def timer_covers_def Let_def)
  qed
qed

lemma host_arm_same [simp]: "hs_panes (host_arm now h) = hs_panes h" "hs_closed (host_arm now h) = hs_closed h"
  by (simp_all add: host_arm_def Let_def)

lemma host_arm_timer: "(hs_armed h \<noteq> Never \<Longrightarrow> hs_timer h \<noteq> None) \<Longrightarrow> hs_armed (host_arm now h) \<noteq> Never \<Longrightarrow> hs_timer (host_arm now h) \<noteq> None"
  by (auto simp: host_arm_def Let_def split: if_splits)

lemma pane_call_same: "hs_closed (pane_call i c now h) = hs_closed h"
  "(hs_armed h \<noteq> Never \<Longrightarrow> hs_timer h \<noteq> None) \<Longrightarrow> hs_armed (pane_call i c now h) \<noteq> Never \<Longrightarrow> hs_timer (pane_call i c now h) \<noteq> None"
  using host_arm_timer[of "h\<lparr>hs_panes := (hs_panes h)[i := fst (cal_step c (hs_panes h ! i))]\<rparr>" now]
  by (auto simp: pane_call_def Let_def split_beta split: if_splits)

lemma pane_call_covers:
  assumes inv: "timer_covers h" "\<not> hs_closed h"
  shows "timer_covers (pane_call i c now h)"
proof (cases "i < length (hs_panes h)")
  case True
  obtain s' es where st: "cal_step c (hs_panes h ! i) = (s', es)" by force
  define h1 where "h1 = h\<lparr>hs_panes := (hs_panes h)[i := s']\<rparr>"
  have eq: "pane_call i c now h = (if list_ex is_schedule es then host_arm now h1 else h1)"
    using True st by (simp add: pane_call_def h1_def)
  show ?thesis
  proof (cases "list_ex is_schedule es")
    case True
    then show ?thesis using host_arm_covers[of h1 now] inv unfolding eq by (simp add: h1_def timer_covers_def)
  next
    case False
    then show ?thesis using calibrators.all_still_covered[OF _ \<open>i < length (hs_panes h)\<close> st False] inv(1)
      unfolding eq h1_def timer_covers_def by simp
  qed
qed (use inv in \<open>simp add: pane_call_def\<close>)

lemma wake_panes_same: "hs_closed (wake_panes is inputs now h) = hs_closed h"
  "(hs_armed h \<noteq> Never \<Longrightarrow> hs_timer h \<noteq> None) \<Longrightarrow> hs_armed (wake_panes is inputs now h) \<noteq> Never \<Longrightarrow>
     hs_timer (wake_panes is inputs now h) \<noteq> None"
proof (induction "is" inputs now h rule: wake_panes.induct)
  case (2 i "is" inputs now h)
  let ?h = "if due_at (hs_panes h ! i) \<le> At now
        then (case inputs i of (ok, fence, f, t) \<Rightarrow> pane_call i (RunDue now ok fence f t) now h) else h"
  have A: "hs_closed ?h = hs_closed h" by (simp add: pane_call_same split: prod.splits)
  have B: "hs_armed ?h \<noteq> Never \<Longrightarrow> hs_timer ?h \<noteq> None" if "hs_armed h \<noteq> Never \<Longrightarrow> hs_timer h \<noteq> None"
    using that pane_call_same(2)[OF that] by (simp split: prod.splits if_splits)
  show "hs_closed (wake_panes (i # is) inputs now h) = hs_closed h" using 2(1) A by simp
  show "hs_timer (wake_panes (i # is) inputs now h) \<noteq> None"
    if "hs_armed h \<noteq> Never \<Longrightarrow> hs_timer h \<noteq> None" "hs_armed (wake_panes (i # is) inputs now h) \<noteq> Never"
    using 2(2)[OF B[OF that(1)]] that(2) by simp
qed simp_all

lemma host_step_covers:
  assumes "timer_covers h" "\<not> hs_closed h"
  shows "timer_covers (host_step e h) \<and> \<not> hs_closed (host_step e h)"
proof (cases e)
  case (PaneCall i c now)
  then show ?thesis using assms pane_call_covers pane_call_same(1) by simp
next
  case (Wake inputs now now_arm)
  let ?h1 = "h\<lparr>hs_timer := None, hs_armed := Never\<rparr>"
  have "hs_armed (wake_panes js inputs now ?h1) \<noteq> Never \<Longrightarrow> hs_timer (wake_panes js inputs now ?h1) \<noteq> None" for js
    using wake_panes_same(2)[of ?h1 js] by simp
  then show ?thesis using Wake assms host_arm_covers wake_panes_same(1) by (simp add: host_run_due_def Let_def)
next
  case (AddPane s now)
  have "hs_armed h \<noteq> Never \<longrightarrow> hs_timer h \<noteq> None" using assms(1) unfolding timer_covers_def by blast
  then show ?thesis using AddPane assms(2) host_arm_covers[of "h\<lparr>hs_panes := hs_panes h @ [s]\<rparr>" now] by (simp add: host_add_pane_def)
next
  case (RemovePane i)
  then show ?thesis using assms by (auto simp: host_remove_pane_def timer_covers_def dest: in_set_takeD in_set_dropD)
qed

text \<open>
  C23: No pane is forgotten by the host's one timer. After any sequence of pane calls and
  resumptions, wakes, added and removed panes, the armed instant is at or before the due time of every pane, and a
  timer runs whenever an instant is armed: a step of a calibrator that makes it due earlier always says so, on every
  path of every method, exceptions included.
\<close>

theorem host_timer_covers: "timer_covers (foldl (\<lambda>h e. host_step e h) new_host hist)"
proof -
  have "timer_covers h \<and> \<not> hs_closed h \<Longrightarrow>
      timer_covers (foldl (\<lambda>h e. host_step e h) h hist) \<and> \<not> hs_closed (foldl (\<lambda>h e. host_step e h) h hist)" for h
    using host_step_covers by (induction hist arbitrary: h) simp_all
  moreover have "timer_covers new_host \<and> \<not> hs_closed new_host" by (simp add: new_host_def timer_covers_def)
  ultimately show ?thesis by blast
qed

section \<open>An open pane is captured again\<close>

lemma calibrates_due: "calibrates s tr \<Longrightarrow> \<not> ca_closed s \<Longrightarrow> \<not> ca_in_flight s \<Longrightarrow> ca_deadline s \<noteq> Never"
proof (induction rule: calibrates.induct)
  case (born pane opts now s es)
  then show ?case using born_state by blast
next
  case (call s tr c s' es)
  from call.hyps(2) show ?case
  proof (cases rule: step_cases)
    case same
    show ?thesis using call.IH call.prems same(2,5,6) by (simp add: deadline_kept_def)
  next
    case (ended c')
    show ?thesis using ended(1) call.prems by (simp add: ends_run_def)
  next
    case (failed c' now)
    show ?thesis using failed(1) call.prems by (simp add: ends_run_def)
  next
    case (started c' snap n now ok fence f t)
    show ?thesis using started(6) call.prems by simp
  next
    case (submitted c' fence snap p ci mc captured f t)
    show ?thesis using submitted(7,9,11) call.prems call.IH by simp
  next
    case (published c' p cm snap ok l f t)
    show ?thesis using published(5) call.prems by (simp add: ends_run_def)
  qed
qed

lemma run_due_captures:
  assumes "\<not> ca_closed s" "\<not> ca_in_flight s" "ca_deadline s \<le> At now"
  shows "list_ex is_capture (snd (run_due now True (Inr snap) f t s))"
proof -
  obtain s1 e1 where r: "release_latch now s = (s1, e1)" by force
  obtain s2 e2 where p: "publish_due now s1 = (s2, e2)" by force
  have D: "At now < ca_deadline s \<longleftrightarrow> False" using assms(3) by (simp add: not_less)
  show ?thesis using assms latch_publish_same[OF r p] r p
    by (simp add: D run_due_def start_capture_def Let_def split_beta is_capture_def not_less)
qed

text \<open>
  C40: An open pane never stalls. In every history of calls, a calibrator that is not closed and has no
  capture in flight has a finite time from which a wake asks tmux for a capture again, and it is due no later than
  that time: neither failed captures, conflicts, exceptions of the ports, lifecycle events nor viewer changes lose
  the next capture.
\<close>

theorem open_pane_never_stalls:
  assumes "calibrates s tr" "\<not> ca_closed s" "\<not> ca_in_flight s"
  shows "\<exists>d. due_at s \<le> At d \<and>
    (\<forall>now snap f t. d \<le> now \<longrightarrow> list_ex is_capture (snd (cal_step (RunDue now True (Inr snap) f t) s)))"
proof -
  obtain d where d: "ca_deadline s \<le> At d" using calibrates_due[OF assms] by (cases "ca_deadline s") auto
  then have "due_at s \<le> At d" using assms(2) by (simp add: due_at_def min_le_iff_disj)
  moreover have "list_ex is_capture (snd (cal_step (RunDue now True (Inr snap) f t) s))" if "d \<le> now" for now snap f t
    using run_due_captures[OF assms(2,3)] order_trans[OF d, of "At now"] that by simp
  ultimately show ?thesis by blast
qed

section \<open>What is submitted\<close>

lemma find_line_at: "find_line i rs l = Some j \<Longrightarrow> i \<le> j \<and> j - i < length rs \<and> hr_line_id (rs ! (j - i)) = l"
  by (induction i rs l rule: find_line.induct) (force split: if_splits simp: nth_Cons')+

lemma last_line_at:
  assumes "last_line recent l = Some i"
  shows "i < length recent \<and> hr_line_id (recent ! i) = l"
proof -
  obtain k where k: "find_line 0 (rev recent) l = Some k" "i = length recent - 1 - k"
    using assms by (auto simp: last_line_def split: option.splits)
  then show ?thesis using find_line_at[OF k(1)] by (auto simp: rev_nth)
qed

lemma fenced_history_prefix:
  "prefix (fenced_history recent before) recent \<and>
   (fenced_history recent before \<noteq> [] \<longrightarrow> fence_line before = Some (hr_line_id (last (fenced_history recent before))))"
proof (cases "fence_line before")
  case (Some l)
  show ?thesis
  proof (cases "last_line recent l")
    case (Some i)
    then have "i < length recent" "hr_line_id (recent ! i) = l" using last_line_at by simp_all
    moreover from this have "last (take (Suc i) recent) = recent ! i" by (simp add: take_Suc_conv_app_nth)
    ultimately show ?thesis using \<open>fence_line before = Some l\<close> Some by (simp add: fenced_history_def take_is_prefix)
  qed (simp add: fenced_history_def \<open>fence_line before = Some l\<close>)
qed (simp add: fenced_history_def)

lemma matcher_match_reports_sound:
  "sound_match recent captured (ms_uncertain scope) (fst (matcher_match mc m recent captured scope))"
  using chain_report full_match_sound by (simp add: matcher_match_def Let_def)

text \<open>
  C8: What a calibration submits is proven. A capture reaches the store only while the pane is open, from this
  pane, with equal metadata before and after, of the history epoch and geometry that held at the fence and still hold,
  with a frame of exactly its size and no lifecycle event since the request. Its history claims are sound against
  the rows the parser had at the fence: the reported rows lie on one offset, equal in content under the certified
  style bits, outside the uncertain rows, and there are no repairs; without a due history capture of the normal
  screen there are no claims at all. The screen claim is quiescent exactly when the
  parser received nothing in between, and the revision is the one read after the capture.
\<close>

theorem submitted_calibration_sound:
  assumes "ca_run s = Some (c, Capturing fence)"
    "cal_step (CaptureDone mc captured (Inr snap) f t) s = (s', es)" "Calibrate ci \<in> set es"
  shows "captured = Inr (ci_capture ci) \<and> \<not> ca_closed s \<and> capture_stable s c fence snap (ci_capture ci) \<and>
    ci_revision ci = sn_revision snap \<and> ci_repairs ci = [] \<and>
    (is_quiescent (ci_evidence ci) \<longleftrightarrow>
       fr_receive_seq (sn_parser_frame fence) = fr_receive_seq (sn_parser_frame snap)) \<and>
    (\<exists>recent reason. prefix recent (sn_recent snap) \<and>
       (recent \<noteq> [] \<longrightarrow> fence_line fence = Some (hr_line_id (last recent))) \<and>
       sound_match recent (certified_history s (ci_capture ci))
         (case cap_uncertain_history (ci_capture ci) of None \<Rightarrow> {} | Some ys \<Rightarrow> set ys)
         \<lparr>rm_checks = ci_checks ci, rm_content = ci_content ci, rm_repairs = ci_repairs ci, rm_reason = reason\<rparr> \<and>
       (\<not> (rc_history_due c \<and> mt_kind (cap_after (ci_capture ci)) = Normal) \<longrightarrow> ci_checks ci = [] \<and> ci_content ci = []))"
proof -
  have run: "capture_done mc captured (Inr snap) f t c fence s = (s', es)" using assms(1,2) by simp
  from run show ?thesis
  proof (cases rule: capture_done_cases)
    case ended
    then show ?thesis using assms(3) quiet_none(2)[OF ended(2)] by blast
  next
    case (submitted cap snap' p ci')
    have ci: "ci' = ci" "snap' = snap" "cap = ci_capture ci" using submitted assms(3) by simp_all
    define recent where "recent = pc_recent p"
    have R: "prefix recent (sn_recent snap)" "recent \<noteq> [] \<longrightarrow> fence_line fence = Some (hr_line_id (last recent))"
      using submitted(23) fenced_history_prefix[of "sn_recent snap" fence] ci by (simp_all add: recent_def)
    have S: "sound_match recent (certified_history s cap)
        (case cap_uncertain_history cap of None \<Rightarrow> {} | Some ys \<Rightarrow> set ys) (pc_match p)"
    proof (cases "pc_matched p")
      case True
      then show ?thesis using submitted(24,25) matcher_match_reports_sound[of recent _ "run_scope snap' recent cap"]
        by (simp add: recent_def run_scope_def)
    next
      case False
      then show ?thesis using submitted(25) by simp
    qed
    then have M: "sound_match recent (certified_history s cap)
        (case cap_uncertain_history cap of None \<Rightarrow> {} | Some ys \<Rightarrow> set ys)
        \<lparr>rm_checks = ci_checks ci, rm_content = ci_content ci, rm_repairs = ci_repairs ci, rm_reason = rm_reason (pc_match p)\<rparr>"
      using submitted(19,20,21) ci by (simp add: sound_match_def)
    have none: "\<not> (rc_history_due c \<and> mt_kind (cap_after cap) = Normal) \<longrightarrow> ci_checks ci = [] \<and> ci_content ci = []"
      using submitted(19,20,22,25) ci by (auto simp: empty_match_def)
    have "ci_repairs ci = []" using M by (simp add: sound_match_def)
    moreover have "is_quiescent (ci_evidence ci) \<longleftrightarrow> fr_receive_seq (sn_parser_frame fence) = fr_receive_seq (sn_parser_frame snap)"
      using submitted(17) ci by (simp add: evidence_of_def is_quiescent_def Let_def)
    ultimately show ?thesis using submitted(1-4,18) R M none ci by blast
  qed
qed

section \<open>Concrete runs\<close>

fun run_calls :: "cal_call list \<Rightarrow> calibrator \<Rightarrow> calibrator \<times> cal_trace" where
  "run_calls [] s = (s, [])"
| "run_calls (c # cs) s =
     (let (s1, es) = cal_step c s; (s2, tr) = run_calls cs s1 in (s2, (c, es) # tr))"

lemma run_calls_calibrates:
  "calibrates s tr \<Longrightarrow> run_calls cs s = (s', tr') \<Longrightarrow> calibrates s' (tr @ tr')"
proof (induction cs arbitrary: s tr s' tr')
  case (Cons c cs)
  obtain s1 es where 1: "cal_step c s = (s1, es)" by force
  obtain s2 tr2 where 2: "run_calls cs s1 = (s2, tr2)" by force
  have "calibrates s2 ((tr @ [(c, es)]) @ tr2)" by (rule Cons.IH[OF calibrates.call[OF Cons.prems(1) 1] 2])
  then show ?case using Cons.prems(2) 1 2 by simp
qed simp

definition demo_pane :: calib_pane where "demo_pane = \<lparr>cpk_server = js ''s'', cpk_pane = js ''%1'', cpk_birth = 1\<rparr>"

definition demo_options :: cal_options where
  "demo_options = \<lparr>co_history_limit = None, co_incremental = True, co_viewers = Some (int_num 1), co_mask = Some (int_num 7)\<rparr>"

definition demo_start :: calibrator where "demo_start = fst (projr (cal_new demo_pane demo_options 0))"

definition demo_frame :: cal_frame where
  "demo_frame = \<lparr>fr_cells = [[\<lparr>hc_grapheme = js ''a'', hc_width = 1, hc_continuation = False, hc_fg = [], hc_bg = [], hc_style = 9\<rparr>]],
     fr_cursor = Some \<lparr>fcu_x = 0, fcu_y = 0, fcu_visible = True\<rparr>, fr_kind = Alternate, fr_geometry = 2, fr_receive_seq = 10\<rparr>"

definition demo_meta :: capture_meta where
  "demo_meta = \<lparr>mt_history_epoch = int_num 3, mt_source_epoch = 3, mt_geometry = 2, mt_cols = 1, mt_rows = 1,
     mt_kind = Alternate, mt_cursor = Some \<lparr>fcu_x = 0, fcu_y = 0, fcu_visible = True\<rparr>\<rparr>"

definition demo_capture :: cal_capture where
  "demo_capture = \<lparr>cap_pane = demo_pane, cap_id = js ''c1'', cap_before = demo_meta, cap_after = demo_meta,
     cap_frame = demo_frame, cap_history = [], cap_complete = True, cap_uncertain_history = None, cap_uncertain_screen = None\<rparr>"

definition demo_snapshot :: "int \<Rightarrow> cal_snapshot" where
  "demo_snapshot n = \<lparr>sn_revision = n, sn_source_epoch = 3, sn_geometry = 2, sn_recent = [],
     sn_parser_frame = demo_frame, sn_recent_last = Some None\<rparr>"

definition demo_commit :: cal_commit where
  "demo_commit = \<lparr>cc_revision = 8, cc_durable_revision = 8, cc_next_line = 1\<rparr>"

definition demo_memo :: memo_choice where
  "demo_memo = \<lparr>mc_recent = (\<lambda>_. True), mc_captured = (\<lambda>_. True), mc_probe = (\<lambda>_. 0)\<rparr>"

definition demo_calls :: "cal_call list" where
  "demo_calls =
     [RunDue 0 True (Inr (demo_snapshot 7)) 0 0,
      CaptureDone demo_memo (Inr demo_capture) (Inr (demo_snapshot 7)) 0 40,
      CommitDone (Inr (Some demo_commit)) (Inr (demo_snapshot 8)) True 41 41 41]"

definition demo_late_calls :: "cal_call list" where
  "demo_late_calls =
     [RunDue 0 True (Inr (demo_snapshot 7)) 0 0, CaptureDone demo_memo (Inl ''killed'') (Inr (demo_snapshot 7)) 1 1,
      RunDue 240 True (Inr (demo_snapshot 7)) 240 240, CaptureDone demo_memo (Inl ''killed'') (Inr (demo_snapshot 7)) 241 241,
      Event 242 242, RunDue 242 True (Inr (demo_snapshot 7)) 242 242]"

lemma demo_born: "calibrates demo_start []"
proof -
  have "cal_new demo_pane demo_options 0 = Inr (projr (cal_new demo_pane demo_options 0))" by code_simp
  then show ?thesis by (intro calibrates.born[of demo_pane demo_options 0 _ "snd (projr (cal_new demo_pane demo_options 0))"]) (simp add: demo_start_def)
qed

lemma demo_calibrates: "calibrates (fst (run_calls cs demo_start)) (snd (run_calls cs demo_start))"
  using run_calls_calibrates[OF demo_born, of cs "fst (run_calls cs demo_start)" "snd (run_calls cs demo_start)"] by simp

lemma demo_published:
  "2 < length (snd (run_calls demo_calls demo_start)) \<and>
   Publish demo_commit demo_frame \<in> set (snd (snd (run_calls demo_calls demo_start) ! 2))"
  by code_simp

text \<open>A late wake and a lifecycle event start two captures 2 ms apart.\<close>

lemma demo_late: "capture_starts (snd (run_calls demo_late_calls demo_start)) = [0, 240, 242]"
  by code_simp

lemma published_frame_was_committed_witness:
  "let tr = snd (run_calls demo_calls demo_start) in
   \<exists>k j n ci e g b u snap ok l x t.
    k < j \<and> j < 2 \<and> Capture n \<in> set (snd (tr ! k)) \<and> Calibrate ci \<in> set (snd (tr ! j)) \<and>
    cap_frame (ci_capture ci) = demo_frame \<and> ci_evidence ci = Quiescent e g b b u \<and>
    fst (tr ! 2) = CommitDone (Inr (Some demo_commit)) (Inr snap) ok l x t \<and>
    sn_revision snap = cc_revision demo_commit \<and> fr_receive_seq (sn_parser_frame snap) = b \<and>
    (\<forall>m. k < m \<and> m \<le> 2 \<longrightarrow> \<not> is_event (fst (tr ! m))) \<and> (\<forall>m \<le> 2. fst (tr ! m) \<noteq> Close)"
  unfolding Let_def
  by (rule published_frame_was_committed[OF demo_calibrates demo_published[THEN conjunct1] demo_published[THEN conjunct2]])

lemma captures_spaced_witness:
  "let xs = capture_starts (snd (run_calls demo_late_calls demo_start)) in xs ! 0 + 50 * of_nat (2 - 0) < xs ! 2 + 200"
  unfolding Let_def by (rule captures_spaced[OF demo_calibrates]) (simp_all add: demo_late)

lemma open_pane_never_stalls_witness:
  "\<exists>d. due_at demo_start \<le> At d \<and>
    (\<forall>now snap f t. d \<le> now \<longrightarrow> list_ex is_capture (snd (cal_step (RunDue now True (Inr snap) f t) demo_start)))"
proof -
  have "\<not> ca_closed demo_start" "\<not> ca_in_flight demo_start" by code_simp+
  then show ?thesis by (rule open_pane_never_stalls[OF demo_born])
qed

definition demo_context :: run_context where
  "demo_context = \<lparr>rc_now = 0, rc_anchor = 0, rc_generation = 0, rc_history_due = True, rc_scrolls = 0\<rparr>"

definition demo_capturing :: calibrator where
  "demo_capturing = fst (run_calls (take 1 demo_calls) demo_start)"

lemma submitted_calibration_sound_witness:
  "\<exists>ci :: cal_input. ci_capture ci = demo_capture \<and> \<not> ca_closed demo_capturing \<and>
     capture_stable demo_capturing demo_context (demo_snapshot 7) (demo_snapshot 7) (ci_capture ci) \<and>
     ci_repairs ci = [] \<and> is_quiescent (ci_evidence ci)"
proof -
  define r where "r = cal_step (demo_calls ! 1) demo_capturing"
  have run: "ca_run demo_capturing = Some (demo_context, Capturing (demo_snapshot 7))" by code_simp
  have "list_ex (\<lambda>e. case e of Calibrate _ \<Rightarrow> True | _ \<Rightarrow> False) (snd (cal_step (demo_calls ! 1) demo_capturing))" by code_simp
  then obtain e where "e \<in> set (snd r)" "case e of Calibrate _ \<Rightarrow> True | _ \<Rightarrow> False" by (auto simp: list_ex_iff r_def)
  then obtain ci where ci: "Calibrate ci \<in> set (snd r)" by (cases e rule: cal_effect.exhaust) simp_all
  have step: "cal_step (CaptureDone demo_memo (Inr demo_capture) (Inr (demo_snapshot 7)) 0 40) demo_capturing = (fst r, snd r)"
    by (simp add: r_def demo_calls_def)
  note S = submitted_calibration_sound[OF run step ci]
  then have same: "ci_capture ci = demo_capture" by simp
  show ?thesis by (rule exI[of _ ci]) (use S in \<open>simp add: same\<close>)
qed

text \<open>
  A request that falls due while a capture is in flight keeps the host's timer spinning: a wake finds the
  pane due, changes nothing, and arms the timer for a time already past.
\<close>

lemma waiting_pane_spins:
  assumes "\<not> ca_closed s" "ca_in_flight s" "ca_latch s = None" "ca_deadline s \<le> At now" "At now < ca_next_pipe s"
    "hs_panes h = [s]" "\<not> hs_closed h"
  shows "hs_panes (host_run_due inputs now now h) = [s] \<and>
    hs_armed (host_run_due inputs now now h) = ca_deadline s \<and> hs_timer (host_run_due inputs now now h) = Some 0"
proof -
  have due: "due_at s = ca_deadline s" using assms(1,4,5) by (auto simp: due_at_def min_def)
  have run: "run_due now ok fence f t s = (s, [])" for ok fence f t
    using assms(1,2,3,5) by (simp add: run_due_def release_latch_def publish_due_def not_le[symmetric])
  let ?h = "h\<lparr>hs_timer := None, hs_armed := Never\<rparr>"
  have call: "pane_call 0 (RunDue now ok fence f t) now ?h = ?h" for ok fence f t
    using assms(6) by (simp add: pane_call_def run)
  have "wake_panes [0..<length (hs_panes ?h)] inputs now ?h = ?h"
    using assms(6) by (cases "inputs 0") (simp add: call)
  then have W: "host_run_due inputs now now h = host_arm now ?h" using assms(7) by (simp add: host_run_due_def Let_def)
  have e: "earliest_due (hs_panes ?h) = ca_deadline s" using assms(6) due by (simp add: earliest_due_def min_absorb2)
  have "ca_deadline s \<noteq> Never" "delay_until (ca_deadline s) now = 0" using assms(4) by (cases "ca_deadline s"; simp)+
  then show ?thesis using e assms(6,7) unfolding W host_arm_def Let_def by (cases "ca_deadline s") simp_all
qed

end
