(* ===== verification/Mux_Output.thy ===== *)
theory Mux_Output
  imports Mux_Protocol Retention_Lane
begin

text \<open>
  The output fan-out of one session in \<open>server/src/ws-mux.ts\<close>: what each viewer is sent when the content of the
  pane, its cursor, screen, seam or projection changes, with delta bases per viewer, pending full and reset markers,
  grouping of viewers that get the same bytes, and backpressure. Sockets are numbers; what a socket answers to
  a send, how much it has buffered and the clock are arguments of an operation. Arrays that are compared by identity
  (delta bases) carry a number from a counter. Hooks, the session list, renaming a session and
  the shutdown of an owned mux are left out.
\<close>

section \<open>Viewers and the session\<close>

type_synonym out_base = "nat \<times> jstr list"

record viewer =
  vw_tail :: "nat option"
  vw_delta :: bool
  vw_base :: "out_base option"
  vw_full :: bool
  vw_reset :: "reset_kind option"
  vw_blocked :: "rat option"
  vw_shed :: bool

definition new_viewer :: viewer where
  "new_viewer = \<lparr>vw_tail = None, vw_delta = False, vw_base = None, vw_full = False, vw_reset = None,
     vw_blocked = None, vw_shed = False\<rparr>"

text \<open>A field of a per-session map: outer \<open>None\<close> is no entry, inner \<open>None\<close> a stored null.\<close>

record out_session =
  ou_channel :: jstr
  ou_viewers :: "nat list"
  ou_view :: "nat \<Rightarrow> viewer"
  ou_content :: "jstr option"
  ou_hash :: "jstr option"
  ou_cursor :: "mux_cursor option option"
  ou_screen :: "pane_screen option option"
  ou_boundary :: "history_boundary option"
  ou_newarch :: "frame_meta option"
  ou_reflow :: bool
  ou_fresh :: nat

definition put_view :: "nat \<Rightarrow> viewer \<Rightarrow> out_session \<Rightarrow> out_session" where
  "put_view ws v s = s\<lparr>ou_view := (ou_view s)(ws := v)\<rparr>"

datatype send_status = Handed | Queued | Dropped | Threw

record out_env =
  oe_enabled :: bool
  oe_max_buffered :: rat
  oe_max_blocked :: rat
  oe_now :: rat
  oe_buffered :: "nat \<Rightarrow> rat option"
  oe_status :: "nat \<Rightarrow> send_status"

datatype out_effect =
    SendFrame nat output_frame
  | SendCursor nat "mux_cursor option"
  | CloseSlow nat

definition close_effect :: "nat \<Rightarrow> viewer \<Rightarrow> viewer \<Rightarrow> out_effect list" where
  "close_effect ws v v' = (if \<not> vw_shed v \<and> vw_shed v' then [CloseSlow ws] else [])"

section \<open>Backpressure\<close>

definition shed_socket :: "viewer \<Rightarrow> viewer" where
  "shed_socket v = (if vw_shed v then v else v\<lparr>vw_shed := True, vw_blocked := None\<rparr>)"

definition maybe_shed :: "out_env \<Rightarrow> nat \<Rightarrow> viewer \<Rightarrow> bool \<times> viewer" where
  "maybe_shed env ws v =
     (if \<not> oe_enabled env then (False, v)
      else if vw_shed v then (True, v)
      else if (case oe_buffered env ws of Some b \<Rightarrow> oe_max_buffered env < b | None \<Rightarrow> False) then (True, shed_socket v)
      else (case vw_blocked v of
              Some since \<Rightarrow> if oe_max_blocked env \<le> oe_now env - since then (True, shed_socket v) else (False, v)
            | None \<Rightarrow> (False, v)))"

definition mark_blocked :: "out_env \<Rightarrow> nat \<Rightarrow> viewer \<Rightarrow> viewer" where
  "mark_blocked env ws v =
     (if \<not> oe_enabled env \<or> vw_shed v then v
      else snd (maybe_shed env ws (if vw_blocked v = None then v\<lparr>vw_blocked := Some (oe_now env)\<rparr> else v)))"

definition should_skip :: "out_env \<Rightarrow> nat \<Rightarrow> viewer \<Rightarrow> bool \<times> viewer" where
  "should_skip env ws v =
     (if \<not> oe_enabled env then (False, v)
      else if vw_shed v then (True, v)
      else if vw_blocked v = None then (False, v)
      else
        (let (gone, v1) = maybe_shed env ws v in
         if gone then (True, v1)
         else if oe_buffered env ws = Some 0 then (False, v1\<lparr>vw_blocked := None\<rparr>)
         else (True, v1)))"

definition blocked_timeout :: "nat \<Rightarrow> out_session \<Rightarrow> out_session \<times> out_effect list" where
  "blocked_timeout ws s =
     (let v = ou_view s ws in
      if vw_shed v \<or> vw_blocked v = None then (s, [])
      else (put_view ws (shed_socket v) s, [CloseSlow ws]))"

section \<open>What a viewer sees of the content\<close>

definition content_for :: "nat option \<Rightarrow> jstr \<Rightarrow> jstr" where
  "content_for tail content =
     (case tail of
        None \<Rightarrow> content
      | Some n \<Rightarrow>
          if n = 0 then content
          else (let kept = drop_blank_tail (split_units newline content) in
                if kept = [] then [] else join_units newline (drop (length kept - n) kept)))"

definition full_output :: "out_session \<Rightarrow> jstr \<Rightarrow> mux_cursor option \<Rightarrow> reset_kind option \<Rightarrow> full_frame" where
  "full_output s data cursor reset =
     \<lparr>ff_channel = ou_channel s, ff_data = data, ff_cursor = Some cursor, ff_screen = ou_screen s,
      ff_boundary = ou_boundary s, ff_reset = reset, ff_newarch = ou_newarch s\<rparr>"

definition group_output :: "out_session \<Rightarrow> jstr \<Rightarrow> mux_cursor option \<Rightarrow> reset_kind option \<Rightarrow> out_base option \<Rightarrow> output_frame" where
  "group_output s data cursor reset base =
     (let frame = full_output s data cursor reset in
      case base of None \<Rightarrow> Full frame | Some b \<Rightarrow> choose_mux_output_frame frame (snd b))"

section \<open>Grouped sending\<close>

record send_group =
  sg_tail :: "nat option"
  sg_reset :: "reset_kind option"
  sg_base :: "out_base option"
  sg_sockets :: "nat list"

fun join_group :: "(send_group \<Rightarrow> bool) \<Rightarrow> send_group \<Rightarrow> nat \<Rightarrow> send_group list \<Rightarrow> send_group list" where
  "join_group same g ws [] = [g\<lparr>sg_sockets := [ws]\<rparr>]"
| "join_group same g ws (h # hs) =
     (if same h then h\<lparr>sg_sockets := sg_sockets h @ [ws]\<rparr> # hs else h # join_group same g ws hs)"

fun join_tail ::
  "nat option \<Rightarrow> (send_group list \<Rightarrow> send_group list) \<Rightarrow> (nat option \<times> send_group list) list \<Rightarrow>
   (nat option \<times> send_group list) list" where
  "join_tail tail f [] = [(tail, f [])]"
| "join_tail tail f ((t, gs) # rest) = (if t = tail then (t, f gs) # rest else (t, gs) # join_tail tail f rest)"

definition same_base :: "out_base option \<Rightarrow> out_base option \<Rightarrow> bool" where
  "same_base a b = (map_option fst a = map_option fst b)"

type_synonym groups = "send_group list \<times> (nat option \<times> send_group list) list"

definition use_delta :: "viewer \<Rightarrow> bool" where
  "use_delta v \<longleftrightarrow> vw_delta v \<and> \<not> (vw_reset v \<noteq> None \<or> vw_full v) \<and> vw_base v \<noteq> None"

definition add_viewer :: "bool \<Rightarrow> nat \<Rightarrow> viewer \<Rightarrow> groups \<Rightarrow> groups" where
  "add_viewer fixed ws v gs =
     (let tail = (if fixed then None else vw_tail v) in
      if \<not> use_delta v
      then (join_group (\<lambda>g. sg_tail g = tail \<and> sg_reset g = vw_reset v)
              \<lparr>sg_tail = tail, sg_reset = vw_reset v, sg_base = None, sg_sockets = []\<rparr> ws (fst gs), snd gs)
      else (fst gs, join_tail tail
              (join_group (\<lambda>g. same_base (sg_base g) (vw_base v))
                 \<lparr>sg_tail = tail, sg_reset = None, sg_base = vw_base v, sg_sockets = []\<rparr> ws) (snd gs)))"

fun gather ::
  "out_env \<Rightarrow> bool \<Rightarrow> bool \<Rightarrow> nat list \<Rightarrow> out_session \<Rightarrow> groups \<Rightarrow> out_session \<times> groups \<times> out_effect list" where
  "gather env only fixed [] s gs = (s, gs, [])"
| "gather env only fixed (ws # wss) s gs =
     (let v = ou_view s ws in
      if only \<and> vw_reset v = None \<and> \<not> vw_full v then gather env only fixed wss s gs
      else
        (let (skip, v1) = should_skip env ws v; e = close_effect ws v v1 in
         if skip then
           (let (s', gs', es) = gather env only fixed wss
                  (put_view ws (if vw_shed v1 then v1 else v1\<lparr>vw_full := True\<rparr>) s) gs
            in (s', gs', e @ es))
         else
           (let (s', gs', es) = gather env only fixed wss (put_view ws v1 s) (add_viewer fixed ws v1 gs)
            in (s', gs', e @ es))))"

text \<open>One socket of a group: \<open>memo\<close> keeps the next base shared by every viewer that received the same data.\<close>

type_synonym base_memo = "(jstr \<times> out_base) list"

definition next_base :: "jstr \<Rightarrow> base_memo \<Rightarrow> nat \<Rightarrow> out_base \<times> base_memo \<times> nat" where
  "next_base data memo fresh =
     (case map_of memo data of
        Some b \<Rightarrow> (b, memo, fresh)
      | None \<Rightarrow> (let b = (fresh, split_mux_output_data data) in (b, (data, b) # memo, Suc fresh)))"

definition flush_socket ::
  "out_env \<Rightarrow> jstr \<Rightarrow> output_frame \<Rightarrow> nat \<Rightarrow> out_session \<times> base_memo \<Rightarrow> (out_session \<times> base_memo) \<times> out_effect list" where
  "flush_socket env data output ws st =
     (let (s, memo) = st; v = ou_view s ws; status = oe_status env ws in
      if status = Dropped \<or> status = Threw then ((put_view ws (v\<lparr>vw_full := True\<rparr>) s, memo), [])
      else
        (let v1 = (if status = Queued then mark_blocked env ws v else v);
             (base, memo1, fresh1) =
               (if vw_delta v1
                then (let (b, m, f) = next_base data memo (ou_fresh s) in (Some b, m, f))
                else (vw_base v1, memo, ou_fresh s))
         in ((put_view ws (v1\<lparr>vw_base := base, vw_full := False, vw_reset := None\<rparr>) (s\<lparr>ou_fresh := fresh1\<rparr>), memo1),
             SendFrame ws output # close_effect ws v v1)))"

fun flush_sockets ::
  "out_env \<Rightarrow> jstr \<Rightarrow> output_frame \<Rightarrow> nat list \<Rightarrow> out_session \<times> base_memo \<Rightarrow> (out_session \<times> base_memo) \<times> out_effect list" where
  "flush_sockets env data output [] st = (st, [])"
| "flush_sockets env data output (ws # wss) st =
     (let (st1, e1) = flush_socket env data output ws st; (st2, e2) = flush_sockets env data output wss st1
      in (st2, e1 @ e2))"

fun flush_groups ::
  "out_env \<Rightarrow> jstr \<Rightarrow> mux_cursor option \<Rightarrow> bool \<Rightarrow> send_group list \<Rightarrow> out_session \<times> base_memo \<Rightarrow>
   (out_session \<times> base_memo) \<times> out_effect list" where
  "flush_groups env content cursor fixed [] st = (st, [])"
| "flush_groups env content cursor fixed (g # gs) st =
     (let data = (if fixed then content else content_for (sg_tail g) content);
          output = group_output (fst st) data cursor (sg_reset g) (sg_base g);
          (st1, e1) = flush_sockets env data output (sg_sockets g) st;
          (st2, e2) = flush_groups env content cursor fixed gs st1
      in (st2, e1 @ e2))"

definition send_grouped ::
  "out_env \<Rightarrow> bool \<Rightarrow> bool \<Rightarrow> nat list \<Rightarrow> jstr \<Rightarrow> mux_cursor option \<Rightarrow> out_session \<Rightarrow> out_session \<times> out_effect list" where
  "send_grouped env only fixed viewers content cursor s =
     (let (s1, gs, e1) = gather env only fixed viewers s ([], []);
          ((s2, _), e2) = flush_groups env content cursor fixed (fst gs @ concat (map snd (snd gs))) (s1, [])
      in (s2, e1 @ e2))"

definition send_output ::
  "out_env \<Rightarrow> nat \<Rightarrow> jstr \<Rightarrow> mux_cursor option \<Rightarrow> out_session \<Rightarrow> out_session \<times> out_effect list" where
  "send_output env ws data cursor s = send_grouped env False True [ws] data cursor s"

definition send_cursor ::
  "out_env \<Rightarrow> mux_cursor option \<Rightarrow> nat \<Rightarrow> out_session \<Rightarrow> out_session \<times> out_effect list" where
  "send_cursor env cursor ws s =
     (let v = ou_view s ws; (skip, v1) = should_skip env ws v; e = close_effect ws v v1 in
      if skip then (put_view ws (if vw_shed v1 then v1 else v1\<lparr>vw_full := True\<rparr>) s, e)
      else if oe_status env ws = Dropped \<or> oe_status env ws = Threw then (put_view ws (v1\<lparr>vw_full := True\<rparr>) s, e)
      else
        (let v2 = (if oe_status env ws = Queued then mark_blocked env ws v1 else v1)
         in (put_view ws v2 s, e @ SendCursor ws cursor # close_effect ws v1 v2)))"

fun for_viewers ::
  "(nat \<Rightarrow> out_session \<Rightarrow> out_session \<times> out_effect list) \<Rightarrow> nat list \<Rightarrow> out_session \<Rightarrow> out_session \<times> out_effect list" where
  "for_viewers f [] s = (s, [])"
| "for_viewers f (ws # wss) s = (let (s1, e1) = f ws s; (s2, e2) = for_viewers f wss s1 in (s2, e1 @ e2))"

section \<open>Operations of the session\<close>

definition require_full :: "nat \<Rightarrow> out_session \<Rightarrow> out_session" where
  "require_full ws s = put_view ws ((ou_view s ws)\<lparr>vw_full := True\<rparr>) s"

definition require_reset :: "reset_kind \<Rightarrow> nat \<Rightarrow> out_session \<Rightarrow> out_session" where
  "require_reset reset ws s = put_view ws ((ou_view s ws)\<lparr>vw_base := None, vw_reset := Some reset\<rparr>) s"

definition pending_frame :: "viewer \<Rightarrow> bool" where
  "pending_frame v \<longleftrightarrow> vw_full v \<or> vw_reset v \<noteq> None"

text \<open>The cached screen of the session, for one viewer.\<close>

definition send_cached :: "out_env \<Rightarrow> nat \<Rightarrow> out_session \<Rightarrow> out_session \<times> out_effect list" where
  "send_cached env ws s =
     (case ou_content s of
        None \<Rightarrow> (s, [])
      | Some content \<Rightarrow>
          send_output env ws (content_for (vw_tail (ou_view s ws)) content)
            (case ou_cursor s of None \<Rightarrow> None | Some c \<Rightarrow> c) s)"

definition viewer_tail :: "rat option \<Rightarrow> nat option" where
  "viewer_tail tail = (case tail of Some t \<Rightarrow> if 0 < t then Some (nat \<lfloor>t\<rfloor>) else None | None \<Rightarrow> None)"

definition out_subscribe :: "out_env \<Rightarrow> nat \<Rightarrow> rat option \<Rightarrow> bool \<Rightarrow> out_session \<Rightarrow> out_session \<times> out_effect list" where
  "out_subscribe env ws tail delta s =
     (let s1 = s\<lparr>ou_viewers := (if ws \<in> set (ou_viewers s) then ou_viewers s else ou_viewers s @ [ws])\<rparr>;
          s2 = put_view ws ((ou_view s1 ws)\<lparr>vw_tail := viewer_tail tail, vw_delta := delta, vw_base := None, vw_full := True\<rparr>) s1
      in if ou_reflow s2 then (require_reset ResetResize ws s2, []) else send_cached env ws s2)"

definition forget_viewer :: "viewer \<Rightarrow> viewer" where
  "forget_viewer v = v\<lparr>vw_tail := None, vw_delta := False, vw_base := None, vw_full := False, vw_reset := None\<rparr>"

definition drop_session :: "out_session \<Rightarrow> out_session" where
  "drop_session s =
     s\<lparr>ou_viewers := [], ou_view := (\<lambda>ws. forget_viewer (ou_view s ws)), ou_content := None, ou_hash := None,
       ou_cursor := None, ou_screen := None, ou_boundary := None, ou_newarch := None, ou_reflow := False\<rparr>"

definition out_unsubscribe :: "nat \<Rightarrow> out_session \<Rightarrow> out_session" where
  "out_unsubscribe ws s =
     (let s1 = (put_view ws (forget_viewer (ou_view s ws)) s)\<lparr>ou_viewers := removeAll ws (ou_viewers s)\<rparr>
      in if ws \<in> set (ou_viewers s) \<and> ou_viewers s1 = [] then drop_session s1 else s1)"

definition out_resync :: "out_env \<Rightarrow> nat \<Rightarrow> out_session \<Rightarrow> out_session \<times> out_effect list" where
  "out_resync env ws s = send_cached env ws (require_reset ResetResync ws s)"

definition out_drain :: "out_env \<Rightarrow> nat \<Rightarrow> out_session \<Rightarrow> out_session \<times> out_effect list" where
  "out_drain env ws s =
     (let v = ou_view s ws in
      if vw_shed v \<or> vw_blocked v = None then (s, [])
      else
        (let s1 = put_view ws (v\<lparr>vw_blocked := None\<rparr>) s in
         if ws \<in> set (ou_viewers s1) \<and> pending_frame v then send_cached env ws s1 else (s1, [])))"

definition reset_all :: "reset_kind \<Rightarrow> out_session \<Rightarrow> out_session" where
  "reset_all reset s = foldl (\<lambda>s ws. require_reset reset ws s) s (ou_viewers s)"

definition drop_bases :: "out_session \<Rightarrow> out_session" where
  "drop_bases s = s\<lparr>ou_view := (\<lambda>ws. (ou_view s ws)\<lparr>vw_base := None\<rparr>)\<rparr>"

definition reset_session_output :: "out_session \<Rightarrow> out_session" where
  "reset_session_output s =
     (if ou_viewers s = [] then s
      else reset_all ResetResync
        (s\<lparr>ou_content := None, ou_hash := None, ou_cursor := None, ou_screen := None, ou_boundary := None, ou_newarch := None\<rparr>))"

text \<open>An accepted resize: every viewer needs the reflowed capture, marked as one.\<close>

definition out_resized :: "out_session \<Rightarrow> out_session" where
  "out_resized s = (reset_all ResetResize (drop_bases s))\<lparr>ou_reflow := True\<rparr>"

section \<open>Publishing a capture\<close>

text \<open>The cursor of a capture, anchored to its last content row; it may lie below it.\<close>

record raw_cursor =
  rw_visible :: bool
  rw_x :: int
  rw_y :: int
  rw_pane_height :: int

definition map_raw_cursor :: "raw_cursor option \<Rightarrow> int \<Rightarrow> mux_cursor option" where
  "map_raw_cursor raw trailing_blanks =
     (case raw of
        None \<Rightarrow> None
      | Some r \<Rightarrow>
          if \<not> rw_visible r then None
          else Some \<lparr>mc_row = rw_pane_height r - 1 - trailing_blanks - rw_y r, mc_col = max 0 (rw_x r)\<rparr>)"

definition flat :: "'a option option \<Rightarrow> 'a option" where
  "flat x = (case x of None \<Rightarrow> None | Some y \<Rightarrow> y)"

definition boundary_eq :: "history_boundary option \<Rightarrow> history_boundary option \<Rightarrow> bool" where
  "boundary_eq a b =
     (case (a, b) of (Some x, Some y) \<Rightarrow> mux_history_boundary_transition x y = Same | _ \<Rightarrow> a = None \<and> b = None)"

text \<open>
  What a driver that samples content and cursor in one call delivers: \<open>None\<close> for a field it did not sample.
\<close>

record capture_sample =
  cs_content :: jstr
  cs_cursor :: "mux_cursor option option"
  cs_screen :: "pane_screen option option"
  cs_boundary :: "history_boundary option"
  cs_reflowed :: bool

definition sent_to :: "out_env \<Rightarrow> jstr \<Rightarrow> mux_cursor option \<Rightarrow> nat \<Rightarrow> out_session \<Rightarrow> out_session \<times> out_effect list" where
  "sent_to env content cursor ws s = send_output env ws (content_for (vw_tail (ou_view s ws)) content) cursor s"

definition cursor_moved :: "capture_sample \<Rightarrow> out_session \<Rightarrow> bool" where
  "cursor_moved c s \<longleftrightarrow> cs_cursor c \<noteq> None \<and> flat (cs_cursor c) \<noteq> flat (ou_cursor s)"

definition screen_moved :: "capture_sample \<Rightarrow> out_session \<Rightarrow> bool" where
  "screen_moved c s \<longleftrightarrow> cs_screen c \<noteq> None \<and> flat (cs_screen c) \<noteq> flat (ou_screen s)"

definition boundary_moved :: "capture_sample \<Rightarrow> out_session \<Rightarrow> bool" where
  "boundary_moved c s \<longleftrightarrow> cs_boundary c \<noteq> None \<and> \<not> boundary_eq (ou_boundary s) (cs_boundary c)"

definition sampled_cursor :: "capture_sample \<Rightarrow> out_session \<Rightarrow> mux_cursor option" where
  "sampled_cursor c s = (case cs_cursor c of Some x \<Rightarrow> x | None \<Rightarrow> flat (ou_cursor s))"

text \<open>Remembering what was sampled beside unchanged content.\<close>

definition sampled_same :: "capture_sample \<Rightarrow> out_session \<Rightarrow> out_session" where
  "sampled_same c s =
     s\<lparr>ou_boundary := (if cs_boundary c = None then ou_boundary s else cs_boundary c),
       ou_cursor := (if cursor_moved c s then cs_cursor c else ou_cursor s),
       ou_screen := (if screen_moved c s then cs_screen c else ou_screen s)\<rparr>"

definition publish_same :: "out_env \<Rightarrow> capture_sample \<Rightarrow> out_session \<Rightarrow> out_session \<times> out_effect list" where
  "publish_same env c s =
     (let s1 = sampled_same c s;
          content = cs_content c; cursor = sampled_cursor c s;
          others = filter (\<lambda>ws. \<not> pending_frame (ou_view s ws)) (ou_viewers s)
      in if filter (\<lambda>ws. pending_frame (ou_view s ws)) (ou_viewers s) \<noteq> [] then
           (let (s2, e2) = send_grouped env True False (ou_viewers s1) content cursor s1;
                (s3, e3) = (if screen_moved c s \<or> boundary_moved c s then for_viewers (sent_to env content cursor) others s2
                            else if cursor_moved c s then for_viewers (send_cursor env (flat (cs_cursor c))) others s2
                            else (s2, []))
            in (s3, e2 @ e3))
         else if screen_moved c s \<or> boundary_moved c s then send_grouped env False False (ou_viewers s1) content cursor s1
         else if cursor_moved c s then for_viewers (send_cursor env (flat (cs_cursor c))) (ou_viewers s1) s1
         else (s1, []))"

definition publish_changed :: "out_env \<Rightarrow> capture_sample \<Rightarrow> out_session \<Rightarrow> out_session \<times> out_effect list" where
  "publish_changed env c s =
     (let cursor = flat (cs_cursor c);
          s1 = s\<lparr>ou_boundary := (if cs_boundary c = None then ou_boundary s else cs_boundary c),
                 ou_cursor := Some cursor,
                 ou_screen := (if cs_screen c = None then ou_screen s else cs_screen c)\<rparr>
      in send_grouped env False False (ou_viewers s1) (cs_content c) cursor s1)"

definition publish_capture :: "(jstr \<Rightarrow> jstr) \<Rightarrow> out_env \<Rightarrow> capture_sample \<Rightarrow> out_session \<Rightarrow> out_session \<times> out_effect list" where
  "publish_capture hash env c s =
     (let s1 = s\<lparr>ou_reflow := ou_reflow s \<and> \<not> cs_reflowed c, ou_content := Some (cs_content c)\<rparr> in
      if ou_hash s1 = Some (hash (cs_content c)) then publish_same env c s1
      else publish_changed env c (s1\<lparr>ou_hash := Some (hash (cs_content c))\<rparr>))"

section \<open>Publishing a projection\<close>

record projection_snapshot =
  pj_content :: jstr
  pj_cursor :: "mux_cursor option"
  pj_screen :: "pane_screen option"
  pj_boundary :: history_boundary
  pj_newarch :: frame_meta

definition frame_lineage :: "frame_meta \<Rightarrow> int \<times> int \<times> int \<times> int \<times> jstr \<times> jstr" where
  "frame_lineage m =
     (nm_source_epoch m, nm_geometry_generation m, nm_route_generation m, nm_live_start m, pk_pane (nm_pane m), pk_server (nm_pane m))"

definition require_full_all :: "out_session \<Rightarrow> out_session" where
  "require_full_all s = foldl (\<lambda>s ws. require_full ws s) s (ou_viewers s)"

definition metadata_moved :: "frame_meta option \<Rightarrow> frame_meta \<Rightarrow> bool" where
  "metadata_moved previous m =
     (case previous of
        None \<Rightarrow> True
      | Some p \<Rightarrow> metadata_revision p \<noteq> metadata_revision m \<or> nm_degraded p \<noteq> nm_degraded m \<or> nm_markers p \<noteq> nm_markers m)"

definition relineaged :: "frame_meta \<Rightarrow> out_session \<Rightarrow> out_session" where
  "relineaged m s =
     (case ou_newarch s of
        Some q \<Rightarrow> if frame_lineage q \<noteq> frame_lineage m then require_full_all (drop_bases s) else s
      | None \<Rightarrow> s)"

definition projected_session :: "projection_snapshot \<Rightarrow> out_session \<Rightarrow> out_session" where
  "projected_session p s =
     (relineaged (pj_newarch p) (s\<lparr>ou_reflow := False\<rparr>))
       \<lparr>ou_newarch := Some (pj_newarch p), ou_content := Some (pj_content p), ou_boundary := Some (pj_boundary p),
        ou_screen := Some (pj_screen p), ou_cursor := Some (pj_cursor p)\<rparr>"

definition broadcast_projected ::
  "(jstr \<Rightarrow> jstr) \<Rightarrow> out_env \<Rightarrow> projection_snapshot \<Rightarrow> out_session \<Rightarrow> out_session \<times> out_effect list" where
  "broadcast_projected hash env p s =
     (let s1 = projected_session p s in
      if ou_hash s = Some (hash (pj_content p)) \<and> pj_screen p = flat (ou_screen s) \<and> \<not> metadata_moved (ou_newarch s) (pj_newarch p) then
           (if list_ex (\<lambda>ws. pending_frame (ou_view s1 ws)) (ou_viewers s1)
            then send_grouped env True False (ou_viewers s1) (pj_content p) (pj_cursor p) s1
            else if pj_cursor p \<noteq> flat (ou_cursor s) then for_viewers (send_cursor env (pj_cursor p)) (ou_viewers s1) s1
            else (s1, []))
         else send_grouped env False False (ou_viewers s1) (pj_content p) (pj_cursor p)
                (s1\<lparr>ou_hash := Some (hash (pj_content p))\<rparr>))"

text \<open>A route switch: everything of the old route is dropped; a projected route answers with its snapshot at once.\<close>

definition route_changed ::
  "(jstr \<Rightarrow> jstr) \<Rightarrow> out_env \<Rightarrow> projection_snapshot option \<Rightarrow> out_session \<Rightarrow> out_session \<times> out_effect list" where
  "route_changed hash env p s =
     (let s1 = s\<lparr>ou_newarch := None\<rparr> in
      if ou_viewers s1 = [] then (s1, [])
      else
        (let s2 = reset_all ResetResync (drop_bases
               (s1\<lparr>ou_content := None, ou_hash := None, ou_cursor := None, ou_screen := None, ou_boundary := None\<rparr>))
         in case p of None \<Rightarrow> (s2, []) | Some q \<Rightarrow> broadcast_projected hash env q s2))"

section \<open>Runs of the session\<close>

datatype out_event =
    Subscribe nat "rat option" bool
  | Unsubscribe nat
  | Resync nat
  | Drain nat
  | BlockedTimeout nat
  | Resized
  | ResetOutput
  | Captured capture_sample
  | Projected projection_snapshot
  | RouteChanged "projection_snapshot option"

fun out_step :: "(jstr \<Rightarrow> jstr) \<Rightarrow> out_env \<Rightarrow> out_event \<Rightarrow> out_session \<Rightarrow> out_session \<times> out_effect list" where
  "out_step hash env (Subscribe ws tail delta) s = out_subscribe env ws tail delta s"
| "out_step hash env (Unsubscribe ws) s = (out_unsubscribe ws s, [])"
| "out_step hash env (Resync ws) s = out_resync env ws s"
| "out_step hash env (Drain ws) s = out_drain env ws s"
| "out_step hash env (BlockedTimeout ws) s = blocked_timeout ws s"
| "out_step hash env Resized s = (out_resized s, [])"
| "out_step hash env ResetOutput s = (reset_session_output s, [])"
| "out_step hash env (Captured c) s = publish_capture hash env c s"
| "out_step hash env (Projected p) s = broadcast_projected hash env p s"
| "out_step hash env (RouteChanged p) s = route_changed hash env p s"

definition new_session :: "jstr \<Rightarrow> out_session" where
  "new_session channel =
     \<lparr>ou_channel = channel, ou_viewers = [], ou_view = (\<lambda>_. new_viewer), ou_content = None, ou_hash = None,
      ou_cursor = None, ou_screen = None, ou_boundary = None, ou_newarch = None, ou_reflow = False, ou_fresh = 0\<rparr>"

end
