(* ===== verification/Fanout_Sound.thy ===== *)
theory Fanout_Sound
  imports Mux_Output "HOL-Library.Multiset"
begin

text \<open>
  Correctness of the output fan-out: the grouped pass gives every viewer exactly what it would get alone, and a
  viewer that does not hold the current content of the pane is owed a full frame.
\<close>

section \<open>What one viewer gets in a pass\<close>

text \<open>The bookkeeping of a viewer up to the identity of its base.\<close>

definition plain :: "viewer \<Rightarrow> viewer" where
  "plain v = v\<lparr>vw_base := map_option (\<lambda>b. (0, snd b)) (vw_base v)\<rparr>"

fun target :: "out_effect \<Rightarrow> nat" where
  "target (SendFrame ws f) = ws"
| "target (SendCursor ws c) = ws"
| "target (CloseSlow ws) = ws"

definition effects_to :: "nat \<Rightarrow> out_effect list \<Rightarrow> out_effect list" where
  "effects_to ws es = filter (\<lambda>e. target e = ws) es"

lemma effects_to_simps [simp]:
  "effects_to ws [] = []" "effects_to ws (es @ fs) = effects_to ws es @ effects_to ws fs"
  "effects_to ws (e # es) = (if target e = ws then e # effects_to ws es else effects_to ws es)"
  by (simp_all add: effects_to_def)

lemma effects_to_close [simp]:
  "effects_to ws (close_effect w v v') = (if w = ws then close_effect w v v' else [])"
  by (simp add: close_effect_def)

definition gathered :: "out_env \<Rightarrow> bool \<Rightarrow> nat \<Rightarrow> viewer \<Rightarrow> viewer" where
  "gathered env only ws v =
     (if only \<and> \<not> pending_frame v then v
      else (let (skip, v1) = should_skip env ws v in if skip \<and> \<not> vw_shed v1 then v1\<lparr>vw_full := True\<rparr> else v1))"

definition eligible :: "out_env \<Rightarrow> bool \<Rightarrow> nat \<Rightarrow> viewer \<Rightarrow> bool" where
  "eligible env only ws v \<longleftrightarrow> \<not> (only \<and> \<not> pending_frame v) \<and> \<not> fst (should_skip env ws v)"

definition accepted :: "out_env \<Rightarrow> nat \<Rightarrow> bool" where
  "accepted env ws \<longleftrightarrow> oe_status env ws = Handed \<or> oe_status env ws = Queued"

definition flushed :: "out_env \<Rightarrow> jstr \<Rightarrow> nat \<Rightarrow> viewer \<Rightarrow> viewer" where
  "flushed env data ws v =
     (if accepted env ws
      then (let v1 = (if oe_status env ws = Queued then mark_blocked env ws v else v) in
            v1\<lparr>vw_base := (if vw_delta v1 then Some (0, split_mux_output_data data) else vw_base v1),
               vw_full := False, vw_reset := None\<rparr>)
      else v\<lparr>vw_full := True\<rparr>)"

definition viewer_data :: "bool \<Rightarrow> jstr \<Rightarrow> viewer \<Rightarrow> jstr" where
  "viewer_data fixed content v = (if fixed then content else content_for (vw_tail v) content)"

definition viewer_output :: "out_session \<Rightarrow> bool \<Rightarrow> jstr \<Rightarrow> mux_cursor option \<Rightarrow> viewer \<Rightarrow> output_frame" where
  "viewer_output s fixed content cursor v =
     group_output s (viewer_data fixed content v) cursor (vw_reset v) (if use_delta v then vw_base v else None)"

text \<open>The reference: a pass over one viewer.\<close>

definition viewer_pass ::
  "out_env \<Rightarrow> bool \<Rightarrow> bool \<Rightarrow> out_session \<Rightarrow> jstr \<Rightarrow> mux_cursor option \<Rightarrow> nat \<Rightarrow> viewer \<Rightarrow> viewer \<times> out_effect list" where
  "viewer_pass env only fixed s content cursor ws v =
     (let v1 = gathered env only ws v; e1 = close_effect ws v v1 in
      if eligible env only ws v
      then (flushed env (viewer_data fixed content v1) ws v1,
            e1 @ (if accepted env ws then SendFrame ws (viewer_output s fixed content cursor v1) # 
                    close_effect ws v1 (flushed env (viewer_data fixed content v1) ws v1) else []))
      else (v1, e1))"

section \<open>Identity of bases\<close>

definition ids_ok :: "out_base set \<Rightarrow> nat \<Rightarrow> bool" where
  "ids_ok B n \<longleftrightarrow> (\<forall>b \<in> B. fst b < n) \<and> inj_on fst B"

definition bases :: "out_session \<Rightarrow> out_base set" where
  "bases s = {b. \<exists>ws. vw_base (ou_view s ws) = Some b}"

definition bases_ok :: "out_session \<Rightarrow> bool" where
  "bases_ok s \<longleftrightarrow> ids_ok (bases s) (ou_fresh s)"

lemma ids_ok_mono: "ids_ok B n \<Longrightarrow> A \<subseteq> B \<Longrightarrow> ids_ok A n"
  by (auto simp: ids_ok_def inj_on_def)

lemma ids_ok_insert: "ids_ok B n \<Longrightarrow> ids_ok (insert (n, l) B) (Suc n)"
  by (force simp: ids_ok_def inj_on_def)

lemma ids_ok_eq: "ids_ok B n \<Longrightarrow> a \<in> B \<Longrightarrow> b \<in> B \<Longrightarrow> fst a = fst b \<Longrightarrow> a = b"
  by (auto simp: ids_ok_def inj_on_def)

lemma put_view_same [simp]:
  "ou_view (put_view ws v s) w = (if w = ws then v else ou_view s w)" "ou_fresh (put_view ws v s) = ou_fresh s"
  by (simp_all add: put_view_def)

lemma bases_put: "bases (put_view ws v s) \<subseteq> set_option (vw_base v) \<union> bases s"
  by (auto simp: bases_def split: if_splits)

text \<open>The fields no pass changes.\<close>

definition core :: "out_session \<Rightarrow> out_session" where
  "core s = s\<lparr>ou_view := \<lambda>_. new_viewer, ou_fresh := 0\<rparr>"

lemma core_put [simp]: "core (put_view ws v s) = core s" "core (s\<lparr>ou_fresh := n\<rparr>) = core s"
  by (simp_all add: core_def put_view_def)

lemma core_fields:
  assumes "core s = core s'"
  shows "ou_channel s = ou_channel s'" "ou_viewers s = ou_viewers s'" "ou_content s = ou_content s'" "ou_hash s = ou_hash s'"
    "ou_cursor s = ou_cursor s'" "ou_screen s = ou_screen s'" "ou_boundary s = ou_boundary s'" "ou_newarch s = ou_newarch s'"
    "ou_reflow s = ou_reflow s'"
proof -
  have "ou_channel (core s) = ou_channel (core s')" "ou_viewers (core s) = ou_viewers (core s')" "ou_content (core s) = ou_content (core s')"
    "ou_hash (core s) = ou_hash (core s')" "ou_cursor (core s) = ou_cursor (core s')" "ou_screen (core s) = ou_screen (core s')"
    "ou_boundary (core s) = ou_boundary (core s')" "ou_newarch (core s) = ou_newarch (core s')" "ou_reflow (core s) = ou_reflow (core s')"
    using assms by simp_all
  then show "ou_channel s = ou_channel s'" "ou_viewers s = ou_viewers s'" "ou_content s = ou_content s'" "ou_hash s = ou_hash s'"
    "ou_cursor s = ou_cursor s'" "ou_screen s = ou_screen s'" "ou_boundary s = ou_boundary s'" "ou_newarch s = ou_newarch s'"
    "ou_reflow s = ou_reflow s'"
    by (simp_all add: core_def)
qed

lemma group_output_core: "core s = core s' \<Longrightarrow> group_output s = group_output s'"
  by (intro ext) (simp add: group_output_def full_output_def core_fields(1,6,7,8)[of s s'])

section \<open>Backpressure keeps the bookkeeping\<close>

lemma maybe_shed_same:
  "maybe_shed env ws v = (b, v1) \<Longrightarrow> vw_tail v1 = vw_tail v \<and> vw_delta v1 = vw_delta v \<and> vw_base v1 = vw_base v \<and>
     vw_full v1 = vw_full v \<and> vw_reset v1 = vw_reset v \<and> (vw_shed v \<longrightarrow> vw_shed v1) \<and> (b \<and> oe_enabled env \<longrightarrow> vw_shed v1)"
  by (auto simp: maybe_shed_def shed_socket_def split: if_splits option.splits)

lemma should_skip_same:
  assumes "should_skip env ws v = (b, v1)"
  shows "vw_tail v1 = vw_tail v" "vw_delta v1 = vw_delta v" "vw_base v1 = vw_base v" "vw_full v1 = vw_full v"
    "vw_reset v1 = vw_reset v" "vw_shed v \<Longrightarrow> vw_shed v1"
  using assms maybe_shed_same[of env ws v] by (auto simp: should_skip_def Let_def split: if_splits prod.splits)

lemma mark_blocked_same [simp]:
  "vw_tail (mark_blocked env ws v) = vw_tail v" "vw_delta (mark_blocked env ws v) = vw_delta v"
  "vw_base (mark_blocked env ws v) = vw_base v" "vw_full (mark_blocked env ws v) = vw_full v"
  "vw_reset (mark_blocked env ws v) = vw_reset v" "vw_shed v \<Longrightarrow> vw_shed (mark_blocked env ws v)"
proof -
  define w where "w = (if vw_blocked v = None then v\<lparr>vw_blocked := Some (oe_now env)\<rparr> else v)"
  have w: "vw_tail w = vw_tail v" "vw_delta w = vw_delta v" "vw_base w = vw_base v" "vw_full w = vw_full v"
    "vw_reset w = vw_reset v" "vw_shed w = vw_shed v"
    by (simp_all add: w_def)
  obtain b w1 where m: "maybe_shed env ws w = (b, w1)"
    by (cases "maybe_shed env ws w")
  have eq: "mark_blocked env ws v = (if \<not> oe_enabled env \<or> vw_shed v then v else w1)"
    using m by (simp add: mark_blocked_def w_def[symmetric])
  note same = maybe_shed_same[OF m]
  show "vw_tail (mark_blocked env ws v) = vw_tail v" "vw_delta (mark_blocked env ws v) = vw_delta v"
    "vw_base (mark_blocked env ws v) = vw_base v" "vw_full (mark_blocked env ws v) = vw_full v"
    "vw_reset (mark_blocked env ws v) = vw_reset v" "vw_shed v \<Longrightarrow> vw_shed (mark_blocked env ws v)"
    using same w by (simp_all add: eq)
qed

lemma gathered_same:
  "vw_tail (gathered env only ws v) = vw_tail v" "vw_delta (gathered env only ws v) = vw_delta v"
  "vw_base (gathered env only ws v) = vw_base v" "vw_reset (gathered env only ws v) = vw_reset v"
  "vw_full v \<Longrightarrow> vw_full (gathered env only ws v)" "vw_shed v \<Longrightarrow> vw_shed (gathered env only ws v)"
proof -
  obtain b v1 where m: "should_skip env ws v = (b, v1)"
    by (cases "should_skip env ws v")
  have eq: "gathered env only ws v =
      (if only \<and> \<not> pending_frame v then v else if b \<and> \<not> vw_shed v1 then v1\<lparr>vw_full := True\<rparr> else v1)"
    by (simp add: gathered_def m)
  note same = should_skip_same[OF m]
  show "vw_tail (gathered env only ws v) = vw_tail v" "vw_delta (gathered env only ws v) = vw_delta v"
    "vw_base (gathered env only ws v) = vw_base v" "vw_reset (gathered env only ws v) = vw_reset v"
    "vw_full v \<Longrightarrow> vw_full (gathered env only ws v)" "vw_shed v \<Longrightarrow> vw_shed (gathered env only ws v)"
    using same by (simp_all add: eq)
qed

lemma gathered_eligible:
  assumes "eligible env only ws v"
  shows "gathered env only ws v = snd (should_skip env ws v)" "vw_full (gathered env only ws v) = vw_full v"
proof -
  obtain b v1 where m: "should_skip env ws v = (b, v1)"
    by (cases "should_skip env ws v")
  with assms show "gathered env only ws v = snd (should_skip env ws v)" "vw_full (gathered env only ws v) = vw_full v"
    using should_skip_same(4)[OF m] by (auto simp: eligible_def gathered_def)
qed

section \<open>Gathering\<close>

type_synonym group_key = "nat option \<times> reset_kind option \<times> out_base option"

definition group_key :: "send_group \<Rightarrow> group_key" where
  "group_key g = (sg_tail g, sg_reset g, sg_base g)"

definition assigned :: "send_group list \<Rightarrow> (group_key \<times> nat) list" where
  "assigned gs = concat (map (\<lambda>g. map (\<lambda>ws. (group_key g, ws)) (sg_sockets g)) gs)"

definition all_groups :: "groups \<Rightarrow> send_group list" where
  "all_groups gs = fst gs @ concat (map snd (snd gs))"

definition viewer_key :: "bool \<Rightarrow> viewer \<Rightarrow> group_key" where
  "viewer_key fixed v = (if fixed then None else vw_tail v, vw_reset v, if use_delta v then vw_base v else None)"

lemma assigned_simps [simp]:
  "assigned [] = []" "assigned (g # gs) = map (\<lambda>ws. (group_key g, ws)) (sg_sockets g) @ assigned gs"
  "assigned (gs @ hs) = assigned gs @ assigned hs"
  by (simp_all add: assigned_def)

lemma join_group_assigned:
  assumes "\<And>h. h \<in> set hs \<Longrightarrow> same h \<Longrightarrow> group_key h = group_key g"
  shows "mset (assigned (join_group same g ws hs)) = add_mset (group_key g, ws) (mset (assigned hs))"
  using assms
proof (induction hs)
  case Nil
  show ?case
    by (simp add: group_key_def)
next
  case (Cons h hs)
  show ?case
  proof (cases "same h")
    case True
    then have "group_key h = group_key g"
      using Cons.prems by simp
    then show ?thesis
      using True by (simp add: group_key_def)
  next
    case False
    then show ?thesis
      using Cons.IH Cons.prems by simp
  qed
qed

lemma join_group_mem:
  "h \<in> set (join_group same g ws hs) \<Longrightarrow>
     \<exists>h' \<in> insert g (set hs). sg_tail h = sg_tail h' \<and> sg_reset h = sg_reset h' \<and> sg_base h = sg_base h'"
  by (induction hs) (auto split: if_splits)

lemma join_tail_assigned:
  assumes "\<And>t gs. (t, gs) \<in> set l \<Longrightarrow> t = tail \<Longrightarrow> mset (assigned (f gs)) = add_mset x (mset (assigned gs))"
    and "mset (assigned (f [])) = {#x#}"
  shows "mset (assigned (concat (map snd (join_tail tail f l)))) = add_mset x (mset (assigned (concat (map snd l))))"
  using assms by (induction l) auto

lemma join_tail_mem:
  "(t, gs) \<in> set (join_tail tail f l) \<Longrightarrow> (t, gs) \<in> set l \<or> t = tail \<and> (gs = f [] \<or> (\<exists>gs'. (tail, gs') \<in> set l \<and> gs = f gs'))"
  by (induction l) (auto split: if_splits)

text \<open>The delta groups of one tail share it, carry no reset and a base some viewer holds.\<close>

definition deltas_ok :: "out_base set \<Rightarrow> groups \<Rightarrow> bool" where
  "deltas_ok B gs \<longleftrightarrow> (\<forall>(t, hs) \<in> set (snd gs). \<forall>h \<in> set hs. sg_tail h = t \<and> sg_reset h = None \<and> (\<exists>b \<in> B. sg_base h = Some b)) \<and>
     (\<forall>h \<in> set (fst gs). sg_base h = None)"

lemma add_viewer_assigned:
  assumes ok: "deltas_ok B gs" and ids: "ids_ok B n" and base: "\<And>b. vw_base v = Some b \<Longrightarrow> b \<in> B"
  shows "mset (assigned (all_groups (add_viewer fixed ws v gs))) =
     add_mset (viewer_key fixed v, ws) (mset (assigned (all_groups gs)))"
proof (cases "use_delta v")
  case False
  show ?thesis
    using False ok
    by (auto simp: add_viewer_def all_groups_def viewer_key_def Let_def group_key_def deltas_ok_def
        intro!: join_group_assigned[THEN trans])
next
  case True
  then obtain b where b: "vw_base v = Some b" "vw_reset v = None" "b \<in> B"
    using base by (auto simp: use_delta_def)
  define tail where "tail = (if fixed then None else vw_tail v)"
  define g where "g = \<lparr>sg_tail = tail, sg_reset = None, sg_base = vw_base v, sg_sockets = []\<rparr>"
  define f where "f = join_group (\<lambda>g. same_base (sg_base g) (vw_base v)) g ws"
  have key: "group_key g = viewer_key fixed v"
    using True b by (simp add: g_def group_key_def viewer_key_def tail_def)
  have join: "mset (assigned (f hs)) = add_mset (viewer_key fixed v, ws) (mset (assigned hs))"
    if hyp: "\<forall>h \<in> set hs. sg_tail h = tail \<and> sg_reset h = None \<and> (\<exists>b \<in> B. sg_base h = Some b)" for hs
    unfolding f_def key[symmetric]
  proof (rule join_group_assigned)
    fix h
    assume h: "h \<in> set hs" "same_base (sg_base h) (vw_base v)"
    then obtain b' where b': "sg_base h = Some b'" "b' \<in> B"
      using hyp by blast
    have "b' = b"
      using h(2) b b' ids_ok_eq[OF ids, of b' b] by (simp add: same_base_def)
    then show "group_key h = group_key g"
      using hyp h(1) b b' by (simp add: group_key_def g_def)
  qed
  have "mset (assigned (concat (map snd (join_tail tail f (snd gs))))) =
      add_mset (viewer_key fixed v, ws) (mset (assigned (concat (map snd (snd gs)))))"
    using ok join[of "[]"] by (intro join_tail_assigned) (force intro!: join simp: deltas_ok_def, simp)
  then show ?thesis
    using True by (simp add: add_viewer_def all_groups_def Let_def tail_def[symmetric] g_def[symmetric] f_def[symmetric])
qed

lemma add_viewer_deltas:
  assumes ok: "deltas_ok B gs" and base: "\<And>b. vw_base v = Some b \<Longrightarrow> b \<in> B"
  shows "deltas_ok B (add_viewer fixed ws v gs)"
proof (cases "use_delta v")
  case False
  then show ?thesis
    using ok by (auto simp: add_viewer_def deltas_ok_def Let_def dest!: join_group_mem)
next
  case True
  then obtain b where b: "vw_base v = Some b" "b \<in> B"
    using base by (auto simp: use_delta_def)
  have "\<forall>h \<in> set hs. sg_tail h = t \<and> sg_reset h = None \<and> (\<exists>b \<in> B. sg_base h = Some b)"
    if "(t, hs) \<in> set (snd (add_viewer fixed ws v gs))" for t hs
    using that ok b
    by (auto simp: add_viewer_def True deltas_ok_def Let_def dest!: join_tail_mem join_group_mem)
  then show ?thesis
    using ok True by (auto simp: deltas_ok_def add_viewer_def Let_def)
qed

text \<open>The gathering pass, one viewer after the other.\<close>

lemma put_view_id [simp]: "put_view ws (ou_view s ws) s = s"
  by (simp add: put_view_def)

lemma close_effect_same [simp]: "close_effect ws v v = []"
  by (simp add: close_effect_def)

lemma close_effect_full [simp]: "close_effect ws v (v1\<lparr>vw_full := b\<rparr>) = close_effect ws v v1"
  by (simp add: close_effect_def)

lemma gather_Cons:
  "gather env only fixed (ws # wss) s gs =
     (let v = ou_view s ws; v1 = gathered env only ws v;
          (s', gs', es) = gather env only fixed wss (put_view ws v1 s)
             (if eligible env only ws v then add_viewer fixed ws v1 gs else gs)
      in (s', gs', close_effect ws v v1 @ es))"
proof -
  obtain b v1 where m: "should_skip env ws (ou_view s ws) = (b, v1)"
    by (cases "should_skip env ws (ou_view s ws)")
  show ?thesis
  proof (cases "only \<and> \<not> pending_frame (ou_view s ws)")
    case True
    then show ?thesis
      by (simp add: gathered_def eligible_def pending_frame_def split: prod.splits)
  next
    case False
    then have "\<not> (only \<and> vw_reset (ou_view s ws) = None \<and> \<not> vw_full (ou_view s ws))"
      by (auto simp: pending_frame_def)
    then show ?thesis
      using m False by (auto simp add: gathered_def eligible_def Let_def split: prod.splits)
  qed
qed

lemma bases_gathered: "bases (put_view ws (gathered env only ws (ou_view s ws)) s) = bases s"
  by (auto simp: bases_def gathered_same split: if_splits)

lemma gather_pass:
  assumes "gather env only fixed wss s gs = (s', gs', es)" and "distinct wss"
    and "ids_ok B n" and "bases s \<subseteq> B" and "deltas_ok B gs"
  shows "core s' = core s \<and> ou_fresh s' = ou_fresh s \<and> bases s' = bases s \<and> deltas_ok B gs' \<and>
     (\<forall>w. ou_view s' w = (if w \<in> set wss then gathered env only w (ou_view s w) else ou_view s w)) \<and>
     (\<forall>w. effects_to w es = (if w \<in> set wss then close_effect w (ou_view s w) (gathered env only w (ou_view s w)) else [])) \<and>
     mset (assigned (all_groups gs')) = mset (assigned (all_groups gs)) +
       mset (map (\<lambda>w. (viewer_key fixed (gathered env only w (ou_view s w)), w))
         (filter (\<lambda>w. eligible env only w (ou_view s w)) wss))"
  using assms
proof (induction wss arbitrary: s gs s' gs' es)
  case Nil
  then show ?case
    by simp
next
  case (Cons ws wss)
  define v where "v = ou_view s ws"
  define v1 where "v1 = gathered env only ws v"
  define s1 where "s1 = put_view ws v1 s"
  define gs1 where "gs1 = (if eligible env only ws v then add_viewer fixed ws v1 gs else gs)"
  obtain es1 where rest: "gather env only fixed wss s1 gs1 = (s', gs', es1)" and es: "es = close_effect ws v v1 @ es1"
    using Cons.prems(1) unfolding gather_Cons v_def[symmetric] v1_def[symmetric] s1_def[symmetric] gs1_def[symmetric] Let_def
    by (auto split: prod.splits)
  have base: "b \<in> B" if "vw_base v1 = Some b" for b
    using that Cons.prems(4) by (auto simp: v1_def gathered_same v_def bases_def)
  have bases: "bases s1 = bases s"
    by (simp add: s1_def v1_def v_def bases_gathered)
  have "deltas_ok B gs1"
    using Cons.prems(5) base by (simp add: gs1_def add_viewer_deltas)
  note IH = Cons.IH[OF rest _ Cons.prems(3) _ this, unfolded bases]
  have notin: "ws \<notin> set wss" "distinct wss"
    using Cons.prems(2) by simp_all
  have view: "ou_view s1 w = (if w = ws then v1 else ou_view s w)" for w
    by (simp add: s1_def)
  have same: "map (\<lambda>w. (viewer_key fixed (gathered env only w (ou_view s1 w)), w)) (filter (\<lambda>w. eligible env only w (ou_view s1 w)) wss) =
      map (\<lambda>w. (viewer_key fixed (gathered env only w (ou_view s w)), w)) (filter (\<lambda>w. eligible env only w (ou_view s w)) wss)"
    using notin by (auto simp: view intro!: map_cong filter_cong)
  have add: "mset (assigned (all_groups gs1)) =
      (if eligible env only ws v then add_mset (viewer_key fixed v1, ws) (mset (assigned (all_groups gs))) else mset (assigned (all_groups gs)))"
    using add_viewer_assigned[OF Cons.prems(5,3) base] by (simp add: gs1_def)
  note IH = IH[OF notin(2) Cons.prems(4)]
  have "core s' = core s \<and> ou_fresh s' = ou_fresh s \<and> bases s' = bases s \<and> deltas_ok B gs'"
    using IH by (simp add: s1_def)
  moreover have "\<forall>w. ou_view s' w = (if w \<in> set (ws # wss) then gathered env only w (ou_view s w) else ou_view s w)"
    using IH notin by (auto simp: view v1_def v_def)
  moreover have "\<forall>w. effects_to w es =
      (if w \<in> set (ws # wss) then close_effect w (ou_view s w) (gathered env only w (ou_view s w)) else [])"
    using IH notin by (auto simp: view es v1_def v_def)
  moreover have "mset (assigned (all_groups gs')) = mset (assigned (all_groups gs)) +
       mset (map (\<lambda>w. (viewer_key fixed (gathered env only w (ou_view s w)), w))
         (filter (\<lambda>w. eligible env only w (ou_view s w)) (ws # wss)))"
    using IH add by (simp add: same v1_def v_def)
  ultimately show ?case
    by blast
qed

section \<open>Flushing\<close>

definition memo_ok :: "base_memo \<Rightarrow> bool" where
  "memo_ok memo \<longleftrightarrow> (\<forall>(data, b) \<in> set memo. snd b = split_mux_output_data data)"

definition memo_bases :: "base_memo \<Rightarrow> out_base set" where
  "memo_bases memo = snd ` set memo"

definition flush_ok :: "out_session \<times> base_memo \<Rightarrow> bool" where
  "flush_ok st \<longleftrightarrow> memo_ok (snd st) \<and> ids_ok (bases (fst st) \<union> memo_bases (snd st)) (ou_fresh (fst st))"

lemma next_base_ok:
  assumes "next_base data memo n = (b, memo1, n1)" and "memo_ok memo" and "ids_ok (B \<union> memo_bases memo) n"
  shows "snd b = split_mux_output_data data" "memo_ok memo1" "b \<in> memo_bases memo1" "ids_ok (B \<union> memo_bases memo1) n1"
proof -
  have cases: "(map_of memo data = Some b \<and> memo1 = memo \<and> n1 = n) \<or>
      (b = (n, split_mux_output_data data) \<and> memo1 = (data, b) # memo \<and> n1 = Suc n)"
    using assms(1) by (auto simp: next_base_def Let_def split: option.splits)
  then show "snd b = split_mux_output_data data" "memo_ok memo1" "b \<in> memo_bases memo1"
    using assms(2) by (force simp: memo_ok_def memo_bases_def dest!: map_of_SomeD)+
  show "ids_ok (B \<union> memo_bases memo1) n1"
    using cases assms(3) ids_ok_insert[OF assms(3), of "split_mux_output_data data"]
    by (auto simp: memo_bases_def)
qed

lemma plain_eq:
  "plain v = plain w \<longleftrightarrow> vw_tail v = vw_tail w \<and> vw_delta v = vw_delta w \<and> map_option snd (vw_base v) = map_option snd (vw_base w) \<and>
     vw_full v = vw_full w \<and> vw_reset v = vw_reset w \<and> vw_blocked v = vw_blocked w \<and> vw_shed v = vw_shed w"
  by (cases v; cases w; cases "vw_base v"; cases "vw_base w") (auto simp: plain_def)

lemma flush_socket_pass:
  assumes "flush_socket env data output ws (s, memo) = ((s', memo'), es)" and "flush_ok (s, memo)"
  shows "core s' = core s" "flush_ok (s', memo')" "w \<noteq> ws \<Longrightarrow> ou_view s' w = ou_view s w"
    "plain (ou_view s' ws) = plain (flushed env data ws (ou_view s ws))"
    "es = (if accepted env ws then SendFrame ws output # close_effect ws (ou_view s ws) (flushed env data ws (ou_view s ws)) else [])"
proof -
  define v where "v = ou_view s ws"
  define v1 where "v1 = (if oe_status env ws = Queued then mark_blocked env ws v else v)"
  have ids: "memo_ok memo" "ids_ok (bases s \<union> memo_bases memo) (ou_fresh s)"
    using assms(2) by (simp_all add: flush_ok_def)
  have status: "accepted env ws \<longleftrightarrow> \<not> (oe_status env ws = Dropped \<or> oe_status env ws = Threw)"
    by (cases "oe_status env ws") (simp_all add: accepted_def)
  have "core s' = core s \<and> flush_ok (s', memo') \<and> (w \<noteq> ws \<longrightarrow> ou_view s' w = ou_view s w) \<and>
      plain (ou_view s' ws) = plain (flushed env data ws v) \<and>
      es = (if accepted env ws then SendFrame ws output # close_effect ws v (flushed env data ws v) else [])"
  proof (cases "accepted env ws")
    case False
    then have eq: "s' = put_view ws (v\<lparr>vw_full := True\<rparr>) s" "memo' = memo" "es = []"
      using assms(1) by (auto simp: flush_socket_def status v_def Let_def)
    have "bases s' \<subseteq> bases s"
      by (auto simp: eq bases_def v_def split: if_splits)
    then show ?thesis
      using False ids_ok_mono[OF ids(2), of "bases s' \<union> memo_bases memo"] ids(1)
      by (auto simp: eq flushed_def flush_ok_def)
  next
    case True
    obtain b m n where nb: "next_base data memo (ou_fresh s) = (b, m, n)"
      by (cases "next_base data memo (ou_fresh s)")
    define base where "base = (if vw_delta v1 then Some b else vw_base v1)"
    have "flush_socket env data output ws (s, memo) =
        ((put_view ws (v1\<lparr>vw_base := base, vw_full := False, vw_reset := None\<rparr>)
           (s\<lparr>ou_fresh := if vw_delta v1 then n else ou_fresh s\<rparr>), if vw_delta v1 then m else memo),
         SendFrame ws output # close_effect ws v v1)"
      using True unfolding flush_socket_def Let_def prod.case v_def[symmetric] v1_def[symmetric] nb status
      by (cases "vw_delta v1") (simp_all add: base_def)
    then have eq: "s' = put_view ws (v1\<lparr>vw_base := base, vw_full := False, vw_reset := None\<rparr>)
          (s\<lparr>ou_fresh := if vw_delta v1 then n else ou_fresh s\<rparr>)"
      "memo' = (if vw_delta v1 then m else memo)" "es = SendFrame ws output # close_effect ws v v1"
      using assms(1) by simp_all
    note ok = next_base_ok[OF nb ids(1), of "bases s", OF ids(2)]
    have v1: "vw_base v1 = vw_base v" "vw_shed (flushed env data ws v) = vw_shed v1"
      using True by (simp_all add: v1_def flushed_def Let_def)
    have "bases s' \<union> memo_bases memo' \<subseteq> bases s \<union> memo_bases (if vw_delta v1 then m else memo)"
      using ok(3) v1 by (auto simp: eq bases_def base_def v_def split: if_splits)
    then have "flush_ok (s', memo')"
      using ok(2,4) ids ids_ok_mono by (auto simp: flush_ok_def eq)
    moreover have "plain (ou_view s' ws) = plain (flushed env data ws v)"
      using True ok(1) by (simp add: eq plain_eq flushed_def v1_def[symmetric] base_def)
    ultimately show ?thesis
      using True v1 by (simp add: eq close_effect_def)
  qed
  then show "core s' = core s" "flush_ok (s', memo')" "w \<noteq> ws \<Longrightarrow> ou_view s' w = ou_view s w"
    "plain (ou_view s' ws) = plain (flushed env data ws (ou_view s ws))"
    "es = (if accepted env ws then SendFrame ws output # close_effect ws (ou_view s ws) (flushed env data ws (ou_view s ws)) else [])"
    by (simp_all add: v_def)
qed

lemma flush_sockets_pass:
  assumes "flush_sockets env data output wss st = (st', es)" and "flush_ok st" and "distinct wss"
  shows "core (fst st') = core (fst st) \<and> flush_ok st' \<and>
     (\<forall>w. if w \<in> set wss
        then plain (ou_view (fst st') w) = plain (flushed env data w (ou_view (fst st) w)) \<and>
          effects_to w es = (if accepted env w then SendFrame w output # close_effect w (ou_view (fst st) w) (flushed env data w (ou_view (fst st) w)) else [])
        else ou_view (fst st') w = ou_view (fst st) w \<and> effects_to w es = [])"
  using assms
proof (induction wss arbitrary: st es)
  case Nil
  then show ?case
    by simp
next
  case (Cons ws wss)
  obtain s memo where st: "st = (s, memo)"
    by (cases st)
  obtain s1 memo1 e1 where one: "flush_socket env data output ws (s, memo) = ((s1, memo1), e1)"
    by (metis surj_pair)
  obtain e2 where rest: "flush_sockets env data output wss (s1, memo1) = (st', e2)" and es: "es = e1 @ e2"
    using Cons.prems(1) by (auto simp: st one split: prod.splits)
  note pass = flush_socket_pass[OF one Cons.prems(2)[unfolded st]]
  have IH: "core (fst st') = core s1 \<and> flush_ok st' \<and>
     (\<forall>w. if w \<in> set wss
        then plain (ou_view (fst st') w) = plain (flushed env data w (ou_view s1 w)) \<and>
          effects_to w e2 = (if accepted env w then SendFrame w output # close_effect w (ou_view s1 w) (flushed env data w (ou_view s1 w)) else [])
        else ou_view (fst st') w = ou_view s1 w \<and> effects_to w e2 = [])"
    using Cons.IH[OF rest pass(2)] Cons.prems(3) by simp
  have e1: "effects_to w e1 = (if w = ws then e1 else [])" for w
    unfolding pass(5) by (simp add: close_effect_def)
  show ?case
    unfolding st fst_conv
  proof (intro conjI allI)
    show "core (fst st') = core s" "flush_ok st'"
      using IH pass(1) by simp_all
    fix w
    have iw: "if w \<in> set wss
        then plain (ou_view (fst st') w) = plain (flushed env data w (ou_view s1 w)) \<and>
          effects_to w e2 = (if accepted env w then SendFrame w output # close_effect w (ou_view s1 w) (flushed env data w (ou_view s1 w)) else [])
        else ou_view (fst st') w = ou_view s1 w \<and> effects_to w e2 = []"
      using IH by blast
    show "if w \<in> set (ws # wss)
        then plain (ou_view (fst st') w) = plain (flushed env data w (ou_view s w)) \<and>
          effects_to w es = (if accepted env w then SendFrame w output # close_effect w (ou_view s w) (flushed env data w (ou_view s w)) else [])
        else ou_view (fst st') w = ou_view s w \<and> effects_to w es = []"
    proof (cases "w = ws")
      case True
      then have "w \<notin> set wss"
        using Cons.prems(3) by simp
      then show ?thesis
        using iw True pass(4,5) e1 by (simp add: es)
    next
      case False
      then show ?thesis
        using iw pass(3)[OF False] e1 by (simp add: es)
    qed
  qed
qed

lemma flush_groups_pass:
  assumes "flush_groups env content cursor fixed gs st = (st', es)" and "flush_ok st" and "distinct (map snd (assigned gs))"
    and "core (fst st) = core s0"
  shows "core (fst st') = core s0 \<and> flush_ok st' \<and>
     (\<forall>w. w \<notin> snd ` set (assigned gs) \<longrightarrow> ou_view (fst st') w = ou_view (fst st) w \<and> effects_to w es = []) \<and>
     (\<forall>w t r b. ((t, r, b), w) \<in> set (assigned gs) \<longrightarrow>
        (let data = (if fixed then content else content_for t content); v = ou_view (fst st) w in
         plain (ou_view (fst st') w) = plain (flushed env data w v) \<and>
         effects_to w es = (if accepted env w
           then SendFrame w (group_output s0 data cursor r b) # close_effect w v (flushed env data w v) else [])))"
  using assms
proof (induction gs arbitrary: st es)
  case Nil
  then show ?case
    by simp
next
  case (Cons g gs)
  define data where "data = (if fixed then content else content_for (sg_tail g) content)"
  define frame where "frame = group_output s0 data cursor (sg_reset g) (sg_base g)"
  have out: "group_output (fst st) data cursor (sg_reset g) (sg_base g) = frame"
    using group_output_core[OF Cons.prems(4)] by (simp add: frame_def)
  obtain st1 e1 where one: "flush_sockets env data frame (sg_sockets g) st = (st1, e1)"
    by (cases "flush_sockets env data frame (sg_sockets g) st")
  obtain e2 where rest: "flush_groups env content cursor fixed gs st1 = (st', e2)" and es: "es = e1 @ e2"
    using Cons.prems(1) one by (auto simp: data_def[symmetric] out Let_def split: prod.splits)
  have dist: "distinct (sg_sockets g)" "distinct (map snd (assigned gs))"
    "set (sg_sockets g) \<inter> snd ` set (assigned gs) = {}"
    using Cons.prems(3) by (auto simp: comp_def)
  note pass = flush_sockets_pass[OF one Cons.prems(2) dist(1)]
  then have "core (fst st1) = core s0" "flush_ok st1"
    using Cons.prems(4) by simp_all
  note IH = Cons.IH[OF rest this(2) dist(2) this(1)]
  show ?case
  proof (intro conjI allI impI)
    show "core (fst st') = core s0" "flush_ok st'"
      using IH by simp_all
  next
    fix w
    assume w: "w \<notin> snd ` set (assigned (g # gs))"
    then have "w \<notin> set (sg_sockets g)" "w \<notin> snd ` set (assigned gs)"
      by (auto simp: image_Un image_image)
    then show "ou_view (fst st') w = ou_view (fst st) w" "effects_to w es = []"
      using pass IH by (auto simp: es)
  next
    fix w t r b
    assume w: "((t, r, b), w) \<in> set (assigned (g # gs))"
    show "let data = (if fixed then content else content_for t content); v = ou_view (fst st) w in
         plain (ou_view (fst st') w) = plain (flushed env data w v) \<and>
         effects_to w es = (if accepted env w
           then SendFrame w (group_output s0 data cursor r b) # close_effect w v (flushed env data w v) else [])"
    proof (cases "w \<in> set (sg_sockets g)")
      case True
      then have notin: "w \<notin> snd ` set (assigned gs)"
        using dist(3) by blast
      then have key: "t = sg_tail g" "r = sg_reset g" "b = sg_base g"
        using w by (auto simp: group_key_def rev_image_eqI)
      have "ou_view (fst st') w = ou_view (fst st1) w" "effects_to w e2 = []"
        using IH notin by blast+
      moreover have "plain (ou_view (fst st1) w) = plain (flushed env data w (ou_view (fst st) w)) \<and>
          effects_to w e1 = (if accepted env w then SendFrame w frame # close_effect w (ou_view (fst st) w) (flushed env data w (ou_view (fst st) w)) else [])"
        using pass True by presburger
      ultimately show ?thesis
        unfolding key Let_def data_def[symmetric] frame_def[symmetric] by (simp add: es)
    next
      case False
      then have w: "((t, r, b), w) \<in> set (assigned gs)"
        using w by auto
      have "ou_view (fst st1) w = ou_view (fst st) w" "effects_to w e1 = []"
        using pass False by presburger+
      then show ?thesis
        using IH w by (auto simp: es Let_def)
    qed
  qed
qed

section \<open>The grouped pass, viewer by viewer\<close>

lemma bases_okI: "flush_ok (s, memo) \<Longrightarrow> bases_ok s"
  by (auto simp: flush_ok_def bases_ok_def intro: ids_ok_mono)

lemma send_grouped_pass:
  assumes ok: "bases_ok s" and dist: "distinct viewers"
    and run: "send_grouped env only fixed viewers content cursor s = (s', es)"
  shows "core s' = core s" "bases_ok s'" "w \<notin> set viewers \<Longrightarrow> ou_view s' w = ou_view s w \<and> effects_to w es = []"
    "w \<in> set viewers \<Longrightarrow> (plain (ou_view s' w), effects_to w es) =
       map_prod plain id (viewer_pass env only fixed s content cursor w (ou_view s w))"
proof -
  obtain s1 gs e1 where gather: "gather env only fixed viewers s ([], []) = (s1, gs, e1)"
    by (metis surj_pair)
  obtain memo e2 where flush: "flush_groups env content cursor fixed (all_groups gs) (s1, []) = ((s', memo), e2)" and es: "es = e1 @ e2"
    using run gather by (auto simp: send_grouped_def all_groups_def split: prod.splits)
  have "deltas_ok (bases s) ([], [])"
    by (simp add: deltas_ok_def)
  note G = gather_pass[OF gather dist ok[unfolded bases_ok_def] subset_refl this]
  have assigned: "mset (assigned (all_groups gs)) = mset (map (\<lambda>w. (viewer_key fixed (gathered env only w (ou_view s w)), w))
         (filter (\<lambda>w. eligible env only w (ou_view s w)) viewers))"
    using G by (simp add: all_groups_def)
  have "mset (map snd (assigned (all_groups gs))) = image_mset snd (mset (assigned (all_groups gs)))"
    by simp
  also have "\<dots> = mset (filter (\<lambda>w. eligible env only w (ou_view s w)) viewers)"
    unfolding assigned by (simp add: image_mset.compositionality comp_def)
  finally have "mset (map snd (assigned (all_groups gs))) = mset (filter (\<lambda>w. eligible env only w (ou_view s w)) viewers)" .
  then have d: "distinct (map snd (assigned (all_groups gs)))"
    using dist by (metis distinct_filter mset_eq_imp_distinct_iff)
  have mem: "(k, w) \<in> set (assigned (all_groups gs)) \<longleftrightarrow> w \<in> set viewers \<and> eligible env only w (ou_view s w) \<and>
      k = viewer_key fixed (gathered env only w (ou_view s w))" for k w
    using mset_eq_setD[OF assigned] by auto
  have "flush_ok (s1, [])"
    using G ok by (simp add: flush_ok_def bases_ok_def memo_ok_def memo_bases_def)
  note F = flush_groups_pass[OF flush this d, of s, unfolded fst_conv]
  have core: "core s1 = core s"
    using G by blast
  note F = F[OF core]
  have views: "ou_view s1 w = (if w \<in> set viewers then gathered env only w (ou_view s w) else ou_view s w)"
    "effects_to w e1 = (if w \<in> set viewers then close_effect w (ou_view s w) (gathered env only w (ou_view s w)) else [])" for w
    using G by blast+
  have miss: "ou_view s' w = ou_view s1 w" "effects_to w e2 = []" if "\<not> (w \<in> set viewers \<and> eligible env only w (ou_view s w))" for w
  proof -
    have "w \<notin> snd ` set (assigned (all_groups gs))"
    proof
      assume "w \<in> snd ` set (assigned (all_groups gs))"
      then obtain k where "(k, w) \<in> set (assigned (all_groups gs))"
        by force
      then show False
        using mem that by blast
    qed
    then show "ou_view s' w = ou_view s1 w" "effects_to w e2 = []"
      using F by blast+
  qed
  have hit: "plain (ou_view s' w) = plain (flushed env (viewer_data fixed content v) w v)"
      "effects_to w e2 = (if accepted env w then SendFrame w (viewer_output s fixed content cursor v) #
         close_effect w v (flushed env (viewer_data fixed content v) w v) else [])"
    if "w \<in> set viewers" "eligible env only w (ou_view s w)" "v = gathered env only w (ou_view s w)" for w v
  proof -
    have "(viewer_key fixed v, w) \<in> set (assigned (all_groups gs))" "ou_view s1 w = v"
      using mem that views by simp_all
    then have "let data = (if fixed then content else content_for (if fixed then None else vw_tail v) content) in
         plain (ou_view s' w) = plain (flushed env data w v) \<and>
         effects_to w e2 = (if accepted env w
           then SendFrame w (group_output s data cursor (vw_reset v) (if use_delta v then vw_base v else None)) #
             close_effect w v (flushed env data w v) else [])"
      using F unfolding viewer_key_def Let_def by blast
    then show "plain (ou_view s' w) = plain (flushed env (viewer_data fixed content v) w v)"
      "effects_to w e2 = (if accepted env w then SendFrame w (viewer_output s fixed content cursor v) #
         close_effect w v (flushed env (viewer_data fixed content v) w v) else [])"
      by (simp_all add: viewer_data_def viewer_output_def Let_def cong: if_cong)
  qed
  show "core s' = core s" "bases_ok s'"
    using F bases_okI by blast+
  show "ou_view s' w = ou_view s w \<and> effects_to w es = []" if "w \<notin> set viewers"
    using that views miss[of w] by (simp add: es)
  show "(plain (ou_view s' w), effects_to w es) =
       map_prod plain id (viewer_pass env only fixed s content cursor w (ou_view s w))" if w: "w \<in> set viewers"
  proof -
    define v1 where "v1 = gathered env only w (ou_view s w)"
    have v1: "ou_view s1 w = v1" "effects_to w e1 = close_effect w (ou_view s w) v1"
      using views w by (simp_all add: v1_def)
    show ?thesis
      using w v1 hit[OF w _ v1_def] miss[of w]
      by (cases "eligible env only w (ou_view s w)") (simp_all add: viewer_pass_def Let_def es v1_def[symmetric])
  qed
qed

end
