(* ===== verification/Fanout_Invariant.thy ===== *)
theory Fanout_Invariant
  imports Fanout_Sound
begin

text \<open>
  What the viewers of a session hold: whatever happens, a viewer that is neither owed a frame nor shed holds the
  published content, and the cursor while no projection is published.
\<close>

section \<open>What a viewer holds\<close>

record seen =
  se_lines :: "jstr list"
  se_cursor :: "mux_cursor option"

text \<open>The receiving side of a frame; a delta on another base is refused.\<close>

fun receive :: "out_effect \<Rightarrow> seen option \<Rightarrow> seen option" where
  "receive (SendFrame ws (Full f)) h = Some \<lparr>se_lines = split_mux_output_data (ff_data f), se_cursor = flat (ff_cursor f)\<rparr>"
| "receive (SendFrame ws (Delta d)) h =
     (case h of
        None \<Rightarrow> None
      | Some x \<Rightarrow>
          if df_base_length d = length (se_lines x) \<and> df_prefix_hash d = mux_prefix_hash (take (df_prefix d) (se_lines x))
          then Some \<lparr>se_lines = take (df_prefix d) (se_lines x) @ df_lines d, se_cursor = flat (df_cursor d)\<rparr>
          else Some x)"
| "receive (SendCursor ws c) h = map_option (\<lambda>x. x\<lparr>se_cursor := c\<rparr>) h"
| "receive (CloseSlow ws) h = h"

definition receive_all :: "out_effect list \<Rightarrow> seen option \<Rightarrow> seen option" where
  "receive_all es h = foldl (\<lambda>h e. receive e h) h es"

lemma receive_all_simps [simp]:
  "receive_all [] h = h" "receive_all (e # es) h = receive_all es (receive e h)"
  "receive_all (es @ fs) h = receive_all fs (receive_all es h)"
  by (simp_all add: receive_all_def)

lemma receive_close [simp]: "receive_all (close_effect ws v v') h = h"
  by (simp add: close_effect_def)

definition base_held :: "viewer \<Rightarrow> seen option \<Rightarrow> bool" where
  "base_held v h \<longleftrightarrow> vw_base v = None \<or> vw_delta v \<and> map_option se_lines h = map_option snd (vw_base v)"

lemma receive_group_output:
  assumes "\<And>b. base = Some b \<Longrightarrow> map_option se_lines h = Some (snd b)"
  shows "receive (SendFrame ws (group_output s data cursor reset base)) h =
     Some \<lparr>se_lines = split_mux_output_data data, se_cursor = cursor\<rparr>"
proof (cases base)
  case None
  then show ?thesis
    by (simp add: group_output_def full_output_def Let_def flat_def)
next
  case (Some b)
  then obtain x where x: "h = Some x" "se_lines x = snd b"
    using assms by auto
  show ?thesis
    using x Some take_common_prefix_append[of "snd b" "split_mux_output_data data"]
    by (simp add: group_output_def full_output_def Let_def flat_def choose_mux_output_frame_def create_mux_delta_frame_def
        mux_common_prefix_length_def)
qed

lemma plain_fields:
  assumes "plain v = plain w"
  shows "vw_tail v = vw_tail w" "vw_delta v = vw_delta w" "vw_full v = vw_full w" "vw_reset v = vw_reset w" "vw_shed v = vw_shed w"
    "pending_frame v = pending_frame w" "base_held v h = base_held w h"
  using assms unfolding plain_eq base_held_def pending_frame_def by (auto split: option.splits)

text \<open>A pass over one viewer: what it holds afterwards.\<close>

lemma viewer_pass_holds:
  assumes "viewer_pass env only fixed s content cursor ws v = (v', es)" and "base_held v h"
  shows "vw_tail v' = vw_tail v" "base_held v' (receive_all es h)"
    "pending_frame v' \<or> vw_shed v' \<or> only \<and> \<not> pending_frame v \<and> v' = v \<and> es = [] \<or>
       receive_all es h = Some \<lparr>se_lines = split_mux_output_data (viewer_data fixed content v), se_cursor = cursor\<rparr>"
proof -
  define v1 where "v1 = gathered env only ws v"
  have held: "base_held v1 h" and tail: "vw_tail v1 = vw_tail v"
    using assms(2) by (simp_all add: v1_def base_held_def gathered_same)
  have data: "viewer_data fixed content v1 = viewer_data fixed content v"
    by (simp add: viewer_data_def tail)
  have got: "receive (SendFrame ws (viewer_output s fixed content cursor v1)) h =
      Some \<lparr>se_lines = split_mux_output_data (viewer_data fixed content v), se_cursor = cursor\<rparr>"
    unfolding viewer_output_def data using held
    by (intro receive_group_output) (auto simp: base_held_def split: if_splits)
  have "vw_tail v' = vw_tail v \<and> base_held v' (receive_all es h) \<and>
      (pending_frame v' \<or> vw_shed v' \<or> only \<and> \<not> pending_frame v \<and> v' = v \<and> es = [] \<or>
       receive_all es h = Some \<lparr>se_lines = split_mux_output_data (viewer_data fixed content v), se_cursor = cursor\<rparr>)"
  proof (cases "eligible env only ws v")
    case False
    then have eq: "v' = v1" "es = close_effect ws v v1"
      using assms(1) by (auto simp: viewer_pass_def v1_def Let_def)
    obtain b w where m: "should_skip env ws v = (b, w)"
      by (cases "should_skip env ws v")
    have "pending_frame v1 \<or> vw_shed v1 \<or> only \<and> \<not> pending_frame v \<and> v1 = v"
      using False m by (auto simp: v1_def gathered_def eligible_def pending_frame_def)
    then show ?thesis
      using held tail by (auto simp: eq)
  next
    case True
    show ?thesis
    proof (cases "accepted env ws")
      case False
      then show ?thesis
        using assms(1) True held tail
        by (auto simp: viewer_pass_def v1_def[symmetric] flushed_def base_held_def pending_frame_def Let_def)
    next
      case acc: True
      have es: "receive_all es h = Some \<lparr>se_lines = split_mux_output_data (viewer_data fixed content v), se_cursor = cursor\<rparr>"
        and v': "v' = flushed env (viewer_data fixed content v) ws v1"
        using assms(1) True acc got data by (auto simp: viewer_pass_def v1_def[symmetric] Let_def)
      define v2 where "v2 = (if oe_status env ws = Queued then mark_blocked env ws v1 else v1)"
      have v': "v' = v2\<lparr>vw_base := (if vw_delta v2 then Some (0, split_mux_output_data (viewer_data fixed content v)) else vw_base v2),
          vw_full := False, vw_reset := None\<rparr>"
        using acc by (simp add: v' flushed_def v2_def Let_def)
      have v2: "vw_base v2 = vw_base v1" "vw_delta v2 = vw_delta v1" "vw_tail v2 = vw_tail v"
        by (simp_all add: v2_def tail)
      show ?thesis
        using es v2 held by (auto simp: v' base_held_def split: option.splits)
    qed
  qed
  then show "vw_tail v' = vw_tail v" "base_held v' (receive_all es h)"
    "pending_frame v' \<or> vw_shed v' \<or> only \<and> \<not> pending_frame v \<and> v' = v \<and> es = [] \<or>
       receive_all es h = Some \<lparr>se_lines = split_mux_output_data (viewer_data fixed content v), se_cursor = cursor\<rparr>"
    by simp_all
qed

section \<open>The invariant\<close>

text \<open>\<open>tracked\<close>: whether the cursor is covered.\<close>

definition holds_current :: "(jstr \<Rightarrow> jstr) \<Rightarrow> bool \<Rightarrow> out_session \<Rightarrow> nat option \<Rightarrow> seen option \<Rightarrow> bool" where
  "holds_current hash tracked s tail h \<longleftrightarrow>
     (\<exists>content x. h = Some x \<and> ou_hash s = Some (hash content) \<and>
        se_lines x = split_mux_output_data (content_for tail content) \<and> (tracked \<longrightarrow> se_cursor x = flat (ou_cursor s)))"

definition viewer_ok :: "(jstr \<Rightarrow> jstr) \<Rightarrow> bool \<Rightarrow> out_session \<Rightarrow> nat \<Rightarrow> seen option \<Rightarrow> bool" where
  "viewer_ok hash tracked s ws h \<longleftrightarrow>
     (let v = ou_view s ws in
      ws \<in> set (ou_viewers s) \<longrightarrow> pending_frame v \<or> vw_shed v \<or> holds_current hash tracked s (vw_tail v) h)"

text \<open>What every operation keeps; then what it brings.\<close>

definition links_ok :: "out_session \<Rightarrow> (nat \<Rightarrow> seen option) \<Rightarrow> bool" where
  "links_ok s H \<longleftrightarrow> bases_ok s \<and> (\<forall>ws. base_held (ou_view s ws) (H ws))"

definition session_ok :: "(jstr \<Rightarrow> jstr) \<Rightarrow> bool \<Rightarrow> out_session \<Rightarrow> (nat \<Rightarrow> seen option) \<Rightarrow> bool" where
  "session_ok hash tracked s H \<longleftrightarrow> links_ok s H \<and> distinct (ou_viewers s) \<and>
     (\<forall>c. ou_content s = Some c \<longrightarrow> ou_hash s = Some (hash c)) \<and>
     (\<forall>ws. viewer_ok hash tracked s ws (H ws))"

definition delivered :: "out_effect list \<Rightarrow> (nat \<Rightarrow> seen option) \<Rightarrow> nat \<Rightarrow> seen option" where
  "delivered es H ws = receive_all (effects_to ws es) (H ws)"

lemma delivered_simps [simp]:
  "delivered [] H = H" "delivered (es @ fs) H = delivered fs (delivered es H)"
  by (auto simp: delivered_def)

text \<open>An operation on the viewers in \<open>W\<close>: the others see nothing of it.\<close>

definition touches :: "nat set \<Rightarrow> out_session \<Rightarrow> out_session \<Rightarrow> out_effect list \<Rightarrow> bool" where
  "touches W s s' es \<longleftrightarrow> core s' = core s \<and> (\<forall>w. w \<notin> W \<longrightarrow> ou_view s' w = ou_view s w \<and> effects_to w es = [])"

lemma touches_trans: "touches V s s1 es \<Longrightarrow> touches W s1 s2 fs \<Longrightarrow> touches (V \<union> W) s s2 (es @ fs)"
  by (auto simp: touches_def)

lemma touches_mono: "touches V s s' es \<Longrightarrow> V \<subseteq> W \<Longrightarrow> touches W s s' es"
  by (auto simp: touches_def)

lemma touches_refl: "touches W s s []"
  by (simp add: touches_def)

lemma touches_delivered: "touches W s s' es \<Longrightarrow> w \<notin> W \<Longrightarrow> delivered es H w = H w"
  by (simp add: touches_def delivered_def)

lemma touches_fields:
  assumes "touches W s s' es"
  shows "ou_viewers s' = ou_viewers s" "ou_content s' = ou_content s" "ou_hash s' = ou_hash s" "ou_cursor s' = ou_cursor s"
    "ou_reflow s' = ou_reflow s" "ou_screen s' = ou_screen s" "ou_boundary s' = ou_boundary s" "ou_newarch s' = ou_newarch s"
  using assms core_fields[of s' s] by (simp_all add: touches_def)

lemma holds_current_touches: "touches W s s' es \<Longrightarrow> holds_current hash tracked s' = holds_current hash tracked s"
  by (simp add: holds_current_def touches_fields fun_eq_iff)

lemma viewer_ok_untouched:
  assumes "touches W s s' es" and "w \<notin> W"
  shows "viewer_ok hash tracked s' w (delivered es H w) = viewer_ok hash tracked s w (H w)"
proof -
  have "ou_view s' w = ou_view s w"
    using assms by (simp add: touches_def)
  then show ?thesis
    unfolding viewer_ok_def touches_delivered[OF assms] touches_fields[OF assms(1)] holds_current_touches[OF assms(1)] by simp
qed

text \<open>A grouped pass keeps the links, touches its viewers and brings them the content.\<close>

lemma send_grouped_ok:
  assumes links: "links_ok s H" and dist: "distinct viewers"
    and run: "send_grouped env only fixed viewers content cursor s = (s', es)"
  shows "links_ok s' (delivered es H)" "touches (set viewers) s s' es"
    "w \<in> set viewers \<Longrightarrow> (only \<Longrightarrow> \<not> pending_frame (ou_view s w) \<Longrightarrow> viewer_ok hash tracked s w (H w)) \<Longrightarrow>
       (\<exists>c. viewer_data fixed content (ou_view s w) = content_for (vw_tail (ou_view s w)) c \<and> ou_hash s = Some (hash c)) \<Longrightarrow>
       (tracked \<Longrightarrow> flat (ou_cursor s) = cursor) \<Longrightarrow> viewer_ok hash tracked s' w (delivered es H w)"
    "w \<in> set viewers \<Longrightarrow> only \<Longrightarrow> \<not> pending_frame (ou_view s w) \<Longrightarrow> plain (ou_view s' w) = plain (ou_view s w) \<and> effects_to w es = []"
    "w \<in> set viewers \<Longrightarrow> vw_tail (ou_view s' w) = vw_tail (ou_view s w)"
proof -
  have ok: "bases_ok s" "\<And>w. base_held (ou_view s w) (H w)"
    using links by (simp_all add: links_ok_def)
  note P = send_grouped_pass[OF ok(1) dist run]
  show touches: "touches (set viewers) s s' es"
    using P(1,3) by (simp add: touches_def)
  have pass: "vw_tail (ou_view s' w) = vw_tail (ou_view s w) \<and> base_held (ou_view s' w) (delivered es H w) \<and>
      (pending_frame (ou_view s' w) \<or> vw_shed (ou_view s' w) \<or>
       only \<and> \<not> pending_frame (ou_view s w) \<and> plain (ou_view s' w) = plain (ou_view s w) \<and> effects_to w es = [] \<or>
       delivered es H w = Some \<lparr>se_lines = split_mux_output_data (viewer_data fixed content (ou_view s w)), se_cursor = cursor\<rparr>)"
    if w: "w \<in> set viewers" for w
  proof -
    obtain v' fs where vp: "viewer_pass env only fixed s content cursor w (ou_view s w) = (v', fs)"
      by (cases "viewer_pass env only fixed s content cursor w (ou_view s w)")
    then have eq: "plain (ou_view s' w) = plain v'" "effects_to w es = fs"
      using P(4)[OF w] by simp_all
    have d: "delivered es H w = receive_all fs (H w)"
      by (simp add: delivered_def eq(2))
    note H = viewer_pass_holds[OF vp ok(2)]
    have "only \<and> \<not> pending_frame (ou_view s w) \<and> v' = ou_view s w \<and> fs = [] \<longrightarrow>
        only \<and> \<not> pending_frame (ou_view s w) \<and> plain (ou_view s' w) = plain (ou_view s w) \<and> effects_to w es = []"
      using eq by blast
    then show ?thesis
      unfolding d plain_fields(1,5,6,7)[OF eq(1)] using H by blast
  qed
  show "links_ok s' (delivered es H)"
    unfolding links_ok_def
  proof (intro conjI allI)
    fix w
    show "base_held (ou_view s' w) (delivered es H w)"
    proof (cases "w \<in> set viewers")
      case True
      then show ?thesis
        using pass by blast
    next
      case False
      show ?thesis
        using P(3)[OF False] ok(2)[of w] by (simp add: delivered_def)
    qed
  qed (rule P(2))
  show "viewer_ok hash tracked s' w (delivered es H w)"
    if w: "w \<in> set viewers" and same: "only \<Longrightarrow> \<not> pending_frame (ou_view s w) \<Longrightarrow> viewer_ok hash tracked s w (H w)"
      and data: "\<exists>c. viewer_data fixed content (ou_view s w) = content_for (vw_tail (ou_view s w)) c \<and> ou_hash s = Some (hash c)"
      and cursor: "tracked \<Longrightarrow> flat (ou_cursor s) = cursor"
  proof -
    consider "pending_frame (ou_view s' w) \<or> vw_shed (ou_view s' w)"
      | "only" "\<not> pending_frame (ou_view s w)" "plain (ou_view s' w) = plain (ou_view s w)" "effects_to w es = []"
      | "delivered es H w = Some \<lparr>se_lines = split_mux_output_data (viewer_data fixed content (ou_view s w)), se_cursor = cursor\<rparr>"
      using pass[OF w] by blast
    then show ?thesis
    proof cases
      case 1
      then show ?thesis
        unfolding viewer_ok_def Let_def by blast
    next
      case 2
      then have "delivered es H w = H w"
        by (simp add: delivered_def)
      then show ?thesis
        using same[OF 2(1,2)]
        unfolding viewer_ok_def Let_def touches_fields[OF touches] holds_current_touches[OF touches] plain_fields(1,5,6)[OF 2(3)]
        by simp
    next
      case 3
      then have "holds_current hash tracked s' (vw_tail (ou_view s w)) (delivered es H w)"
        unfolding holds_current_touches[OF touches] using data cursor by (auto simp: holds_current_def)
      then show ?thesis
        unfolding viewer_ok_def Let_def using pass[OF w] by metis
    qed
  qed
  show "plain (ou_view s' w) = plain (ou_view s w) \<and> effects_to w es = []"
    if "w \<in> set viewers" "only" "\<not> pending_frame (ou_view s w)"
    using P(4)[OF that(1)] that by (simp add: viewer_pass_def gathered_def eligible_def)
  show "vw_tail (ou_view s' w) = vw_tail (ou_view s w)" if "w \<in> set viewers"
    using pass[OF that] by blast
qed

section \<open>Single sends\<close>

lemma links_ok_cong: "ou_view s' = ou_view s \<Longrightarrow> ou_fresh s' = ou_fresh s \<Longrightarrow> links_ok s' H = links_ok s H"
  by (simp add: links_ok_def bases_ok_def bases_def)

lemma viewer_ok_cong:
  assumes "ou_view s' w = ou_view s w" "ou_viewers s' = ou_viewers s" "ou_hash s' = ou_hash s"
    and "tracked \<Longrightarrow> flat (ou_cursor s') = flat (ou_cursor s)"
  shows "viewer_ok hash tracked s' w h = viewer_ok hash tracked s w h"
  using assms by (auto simp: viewer_ok_def holds_current_def Let_def)

lemma viewer_ok_weak: "viewer_ok hash tracked s w h \<Longrightarrow> viewer_ok hash False s w h"
  by (auto simp: viewer_ok_def holds_current_def Let_def)

lemma viewer_ok_pending: "pending_frame (ou_view s w) \<Longrightarrow> viewer_ok hash tracked s w h"
  by (simp add: viewer_ok_def Let_def)

lemma put_touches [simp]: "touches {ws} s (put_view ws v s) es \<longleftrightarrow> (\<forall>w. w \<noteq> ws \<longrightarrow> effects_to w es = [])"
  by (auto simp: touches_def)

lemma links_ok_put:
  assumes "links_ok s H" and "vw_base v = vw_base (ou_view s ws)" and "base_held v (H' ws)"
    and "\<And>w. w \<noteq> ws \<Longrightarrow> H' w = H w"
  shows "links_ok (put_view ws v s) H'"
proof -
  have "bases (put_view ws v s) = bases s"
    using assms(2) by (auto simp: bases_def split: if_splits)
  then show ?thesis
    using assms by (auto simp: links_ok_def bases_ok_def)
qed

lemma base_held_lines:
  "base_held v h \<Longrightarrow> vw_base v' = vw_base v \<Longrightarrow> vw_delta v' = vw_delta v \<Longrightarrow> map_option se_lines h' = map_option se_lines h \<Longrightarrow>
     base_held v' h'"
  by (simp add: base_held_def)

lemma send_cursor_ok:
  assumes links: "links_ok s H" and run: "send_cursor env cursor ws s = (s', es)"
  shows "links_ok s' (delivered es H) \<and> touches {ws} s s' es \<and>
     (viewer_ok hash False s ws (H ws) \<longrightarrow> (tracked \<longrightarrow> flat (ou_cursor s) = cursor) \<longrightarrow> viewer_ok hash tracked s' ws (delivered es H ws))"
proof -
  define v where "v = ou_view s ws"
  obtain skip v1 where m: "should_skip env ws v = (skip, v1)"
    by (cases "should_skip env ws v")
  note same = should_skip_same[OF m]
  define v2 where "v2 = (if oe_status env ws = Queued then mark_blocked env ws v1 else v1)"
  have v2: "vw_base v2 = vw_base v" "vw_delta v2 = vw_delta v" "vw_tail v2 = vw_tail v" "vw_full v2 = vw_full v" "vw_reset v2 = vw_reset v"
    "vw_shed v \<Longrightarrow> vw_shed v2"
    using same by (simp_all add: v2_def)
  have held: "base_held v (H ws)"
    using links by (simp add: links_ok_def v_def)
  consider (owed) v' where "s' = put_view ws v' s" "es = close_effect ws v v1" "vw_base v' = vw_base v" "vw_delta v' = vw_delta v"
      "pending_frame v' \<or> vw_shed v'"
    | (sent) "s' = put_view ws v2 s" "es = close_effect ws v v1 @ SendCursor ws cursor # close_effect ws v1 v2"
    using run m same unfolding send_cursor_def v_def[symmetric] Let_def v2_def
    by (auto simp: pending_frame_def split: if_splits)
  then show ?thesis
  proof cases
    case owed
    have "base_held v' (delivered es H ws)"
      using held owed by (auto simp: delivered_def intro: base_held_lines)
    then show ?thesis
      using owed links_ok_put[OF links, of v' ws] by (auto simp: v_def[symmetric] delivered_def viewer_ok_def Let_def)
  next
    case sent
    have d: "delivered es H w = (if w = ws then map_option (\<lambda>x. x\<lparr>se_cursor := cursor\<rparr>) (H ws) else H w)" for w
      by (simp add: sent delivered_def)
    have "base_held v2 (delivered es H ws)"
      using held v2(1,2) by (rule base_held_lines) (cases "H ws"; simp add: d)
    moreover have "viewer_ok hash tracked s' ws (delivered es H ws)"
      if ok: "viewer_ok hash False s ws (H ws)" and c: "tracked \<longrightarrow> flat (ou_cursor s) = cursor"
    proof (cases "ws \<in> set (ou_viewers s) \<and> \<not> pending_frame v \<and> \<not> vw_shed v")
      case True
      then have "holds_current hash False s (vw_tail v) (H ws)"
        using ok by (simp add: viewer_ok_def Let_def v_def)
      then have "holds_current hash tracked s' (vw_tail v) (delivered es H ws)"
        using c by (auto simp: holds_current_def d sent(1) put_view_def)
      then show ?thesis
        by (simp add: viewer_ok_def sent v2 Let_def)
    next
      case False
      then show ?thesis
        using v2 by (auto simp: viewer_ok_def sent Let_def pending_frame_def put_view_def)
    qed
    ultimately show ?thesis
      using links_ok_put[OF links, of v2 ws "delivered es H"] v2 d by (simp add: sent v_def[symmetric] close_effect_def)
  qed
qed

lemma sent_to_ok:
  assumes links: "links_ok s H" and run: "sent_to env content cursor ws s = (s', es)" and "ou_hash s = Some (hash content)"
  shows "links_ok s' (delivered es H) \<and> touches {ws} s s' es \<and>
     ((tracked \<longrightarrow> flat (ou_cursor s) = cursor) \<longrightarrow> viewer_ok hash tracked s' ws (delivered es H ws))"
proof -
  have run: "send_grouped env False True [ws] (content_for (vw_tail (ou_view s ws)) content) cursor s = (s', es)"
    using run by (simp add: sent_to_def send_output_def)
  note P = send_grouped_ok[OF links _ run, simplified]
  show ?thesis
    using P(1,2) P(3)[of ws hash tracked] assms(3) by (auto simp: viewer_data_def)
qed

lemma for_viewers_ok:
  assumes step: "\<And>ws s s' es H. links_ok s H \<Longrightarrow> C (core s) \<Longrightarrow> f ws s = (s', es) \<Longrightarrow> viewer_ok hash False s ws (H ws) \<Longrightarrow>
      links_ok s' (delivered es H) \<and> touches {ws} s s' es \<and> viewer_ok hash tracked s' ws (delivered es H ws)"
    and "links_ok s H" "C (core s)" "distinct wss" "\<forall>w \<in> set wss. viewer_ok hash False s w (H w)"
    and "for_viewers f wss s = (s', es)"
  shows "links_ok s' (delivered es H) \<and> touches (set wss) s s' es \<and> (\<forall>w \<in> set wss. viewer_ok hash tracked s' w (delivered es H w))"
  using assms(2-)
proof (induction wss arbitrary: s H es)
  case Nil
  then show ?case
    by (simp add: touches_refl)
next
  case (Cons ws wss)
  obtain s1 e1 where one: "f ws s = (s1, e1)"
    by (cases "f ws s")
  obtain e2 where rest: "for_viewers f wss s1 = (s', e2)" and es: "es = e1 @ e2"
    using Cons.prems(5) one by (auto split: prod.splits)
  have S: "links_ok s1 (delivered e1 H)" "touches {ws} s s1 e1" "viewer_ok hash tracked s1 ws (delivered e1 H ws)"
    using step[OF Cons.prems(1,2) one] Cons.prems(4) by simp_all
  have C: "C (core s1)"
    using S(2) Cons.prems(2) by (simp add: touches_def)
  have others: "\<forall>w \<in> set wss. viewer_ok hash False s1 w (delivered e1 H w)"
  proof
    fix w
    assume w: "w \<in> set wss"
    then have "w \<notin> {ws}"
      using Cons.prems(3) by auto
    then show "viewer_ok hash False s1 w (delivered e1 H w)"
      using viewer_ok_untouched[OF S(2)] Cons.prems(4) w by simp
  qed
  have T: "links_ok s' (delivered e2 (delivered e1 H))" "touches (set wss) s1 s' e2"
    "\<forall>w \<in> set wss. viewer_ok hash tracked s' w (delivered e2 (delivered e1 H) w)"
    using Cons.IH[OF S(1) C _ others rest] Cons.prems(3) by simp_all
  have "viewer_ok hash tracked s' ws (delivered e2 (delivered e1 H) ws)"
    using viewer_ok_untouched[OF T(2), of ws] S(3) Cons.prems(3) by simp
  then show ?case
    using T touches_trans[OF S(2) T(2)] by (simp add: es)
qed

section \<open>Publishing\<close>

definition published :: "(jstr \<Rightarrow> jstr) \<Rightarrow> bool \<Rightarrow> out_session \<Rightarrow> out_session \<Rightarrow> (nat \<Rightarrow> seen option) \<Rightarrow> bool" where
  "published hash tracked s s' H \<longleftrightarrow> links_ok s' H \<and> ou_viewers s' = ou_viewers s \<and> ou_content s' = ou_content s \<and>
     ou_hash s' = ou_hash s \<and> (\<forall>w. viewer_ok hash tracked s' w (H w))"

lemma viewer_ok_other: "w \<notin> set (ou_viewers s) \<Longrightarrow> viewer_ok hash tracked s w h"
  by (simp add: viewer_ok_def Let_def)

lemma all_viewers:
  assumes "touches (set (ou_viewers s)) s s' es" and "\<And>w. w \<in> set (ou_viewers s) \<Longrightarrow> viewer_ok hash tracked s' w (delivered es H w)"
    and "links_ok s' (delivered es H)"
  shows "published hash tracked s s' (delivered es H)"
proof -
  have "viewer_ok hash tracked s' w (delivered es H w)" for w
    using assms(2) viewer_ok_other[of w s'] touches_fields(1)[OF assms(1)] by (cases "w \<in> set (ou_viewers s)") simp_all
  then show ?thesis
    using assms(3) touches_fields[OF assms(1)] by (simp add: published_def)
qed

text \<open>The whole content to everybody.\<close>

lemma broadcast_all_ok:
  assumes "links_ok s H" and "distinct (ou_viewers s)" and "ou_hash s = Some (hash content)" and "tracked \<longrightarrow> flat (ou_cursor s) = cursor"
    and "send_grouped env False False (ou_viewers s) content cursor s = (s', es)"
  shows "published hash tracked s s' (delivered es H)"
proof (rule all_viewers)
  note P = send_grouped_ok[OF assms(1,2,5)]
  show "touches (set (ou_viewers s)) s s' es" "links_ok s' (delivered es H)"
    by (rule P(1,2))+
  show "viewer_ok hash tracked s' w (delivered es H w)" if "w \<in> set (ou_viewers s)" for w
    using P(3)[OF that] assms(3,4) by (auto simp: viewer_data_def)
qed

text \<open>The cursor to everybody who holds the content.\<close>

lemma cursor_all_ok:
  assumes "links_ok s H" and "distinct wss" and "\<forall>w \<in> set wss. viewer_ok hash False s w (H w)" and "tracked \<longrightarrow> flat (ou_cursor s) = cursor"
    and "for_viewers (send_cursor env cursor) wss s = (s', es)"
  shows "links_ok s' (delivered es H) \<and> touches (set wss) s s' es \<and> (\<forall>w \<in> set wss. viewer_ok hash tracked s' w (delivered es H w))"
proof (rule for_viewers_ok[where C = "\<lambda>k. tracked \<longrightarrow> flat (ou_cursor k) = cursor", OF _ assms(1) _ assms(2,3,5)])
  show "tracked \<longrightarrow> flat (ou_cursor (core s)) = cursor"
    using assms(4) by (simp add: core_def)
  show "links_ok s' (delivered es H) \<and> touches {ws} s s' es \<and> viewer_ok hash tracked s' ws (delivered es H ws)"
    if "links_ok s H" "tracked \<longrightarrow> flat (ou_cursor (core s)) = cursor" "send_cursor env cursor ws s = (s', es)"
      "viewer_ok hash False s ws (H ws)" for ws s s' es H
    using send_cursor_ok[OF that(1,3), of hash tracked] that(2,4) by (simp add: core_def)
qed

lemma content_all_ok:
  assumes "links_ok s H" and "distinct wss" and "\<forall>w \<in> set wss. viewer_ok hash False s w (H w)" and "tracked \<longrightarrow> flat (ou_cursor s) = cursor"
    and "ou_hash s = Some (hash content)" and "for_viewers (sent_to env content cursor) wss s = (s', es)"
  shows "links_ok s' (delivered es H) \<and> touches (set wss) s s' es \<and> (\<forall>w \<in> set wss. viewer_ok hash tracked s' w (delivered es H w))"
proof (rule for_viewers_ok[where C = "\<lambda>k. (tracked \<longrightarrow> flat (ou_cursor k) = cursor) \<and> ou_hash k = Some (hash content)", OF _ assms(1) _ assms(2,3,6)])
  show "(tracked \<longrightarrow> flat (ou_cursor (core s)) = cursor) \<and> ou_hash (core s) = Some (hash content)"
    using assms(4,5) by (simp add: core_def)
  show "links_ok s' (delivered es H) \<and> touches {ws} s s' es \<and> viewer_ok hash tracked s' ws (delivered es H ws)"
    if "links_ok s H" "(tracked \<longrightarrow> flat (ou_cursor (core s)) = cursor) \<and> ou_hash (core s) = Some (hash content)"
      "sent_to env content cursor ws s = (s', es)" "viewer_ok hash False s ws (H ws)" for ws s s' es H
    using sent_to_ok[OF that(1,3), of hash tracked] that(2) by (simp add: core_def)
qed

text \<open>The pending viewers first, the others by what changed.\<close>

lemma pending_pass_ok:
  assumes "links_ok s H" and "distinct (ou_viewers s)" and "ou_hash s = Some (hash content)" and "tracked \<longrightarrow> flat (ou_cursor s) = cursor"
    and "\<forall>w. viewer_ok hash base s w (H w)" and "send_grouped env True False (ou_viewers s) content cursor s = (s', es)"
  shows "links_ok s' (delivered es H)" "touches (set (ou_viewers s)) s s' es"
    "\<forall>w. pending_frame (ou_view s w) \<longrightarrow> viewer_ok hash tracked s' w (delivered es H w)"
    "\<forall>w. viewer_ok hash (tracked \<and> base) s' w (delivered es H w)"
proof -
  note P = send_grouped_ok[OF assms(1,2,6)]
  show "links_ok s' (delivered es H)" "touches (set (ou_viewers s)) s s' es"
    by (rule P(1,2))+
  have ok: "viewer_ok hash t s' w (delivered es H w)"
    if "w \<in> set (ou_viewers s)" "t \<Longrightarrow> tracked" "\<not> pending_frame (ou_view s w) \<Longrightarrow> viewer_ok hash t s w (H w)" for w t
  proof (rule P(3)[OF that(1)])
    show "t \<Longrightarrow> flat (ou_cursor s) = cursor"
      using that(2) assms(4) by blast
  qed (use that assms(3) in \<open>auto simp: viewer_data_def\<close>)
  show "\<forall>w. pending_frame (ou_view s w) \<longrightarrow> viewer_ok hash tracked s' w (delivered es H w)"
  proof (intro allI impI)
    fix w
    assume "pending_frame (ou_view s w)"
    then show "viewer_ok hash tracked s' w (delivered es H w)"
      using ok[of w tracked] viewer_ok_other[of w s'] touches_fields(1)[OF P(2)] by (cases "w \<in> set (ou_viewers s)") simp_all
  qed
  show "\<forall>w. viewer_ok hash (tracked \<and> base) s' w (delivered es H w)"
  proof
    fix w
    have "viewer_ok hash (tracked \<and> base) s w (H w)"
      using assms(5) viewer_ok_weak[of hash base s w] by (cases tracked; cases base) simp_all
    then show "viewer_ok hash (tracked \<and> base) s' w (delivered es H w)"
      using ok[of w "tracked \<and> base"] viewer_ok_other[of w s'] touches_fields(1)[OF P(2)] by (cases "w \<in> set (ou_viewers s)") simp_all
  qed
qed

lemma eq_flat: "flat (Some x) = x"
  by (simp add: flat_def)

lemma publish_same_ok:
  assumes links: "links_ok s H" and dist: "distinct (ou_viewers s)" and hash: "ou_hash s = Some (hash (cs_content c))"
    and ok: "\<forall>w. viewer_ok hash tracked s w (H w)" and run: "publish_same env c s = (s', es)"
  shows "published hash tracked s s' (delivered es H)"
proof -
  define cursor where "cursor = sampled_cursor c s"
  define s1 where "s1 = sampled_same c s"
  define others where "others = filter (\<lambda>ws. \<not> pending_frame (ou_view s ws)) (ou_viewers s)"
  have s1: "ou_view s1 = ou_view s" "ou_fresh s1 = ou_fresh s" "ou_viewers s1 = ou_viewers s" "ou_hash s1 = ou_hash s"
    "ou_content s1 = ou_content s"
    by (simp_all add: s1_def sampled_same_def)
  have cur: "flat (ou_cursor s1) = cursor"
    by (auto simp: s1_def sampled_same_def sampled_cursor_def cursor_def cursor_moved_def eq_flat split: option.splits)
  have moved: "cursor_moved c s \<Longrightarrow> flat (cs_cursor c) = cursor"
    by (auto simp: cursor_def sampled_cursor_def cursor_moved_def eq_flat split: option.splits)
  have still: "\<not> cursor_moved c s \<Longrightarrow> flat (ou_cursor s1) = flat (ou_cursor s)"
    by (simp add: s1_def sampled_same_def)
  have l1: "links_ok s1 H" "distinct (ou_viewers s1)" "ou_hash s1 = Some (hash (cs_content c))"
    using links dist hash links_ok_cong[OF s1(1,2)] by (simp_all add: s1)
  have weak: "\<forall>w. viewer_ok hash False s1 w (H w)"
    using ok viewer_ok_weak[of hash tracked s] viewer_ok_cong[of s1 _ s False hash] s1 by simp
  have kept: "\<forall>w. viewer_ok hash tracked s1 w (H w)" if "\<not> cursor_moved c s"
    using ok viewer_ok_cong[of s1 _ s tracked hash] s1 still[OF that] by simp
  have pub: "published hash tracked s1 s' (delivered es H) \<Longrightarrow> published hash tracked s s' (delivered es H)"
    by (simp add: published_def s1)
  note run = run[unfolded publish_same_def Let_def, folded s1_def cursor_def others_def]
  show ?thesis
  proof (rule pub, cases "filter (\<lambda>ws. pending_frame (ou_view s ws)) (ou_viewers s) \<noteq> []")
    case True
    obtain s2 e2 where two: "send_grouped env True False (ou_viewers s1) (cs_content c) cursor s1 = (s2, e2)"
      by (cases "send_grouped env True False (ou_viewers s1) (cs_content c) cursor s1")
    define moved_all where "moved_all = (screen_moved c s \<or> boundary_moved c s)"
    obtain e3 where three: "(if moved_all then for_viewers (sent_to env (cs_content c) cursor) others s2
                            else if cursor_moved c s then for_viewers (send_cursor env (flat (cs_cursor c))) others s2
                            else (s2, [])) = (s', e3)" and es: "es = e2 @ e3"
      using run True two by (auto simp: moved_all_def[symmetric] split: prod.splits)
    have tc: "tracked \<longrightarrow> flat (ou_cursor s1) = cursor"
      using cur by simp
    note Q = pending_pass_ok[OF l1 tc weak two]
    have c2: "tracked \<longrightarrow> flat (ou_cursor s2) = cursor" and h2: "ou_hash s2 = Some (hash (cs_content c))"
      using cur l1(3) touches_fields[OF Q(2)] by simp_all
    have dist2: "distinct others"
      using dist by (simp add: others_def)
    have weak2: "\<forall>w \<in> set others. viewer_ok hash False s2 w (delivered e2 H w)"
      using Q(4) by simp
    have rest: "links_ok s' (delivered e3 (delivered e2 H)) \<and> touches (set others) s2 s' e3 \<and>
        (moved_all \<or> cursor_moved c s \<longrightarrow> (\<forall>w \<in> set others. viewer_ok hash tracked s' w (delivered e3 (delivered e2 H) w)))"
    proof (cases moved_all)
      case True
      then show ?thesis
        using three content_all_ok[OF Q(1) dist2 weak2 c2 h2, of env s' e3] by simp
    next
      case False
      then show ?thesis
        using three Q(1) moved cursor_all_ok[OF Q(1) dist2 weak2, of tracked cursor env s' e3] c2
        by (cases "cursor_moved c s") (auto simp: touches_refl)
    qed
    have "viewer_ok hash tracked s' w (delivered es H w)" if w: "w \<in> set (ou_viewers s1)" for w
    proof (cases "w \<in> set others \<and> (moved_all \<or> cursor_moved c s)")
      case True
      then show ?thesis
        using rest by (simp add: es)
    next
      case F: False
      show ?thesis
      proof (cases "w \<in> set others")
        case True
        then have held: "\<forall>w. viewer_ok hash tracked s1 w (H w)" and same: "s' = s2" "e3 = []"
          using F kept three by auto
        show ?thesis
          using pending_pass_ok(4)[OF l1 tc held two] same by (simp add: es)
      next
        case False
        then have "pending_frame (ou_view s1 w)"
          using w by (simp add: others_def s1)
        then have "viewer_ok hash tracked s2 w (delivered e2 H w)"
          using Q(3) by blast
        then show ?thesis
          using viewer_ok_untouched[of "set others" s2 s' e3 w] rest False by (simp add: es)
      qed
    qed
    moreover have "touches (set (ou_viewers s1)) s1 s' es"
      unfolding es by (rule touches_mono[OF touches_trans[OF Q(2)]]) (use rest s1 in \<open>auto simp: others_def\<close>)
    ultimately show "published hash tracked s1 s' (delivered es H)"
      using rest by (intro all_viewers) (simp_all add: es)
  next
    case False
    have tc: "tracked \<longrightarrow> flat (ou_cursor s1) = cursor"
      using cur by simp
    consider "send_grouped env False False (ou_viewers s1) (cs_content c) cursor s1 = (s', es)"
      | "cursor_moved c s" "for_viewers (send_cursor env (flat (cs_cursor c))) (ou_viewers s1) s1 = (s', es)"
      | "\<not> cursor_moved c s" "s' = s1" "es = []"
      using run[unfolded if_not_P[OF False]] by (metis Pair_inject)
    then show "published hash tracked s1 s' (delivered es H)"
    proof cases
      case 1
      show ?thesis
        by (rule broadcast_all_ok[where hash = hash, OF l1 tc 1])
    next
      case 2
      have weak1: "\<forall>w \<in> set (ou_viewers s1). viewer_ok hash False s1 w (H w)"
        using weak by blast
      have "for_viewers (send_cursor env cursor) (ou_viewers s1) s1 = (s', es)"
        using 2 moved by simp
      note R = cursor_all_ok[OF l1(1,2) weak1 tc this]
      show ?thesis
        by (rule all_viewers) (use R in blast)+
    next
      case 3
      then show ?thesis
        using kept l1(1) by (simp add: published_def)
    qed
  qed
qed

lemma publish_changed_ok:
  assumes "links_ok s H" and "distinct (ou_viewers s)" and "ou_hash s = Some (hash (cs_content c))"
    and run: "publish_changed env c s = (s', es)"
  shows "published hash tracked s s' (delivered es H)"
proof -
  define s1 where "s1 = s\<lparr>ou_boundary := (if cs_boundary c = None then ou_boundary s else cs_boundary c),
             ou_cursor := Some (flat (cs_cursor c)),
             ou_screen := (if cs_screen c = None then ou_screen s else cs_screen c)\<rparr>"
  have s1: "ou_view s1 = ou_view s" "ou_fresh s1 = ou_fresh s" "ou_viewers s1 = ou_viewers s" "ou_hash s1 = ou_hash s"
    "ou_content s1 = ou_content s" "flat (ou_cursor s1) = flat (cs_cursor c)"
    by (simp_all add: s1_def eq_flat)
  have send: "send_grouped env False False (ou_viewers s1) (cs_content c) (flat (cs_cursor c)) s1 = (s', es)"
    using run by (simp add: publish_changed_def s1_def Let_def)
  have "links_ok s1 H" "distinct (ou_viewers s1)" "ou_hash s1 = Some (hash (cs_content c))"
    "tracked \<longrightarrow> flat (ou_cursor s1) = flat (cs_cursor c)"
    using assms(1-3) links_ok_cong[OF s1(1,2)] by (simp_all add: s1)
  from broadcast_all_ok[where hash = hash, OF this send] show ?thesis
    by (simp add: published_def s1)
qed

lemma session_okI:
  assumes "published hash tracked s s' H" and "distinct (ou_viewers s)"
    and "\<And>c. ou_content s = Some c \<Longrightarrow> ou_hash s = Some (hash c)"
  shows "session_ok hash tracked s' H"
  using assms by (auto simp: published_def session_ok_def split: option.splits)

lemma publish_capture_ok:
  assumes ok: "session_ok hash tracked s H" and run: "publish_capture hash env c s = (s', es)"
  shows "session_ok hash tracked s' (delivered es H)"
proof -
  define s1 where "s1 = s\<lparr>ou_reflow := ou_reflow s \<and> \<not> cs_reflowed c, ou_content := Some (cs_content c)\<rparr>"
  define s2 where "s2 = s1\<lparr>ou_hash := Some (hash (cs_content c))\<rparr>"
  have l: "links_ok s1 H" "distinct (ou_viewers s1)" "links_ok s2 H" "distinct (ou_viewers s2)"
    using ok links_ok_cong[of s1 s H] links_ok_cong[of s2 s H] by (simp_all add: session_ok_def s1_def s2_def)
  show ?thesis
  proof (cases "ou_hash s1 = Some (hash (cs_content c))")
    case True
    have "\<forall>w. viewer_ok hash tracked s1 w (H w)"
      using ok viewer_ok_cong[of s1 _ s tracked hash] by (simp add: session_ok_def s1_def)
    moreover have "publish_same env c s1 = (s', es)"
      using run True by (simp add: publish_capture_def s1_def[symmetric] Let_def)
    ultimately have "published hash tracked s1 s' (delivered es H)"
      using publish_same_ok[where hash = hash, OF l(1,2) True] by blast
    then show ?thesis
      by (rule session_okI) (use l True in \<open>auto simp: s1_def\<close>)
  next
    case False
    then have "publish_changed env c s2 = (s', es)"
      using run by (simp add: publish_capture_def s1_def[symmetric] s2_def[symmetric] Let_def)
    then have "published hash tracked s2 s' (delivered es H)"
      by (intro publish_changed_ok[OF l(3,4)]) (simp add: s2_def)
    then show ?thesis
      by (rule session_okI) (use l in \<open>auto simp: s2_def s1_def\<close>)
  qed
qed

section \<open>The operations\<close>

lemma foldl_put_view:
  assumes "\<And>s ws. ou_view (f s ws) = (ou_view s)(ws := g (ou_view s ws))" and "\<And>v. g (g v) = g v"
  shows "ou_view (foldl f s wss) w = (if w \<in> set wss then g (ou_view s w) else ou_view s w)"
  using assms by (induction wss arbitrary: s) auto

lemma foldl_keeps: "(\<And>s ws. F (f s ws) = F s) \<Longrightarrow> F (foldl f s wss) = F s"
  by (induction wss arbitrary: s) auto

lemma reset_all_view:
  "ou_view (reset_all r s) w =
     (if w \<in> set (ou_viewers s) then (ou_view s w)\<lparr>vw_base := None, vw_reset := Some r\<rparr> else ou_view s w)"
  unfolding reset_all_def by (rule foldl_put_view) (auto simp: require_reset_def put_view_def)

lemma reset_all_core [simp]: "core (reset_all r s) = core s" "ou_fresh (reset_all r s) = ou_fresh s"
  unfolding reset_all_def by (rule foldl_keeps, simp add: require_reset_def)+

lemma require_full_all_view:
  "ou_view (require_full_all s) w = (if w \<in> set (ou_viewers s) then (ou_view s w)\<lparr>vw_full := True\<rparr> else ou_view s w)"
  unfolding require_full_all_def by (rule foldl_put_view) (auto simp: require_full_def put_view_def)

lemma require_full_all_core [simp]: "core (require_full_all s) = core s" "ou_fresh (require_full_all s) = ou_fresh s"
  unfolding require_full_all_def by (rule foldl_keeps, simp add: require_full_def)+

lemma links_ok_weaker:
  assumes "links_ok s H" and "\<And>w. vw_base (ou_view s' w) = None \<or>
      vw_base (ou_view s' w) = vw_base (ou_view s w) \<and> vw_delta (ou_view s' w) = vw_delta (ou_view s w)"
    and "ou_fresh s' = ou_fresh s"
  shows "links_ok s' H"
proof -
  have "bases s' \<subseteq> bases s"
  proof
    fix b
    assume "b \<in> bases s'"
    then obtain w where "vw_base (ou_view s' w) = Some b"
      by (auto simp: bases_def)
    then show "b \<in> bases s"
      using assms(2)[of w] by (auto simp: bases_def)
  qed
  then have "bases_ok s'"
    using assms(1,3) ids_ok_mono by (auto simp: links_ok_def bases_ok_def)
  moreover have "base_held (ou_view s' w) (H w)" for w
  proof -
    have "base_held (ou_view s w) (H w)"
      using assms(1) by (simp add: links_ok_def)
    then show ?thesis
      using assms(2)[of w] unfolding base_held_def by presburger
  qed
  ultimately show ?thesis
    by (simp add: links_ok_def)
qed

text \<open>Changes that send nothing.\<close>

lemma session_ok_update:
  assumes "session_ok hash tracked s H"
    and "\<And>w. vw_base (ou_view s' w) = None \<or> vw_base (ou_view s' w) = vw_base (ou_view s w) \<and> vw_delta (ou_view s' w) = vw_delta (ou_view s w)"
    and "ou_fresh s' = ou_fresh s" and "distinct (ou_viewers s')"
    and "ou_content s' = None \<or> ou_content s' = ou_content s \<and> ou_hash s' = ou_hash s"
    and "\<And>w. w \<in> set (ou_viewers s') \<Longrightarrow> pending_frame (ou_view s' w) \<or> vw_shed (ou_view s' w) \<or>
       w \<in> set (ou_viewers s) \<and> vw_tail (ou_view s' w) = vw_tail (ou_view s w) \<and> \<not> pending_frame (ou_view s w) \<and> \<not> vw_shed (ou_view s w) \<and>
       ou_hash s' = ou_hash s \<and> (tracked \<longrightarrow> flat (ou_cursor s') = flat (ou_cursor s))"
  shows "session_ok hash tracked s' H"
proof -
  have links: "links_ok s' H"
    using assms(1) links_ok_weaker[OF _ assms(2,3)] by (simp add: session_ok_def)
  have view: "viewer_ok hash tracked s' w (H w)" for w
  proof -
    have "viewer_ok hash tracked s w (H w)"
      using assms(1) by (simp add: session_ok_def)
    then show ?thesis
      using assms(6)[of w] by (auto simp: viewer_ok_def holds_current_def Let_def)
  qed
  have content: "\<forall>c. ou_content s' = Some c \<longrightarrow> ou_hash s' = Some (hash c)"
    using assms(1,5) by (auto simp: session_ok_def)
  show ?thesis
    using links view content assms(4) by (simp add: session_ok_def)
qed

lemma session_ok_put:
  assumes "session_ok hash tracked s H" and "vw_tail v = vw_tail (ou_view s ws)" and "vw_base v = vw_base (ou_view s ws)"
    and "vw_delta v = vw_delta (ou_view s ws)" and "pending_frame v = pending_frame (ou_view s ws)" and "vw_shed (ou_view s ws) \<Longrightarrow> vw_shed v"
  shows "session_ok hash tracked (put_view ws v s) H"
proof (rule session_ok_update[OF assms(1)])
  show "distinct (ou_viewers (put_view ws v s))"
    using assms(1) by (simp add: session_ok_def put_view_def)
qed (use assms(2-) in \<open>auto simp: put_view_def\<close>)

lemma send_cached_ok:
  assumes ok: "session_ok hash tracked s H" and run: "send_cached env ws s = (s', es)"
  shows "session_ok hash tracked s' (delivered es H)"
proof (cases "ou_content s")
  case None
  then show ?thesis
    using ok run by (simp add: send_cached_def)
next
  case (Some content)
  have hash: "ou_hash s = Some (hash content)" and links: "links_ok s H"
    using ok Some by (simp_all add: session_ok_def)
  have "sent_to env content (flat (ou_cursor s)) ws s = (s', es)"
    using run Some by (simp add: send_cached_def sent_to_def flat_def)
  note R = sent_to_ok[where hash = hash, OF links this hash]
  then have t: "touches {ws} s s' es" and l: "links_ok s' (delivered es H)" and v: "viewer_ok hash tracked s' ws (delivered es H ws)"
    by simp_all
  have "viewer_ok hash tracked s' w (delivered es H w)" for w
  proof (cases "w = ws")
    case False
    then show ?thesis
      using viewer_ok_untouched[OF t, of w hash tracked H] ok by (simp add: session_ok_def)
  qed (use v in simp)
  then show ?thesis
    using l ok touches_fields[OF t] by (simp add: session_ok_def)
qed

lemma pending_simps [simp]:
  "pending_frame (v\<lparr>vw_full := True\<rparr>)" "pending_frame (v\<lparr>vw_reset := Some r\<rparr>)"
  "pending_frame (v\<lparr>vw_base := b\<rparr>) = pending_frame v" "pending_frame (v\<lparr>vw_blocked := t\<rparr>) = pending_frame v"
  by (simp_all add: pending_frame_def)

lemma put_view_fields [simp]:
  "ou_viewers (put_view ws v s) = ou_viewers s" "ou_content (put_view ws v s) = ou_content s" "ou_hash (put_view ws v s) = ou_hash s"
  "ou_cursor (put_view ws v s) = ou_cursor s" "ou_reflow (put_view ws v s) = ou_reflow s"
  by (simp_all add: put_view_def)

lemma require_reset_ok:
  "session_ok hash tracked s H \<Longrightarrow> session_ok hash tracked (require_reset r ws s) H"
  by (rule session_ok_update) (auto simp: require_reset_def session_ok_def)

lemma out_subscribe_ok:
  assumes ok: "session_ok hash tracked s H" and run: "out_subscribe env ws tail delta s = (s', es)"
  shows "session_ok hash tracked s' (delivered es H)"
proof -
  define s1 where "s1 = s\<lparr>ou_viewers := (if ws \<in> set (ou_viewers s) then ou_viewers s else ou_viewers s @ [ws])\<rparr>"
  define s2 where "s2 = put_view ws ((ou_view s1 ws)\<lparr>vw_tail := viewer_tail tail, vw_delta := delta, vw_base := None, vw_full := True\<rparr>) s1"
  have ok2: "session_ok hash tracked s2 H"
  proof (rule session_ok_update[OF ok])
    fix w
    show "vw_base (ou_view s2 w) = None \<or> vw_base (ou_view s2 w) = vw_base (ou_view s w) \<and> vw_delta (ou_view s2 w) = vw_delta (ou_view s w)"
      by (simp add: s2_def s1_def)
    assume w: "w \<in> set (ou_viewers s2)"
    show "pending_frame (ou_view s2 w) \<or> vw_shed (ou_view s2 w) \<or>
       w \<in> set (ou_viewers s) \<and> vw_tail (ou_view s2 w) = vw_tail (ou_view s w) \<and> \<not> pending_frame (ou_view s w) \<and> \<not> vw_shed (ou_view s w) \<and>
       ou_hash s2 = ou_hash s \<and> (tracked \<longrightarrow> flat (ou_cursor s2) = flat (ou_cursor s))"
    proof (cases "w = ws")
      case False
      then have "w \<in> set (ou_viewers s)"
        using w by (auto simp: s2_def s1_def split: if_splits)
      then show ?thesis
        using False by (auto simp: s2_def s1_def)
    qed (simp add: s2_def)
  qed (use ok in \<open>auto simp: s2_def s1_def session_ok_def\<close>)
  have run: "(if ou_reflow s2 then (require_reset ResetResize ws s2, []) else send_cached env ws s2) = (s', es)"
    using run by (simp only: out_subscribe_def Let_def s1_def s2_def)
  show ?thesis
  proof (cases "ou_reflow s2")
    case True
    then show ?thesis
      using run require_reset_ok[OF ok2] by auto
  next
    case False
    then show ?thesis
      using run send_cached_ok[OF ok2] by simp
  qed
qed

lemma out_unsubscribe_ok:
  assumes ok: "session_ok hash tracked s H"
  shows "session_ok hash tracked (out_unsubscribe ws s) H"
proof -
  define s1 where "s1 = (put_view ws (forget_viewer (ou_view s ws)) s)\<lparr>ou_viewers := removeAll ws (ou_viewers s)\<rparr>"
  have ok1: "session_ok hash tracked s1 H"
    by (rule session_ok_update[OF ok])
      (use ok in \<open>auto simp: s1_def forget_viewer_def session_ok_def distinct_removeAll\<close>)
  have "session_ok hash tracked (drop_session s1) H"
    by (rule session_ok_update[OF ok1]) (auto simp: drop_session_def forget_viewer_def)
  then show ?thesis
    using ok1 by (simp add: out_unsubscribe_def s1_def[symmetric] Let_def)
qed

lemma out_drain_ok:
  assumes ok: "session_ok hash tracked s H" and run: "out_drain env ws s = (s', es)"
  shows "session_ok hash tracked s' (delivered es H)"
proof -
  define s1 where "s1 = put_view ws ((ou_view s ws)\<lparr>vw_blocked := None\<rparr>) s"
  have ok1: "session_ok hash tracked s1 H"
    unfolding s1_def by (rule session_ok_put[OF ok]) simp_all
  consider "s' = s" "es = []" | "s' = s1" "es = []" | "send_cached env ws s1 = (s', es)"
    using run[unfolded out_drain_def Let_def, folded s1_def] by (metis Pair_inject)
  then show ?thesis
    using ok ok1 send_cached_ok[OF ok1] by cases simp_all
qed

lemma blocked_timeout_ok:
  assumes ok: "session_ok hash tracked s H" and run: "blocked_timeout ws s = (s', es)"
  shows "session_ok hash tracked s' (delivered es H)"
proof -
  have d: "delivered [CloseSlow w] H = H" for w
    by (auto simp: delivered_def)
  have "session_ok hash tracked (put_view ws (shed_socket (ou_view s ws)) s) H"
    by (rule session_ok_put[OF ok]) (simp_all add: shed_socket_def pending_frame_def)
  then show ?thesis
    using run ok d by (auto simp: blocked_timeout_def Let_def split: if_splits)
qed

lemma out_resized_ok:
  assumes ok: "session_ok hash tracked s H"
  shows "session_ok hash tracked (out_resized s) H"
proof -
  have keep: "ou_viewers (reset_all r x) = ou_viewers x" "ou_content (reset_all r x) = ou_content x" "ou_hash (reset_all r x) = ou_hash x" for r x
    using core_fields[OF reset_all_core(1)] by simp_all
  show ?thesis
    by (rule session_ok_update[OF ok]) (use ok in \<open>simp_all add: out_resized_def reset_all_view drop_bases_def keep session_ok_def\<close>)
qed

lemma reset_all_ok:
  assumes "session_ok hash tracked s H" and "ou_view s1 = ou_view s \<or> (\<forall>w. vw_base (ou_view s1 w) = None)" and "ou_fresh s1 = ou_fresh s"
    and "ou_viewers s1 = ou_viewers s" and "ou_content s1 = None"
  shows "session_ok hash tracked (reset_all r s1) H"
proof -
  have keep: "ou_viewers (reset_all r s1) = ou_viewers s" "ou_content (reset_all r s1) = None"
    using core_fields[OF reset_all_core(1)] assms(4,5) by simp_all
  show ?thesis
    by (rule session_ok_update[OF assms(1)])
      (use assms(1-4) in \<open>auto simp: reset_all_view keep session_ok_def\<close>)
qed

lemma reset_session_output_ok:
  assumes ok: "session_ok hash tracked s H"
  shows "session_ok hash tracked (reset_session_output s) H"
  using ok by (auto simp: reset_session_output_def intro!: reset_all_ok[OF ok])

text \<open>A projection does not keep the cursor of every viewer.\<close>

lemma relineaged_view:
  "ou_view (relineaged m s) w = ou_view s w \<or>
     vw_base (ou_view (relineaged m s) w) = None \<and> (w \<in> set (ou_viewers s) \<longrightarrow> pending_frame (ou_view (relineaged m s) w))"
  by (auto simp: relineaged_def require_full_all_view drop_bases_def split: option.splits)

lemma relineaged_keeps [simp]:
  "ou_viewers (relineaged m s) = ou_viewers s" "ou_hash (relineaged m s) = ou_hash s" "ou_fresh (relineaged m s) = ou_fresh s"
  using core_fields[OF require_full_all_core(1)] by (auto simp: relineaged_def drop_bases_def split: option.splits)

lemma broadcast_projected_ok:
  assumes ok: "session_ok hash tracked s H" and run: "broadcast_projected hash env p s = (s', es)"
  shows "session_ok hash False s' (delivered es H)"
proof -
  define s1 where "s1 = projected_session p s"
  define s2 where "s2 = s1\<lparr>ou_hash := Some (hash (pj_content p))\<rparr>"
  have s1: "ou_viewers s1 = ou_viewers s" "ou_hash s1 = ou_hash s" "ou_fresh s1 = ou_fresh s" "ou_content s1 = Some (pj_content p)"
    by (simp_all add: s1_def projected_session_def)
  have view: "ou_view s1 w = ou_view s w \<or> vw_base (ou_view s1 w) = None \<and> (w \<in> set (ou_viewers s) \<longrightarrow> pending_frame (ou_view s1 w))" for w
    using relineaged_view[of "pj_newarch p" "s\<lparr>ou_reflow := False\<rparr>" w] by (simp add: s1_def projected_session_def)
  have links: "links_ok s1 H"
  proof (rule links_ok_weaker[of s])
    show "vw_base (ou_view s1 w) = None \<or> vw_base (ou_view s1 w) = vw_base (ou_view s w) \<and> vw_delta (ou_view s1 w) = vw_delta (ou_view s w)" for w
      using view[of w] by (elim disjE conjE) simp_all
  qed (use ok s1 in \<open>simp_all add: session_ok_def\<close>)
  then have links2: "links_ok s2 H"
    using links_ok_cong[of s2 s1 H] by (simp add: s2_def)
  have dist: "distinct (ou_viewers s1)"
    using ok by (simp add: session_ok_def s1)
  have weak: "viewer_ok hash False s1 w (H w)" for w
  proof -
    have "viewer_ok hash False s w (H w)"
      using ok viewer_ok_weak unfolding session_ok_def by blast
    then show ?thesis
      using view[of w] s1 by (auto simp: viewer_ok_def holds_current_def Let_def)
  qed
  show ?thesis
  proof (cases "ou_hash s = Some (hash (pj_content p)) \<and> pj_screen p = flat (ou_screen s) \<and> \<not> metadata_moved (ou_newarch s) (pj_newarch p)")
    case True
    then have hash: "ou_hash s1 = Some (hash (pj_content p))"
      by (simp add: s1)
    have run: "(if list_ex (\<lambda>ws. pending_frame (ou_view s1 ws)) (ou_viewers s1)
            then send_grouped env True False (ou_viewers s1) (pj_content p) (pj_cursor p) s1
            else if pj_cursor p \<noteq> flat (ou_cursor s) then for_viewers (send_cursor env (pj_cursor p)) (ou_viewers s1) s1
            else (s1, [])) = (s', es)"
      using run[unfolded broadcast_projected_def Let_def, folded s1_def, unfolded if_P[OF True]] .
    then consider "send_grouped env True False (ou_viewers s1) (pj_content p) (pj_cursor p) s1 = (s', es)"
      | "for_viewers (send_cursor env (pj_cursor p)) (ou_viewers s1) s1 = (s', es)" | "s' = s1" "es = []"
      by (metis Pair_inject)
    then have "published hash False s1 s' (delivered es H)"
    proof cases
      case 1
      have "\<forall>w. viewer_ok hash False s1 w (H w)" and no: "False \<longrightarrow> flat (ou_cursor s1) = pj_cursor p"
        using weak by simp_all
      note Q = pending_pass_ok[OF links dist hash no this(1) 1]
      show ?thesis
        by (rule all_viewers) (use Q in simp_all)
    next
      case 2
      have "\<forall>w \<in> set (ou_viewers s1). viewer_ok hash False s1 w (H w)" and no: "False \<longrightarrow> flat (ou_cursor s1) = pj_cursor p"
        using weak by simp_all
      note Q = cursor_all_ok[OF links dist this(1) no 2]
      show ?thesis
        by (rule all_viewers) (use Q in simp_all)
    next
      case 3
      then show ?thesis
        using links weak by (simp add: published_def)
    qed
    then show ?thesis
      by (rule session_okI) (use dist hash s1 in auto)
  next
    case False
    have "send_grouped env False False (ou_viewers s2) (pj_content p) (pj_cursor p) s2 = (s', es)"
      using run[unfolded broadcast_projected_def Let_def, folded s1_def, unfolded if_not_P[OF False]] by (simp add: s2_def)
    moreover have "distinct (ou_viewers s2)" "ou_hash s2 = Some (hash (pj_content p))" "False \<longrightarrow> flat (ou_cursor s2) = pj_cursor p"
      using dist by (simp_all add: s2_def)
    ultimately have "published hash False s2 s' (delivered es H)"
      using broadcast_all_ok[where hash = hash, OF links2] by blast
    then show ?thesis
      by (rule session_okI) (use dist s1 in \<open>auto simp: s2_def\<close>)
  qed
qed

lemma session_ok_weak: "session_ok hash tracked s H \<Longrightarrow> session_ok hash False s H"
  unfolding session_ok_def using viewer_ok_weak by blast

lemma route_changed_ok:
  assumes ok: "session_ok hash tracked s H" and run: "route_changed hash env p s = (s', es)" and "tracked \<longrightarrow> p = None"
  shows "session_ok hash tracked s' (delivered es H)"
proof -
  define s2 where "s2 = reset_all ResetResync (drop_bases
     (s\<lparr>ou_newarch := None, ou_content := None, ou_hash := None, ou_cursor := None, ou_screen := None, ou_boundary := None\<rparr>))"
  have ok1: "session_ok hash tracked (s\<lparr>ou_newarch := None\<rparr>) H"
    by (rule session_ok_update[OF ok]) (use ok in \<open>auto simp: session_ok_def\<close>)
  have ok2: "session_ok hash tracked s2 H"
    unfolding s2_def by (rule reset_all_ok[OF ok]) (simp_all add: drop_bases_def)
  consider "s' = s\<lparr>ou_newarch := None\<rparr>" "es = []" | "p = None" "s' = s2" "es = []"
    | q where "p = Some q" "broadcast_projected hash env q s2 = (s', es)"
    using run by (auto simp: route_changed_def s2_def Let_def split: if_splits option.splits)
  then show ?thesis
  proof cases
    case 3
    then show ?thesis
      using broadcast_projected_ok[OF ok2 3(2)] assms(3) by (cases tracked) auto
  qed (use ok1 ok2 in simp_all)
qed

section \<open>Runs\<close>

definition is_projection :: "out_event \<Rightarrow> bool" where
  "is_projection e = (case e of Projected _ \<Rightarrow> True | RouteChanged p \<Rightarrow> p \<noteq> None | _ \<Rightarrow> False)"

lemma out_step_ok:
  assumes ok: "session_ok hash tracked s H" and run: "out_step hash env e s = (s', es)" and "tracked \<longrightarrow> \<not> is_projection e"
  shows "session_ok hash tracked s' (delivered es H)"
proof (cases e)
  case (Projected p)
  then show ?thesis
    using broadcast_projected_ok[OF ok] run assms(3) by (cases tracked) (auto simp: is_projection_def)
next
  case (RouteChanged p)
  then show ?thesis
    using route_changed_ok[OF ok] run assms(3) by (auto simp: is_projection_def)
next
  case (Subscribe ws tail delta)
  then show ?thesis
    using out_subscribe_ok[OF ok] run by simp
next
  case (Unsubscribe ws)
  then show ?thesis
    using out_unsubscribe_ok[OF ok] run by auto
next
  case (Resync ws)
  then show ?thesis
    using send_cached_ok[OF require_reset_ok[OF ok]] run by (simp add: out_resync_def)
next
  case (Drain ws)
  then show ?thesis
    using out_drain_ok[OF ok] run by simp
next
  case (BlockedTimeout ws)
  then show ?thesis
    using blocked_timeout_ok[OF ok] run by simp
next
  case Resized
  then show ?thesis
    using out_resized_ok[OF ok] run by auto
next
  case ResetOutput
  then show ?thesis
    using reset_session_output_ok[OF ok] run by auto
next
  case (Captured c)
  then show ?thesis
    using publish_capture_ok[OF ok] run by simp
qed

fun out_run :: "(jstr \<Rightarrow> jstr) \<Rightarrow> (out_env \<times> out_event) list \<Rightarrow> out_session \<Rightarrow> out_session \<times> out_effect list" where
  "out_run hash [] s = (s, [])"
| "out_run hash ((env, e) # rest) s =
     (let (s1, e1) = out_step hash env e s; (s2, e2) = out_run hash rest s1 in (s2, e1 @ e2))"

lemma new_session_ok: "session_ok hash tracked (new_session channel) (\<lambda>_. None)"
  by (simp add: session_ok_def links_ok_def bases_ok_def bases_def ids_ok_def base_held_def viewer_ok_def new_session_def new_viewer_def)

lemma out_run_ok:
  assumes "session_ok hash tracked s H" and "out_run hash steps s = (s', es)" and "tracked \<longrightarrow> (\<forall>(env, e) \<in> set steps. \<not> is_projection e)"
  shows "session_ok hash tracked s' (delivered es H)"
  using assms
proof (induction steps arbitrary: s H es)
  case Nil
  then show ?case
    by simp
next
  case (Cons x steps)
  obtain env e where x: "x = (env, e)"
    by (cases x)
  obtain s1 e1 where one: "out_step hash env e s = (s1, e1)"
    by (cases "out_step hash env e s")
  obtain e2 where rest: "out_run hash steps s1 = (s', e2)" and es: "es = e1 @ e2"
    using Cons.prems(2) by (auto simp: x one split: prod.splits)
  have "session_ok hash tracked s1 (delivered e1 H)"
    using out_step_ok[OF Cons.prems(1) one] Cons.prems(3) by (simp add: x)
  from Cons.IH[OF this rest] show ?case
    using Cons.prems(3) by (simp add: es)
qed

text \<open>The statement for one viewer.\<close>

definition up_to_date :: "(jstr \<Rightarrow> jstr) \<Rightarrow> bool \<Rightarrow> out_session \<Rightarrow> nat \<Rightarrow> out_effect list \<Rightarrow> bool" where
  "up_to_date hash tracked s ws es = holds_current hash tracked s (vw_tail (ou_view s ws)) (receive_all (effects_to ws es) None)"

lemma run_viewer_current:
  assumes "out_run hash steps (new_session channel) = (s, es)" and "ws \<in> set (ou_viewers s)"
    and "\<not> pending_frame (ou_view s ws)" and "\<not> vw_shed (ou_view s ws)"
  shows "up_to_date hash (\<forall>(env, e) \<in> set steps. \<not> is_projection e) s ws es"
proof -
  have "session_ok hash (\<forall>(env, e) \<in> set steps. \<not> is_projection e) s (delivered es (\<lambda>_. None))"
    by (rule out_run_ok[OF new_session_ok assms(1)]) simp
  then have "viewer_ok hash (\<forall>(env, e) \<in> set steps. \<not> is_projection e) s ws (delivered es (\<lambda>_. None) ws)"
    unfolding session_ok_def by blast
  then show ?thesis
    using assms(2-4) by (simp add: viewer_ok_def up_to_date_def delivered_def Let_def)
qed

end
