(* ===== verification/Fanout_Runs.thy ===== *)
theory Fanout_Runs
  imports Fanout_Invariant
begin

text \<open>
  What a whole run of the fan-out brings each viewer: slow viewers are closed once and left alone, and open viewers
  are brought up to date by the next capture.
\<close>

section \<open>Moves of one viewer\<close>

text \<open>Every operation moves a viewer by passes, cursor sends, silent edits and the timer.\<close>

inductive moves :: "out_env \<Rightarrow> nat \<Rightarrow> viewer \<Rightarrow> out_effect list \<Rightarrow> viewer \<Rightarrow> bool" for env ws where
  edit: "vw_shed w = vw_shed v \<Longrightarrow> moves env ws v [] w"
| pass: "viewer_pass env only fixed s content cursor ws v = (v', es) \<Longrightarrow> plain w = plain v' \<Longrightarrow> moves env ws v es w"
| cursor: "send_cursor env c ws s = (s', es) \<Longrightarrow> moves env ws (ou_view s ws) (effects_to ws es) (ou_view s' ws)"
| timeout: "\<not> vw_shed v \<Longrightarrow> moves env ws v [CloseSlow ws] (shed_socket v)"
| both: "moves env ws v es w \<Longrightarrow> moves env ws w fs u \<Longrightarrow> moves env ws v (es @ fs) u"

definition all_move :: "out_env \<Rightarrow> out_session \<Rightarrow> out_effect list \<Rightarrow> out_session \<Rightarrow> bool" where
  "all_move env s es s' \<longleftrightarrow> (\<forall>ws. moves env ws (ou_view s ws) (effects_to ws es) (ou_view s' ws))"

definition tidy :: "out_session \<Rightarrow> bool" where
  "tidy s \<longleftrightarrow> bases_ok s \<and> distinct (ou_viewers s)"

lemma all_move_trans: "all_move env s es s1 \<Longrightarrow> all_move env s1 fs s2 \<Longrightarrow> all_move env s (es @ fs) s2"
  by (auto simp: all_move_def intro: moves.both)

lemma all_move_edit: "(\<And>ws. vw_shed (ou_view s' ws) = vw_shed (ou_view s ws)) \<Longrightarrow> all_move env s [] s'"
  by (simp add: all_move_def moves.edit)

lemma send_grouped_moves:
  assumes "tidy s" and "distinct viewers" and "send_grouped env only fixed viewers content cursor s = (s', es)"
  shows "all_move env s es s' \<and> tidy s' \<and> ou_viewers s' = ou_viewers s"
proof -
  have ok: "bases_ok s"
    using assms(1) by (simp add: tidy_def)
  note P = send_grouped_pass[OF ok assms(2,3)]
  have "moves env w (ou_view s w) (effects_to w es) (ou_view s' w)" for w
  proof (cases "w \<in> set viewers")
    case True
    obtain v' fs where "viewer_pass env only fixed s content cursor w (ou_view s w) = (v', fs)"
      by (cases "viewer_pass env only fixed s content cursor w (ou_view s w)")
    then show ?thesis
      using P(4)[OF True] by (auto intro: moves.pass)
  next
    case False
    then show ?thesis
      using P(3) by (simp add: moves.edit)
  qed
  then show ?thesis
    using assms(1) P(1,2) core_fields[OF P(1)] by (simp add: all_move_def tidy_def)
qed

lemma send_cursor_others:
  assumes "send_cursor env c ws s = (s', es)"
  shows "touches {ws} s s' es" "bases s' = bases s" "ou_fresh s' = ou_fresh s"
proof -
  obtain skip v1 where m: "should_skip env ws (ou_view s ws) = (skip, v1)"
    by (cases "should_skip env ws (ou_view s ws)")
  have "\<exists>v. s' = put_view ws v s \<and> vw_base v = vw_base (ou_view s ws) \<and> (\<forall>w. w \<noteq> ws \<longrightarrow> effects_to w es = [])"
    using assms should_skip_same(3)[OF m] unfolding send_cursor_def Let_def m prod.case
    by (simp split: if_splits) (auto)
  then obtain v where v: "s' = put_view ws v s" "vw_base v = vw_base (ou_view s ws)" "\<forall>w. w \<noteq> ws \<longrightarrow> effects_to w es = []"
    by blast
  then show "touches {ws} s s' es" "bases s' = bases s" "ou_fresh s' = ou_fresh s"
    by (auto simp: bases_def)
qed

lemma send_cursor_moves:
  assumes "tidy s" and "send_cursor env c ws s = (s', es)"
  shows "all_move env s es s' \<and> tidy s' \<and> ou_viewers s' = ou_viewers s"
proof -
  note O = send_cursor_others[OF assms(2)]
  have "moves env w (ou_view s w) (effects_to w es) (ou_view s' w)" for w
    using moves.cursor[OF assms(2)] O(1) moves.edit[of "ou_view s w" "ou_view s w"]
    by (cases "w = ws") (simp_all add: touches_def)
  then show ?thesis
    using assms(1) O touches_fields[OF O(1)] by (simp add: all_move_def tidy_def bases_ok_def)
qed

lemma sent_to_moves:
  assumes "tidy s" and "sent_to env content cursor ws s = (s', es)"
  shows "all_move env s es s' \<and> tidy s' \<and> ou_viewers s' = ou_viewers s"
  using send_grouped_moves[OF assms(1), of "[ws]"] assms(2) by (simp add: sent_to_def send_output_def)

lemma for_viewers_moves:
  assumes "\<And>ws s s' es. tidy s \<Longrightarrow> f ws s = (s', es) \<Longrightarrow> all_move env s es s' \<and> tidy s' \<and> ou_viewers s' = ou_viewers s"
    and "tidy s" and "for_viewers f wss s = (s', es)"
  shows "all_move env s es s' \<and> tidy s' \<and> ou_viewers s' = ou_viewers s"
  using assms(2,3)
proof (induction wss arbitrary: s es)
  case Nil
  then show ?case
    by (simp add: all_move_edit)
next
  case (Cons ws wss)
  obtain s1 e1 where one: "f ws s = (s1, e1)"
    by (cases "f ws s")
  obtain e2 where rest: "for_viewers f wss s1 = (s', e2)" and es: "es = e1 @ e2"
    using Cons.prems(2) one by (auto split: prod.splits)
  have "all_move env s e1 s1 \<and> tidy s1 \<and> ou_viewers s1 = ou_viewers s"
    by (rule assms(1)[OF Cons.prems(1) one])
  then show ?case
    using Cons.IH[OF _ rest] by (auto simp: es intro: all_move_trans)
qed

lemma tidy_cong: "ou_view s' = ou_view s \<Longrightarrow> ou_fresh s' = ou_fresh s \<Longrightarrow> ou_viewers s' = ou_viewers s \<Longrightarrow> tidy s' = tidy s"
  by (simp add: tidy_def bases_ok_def bases_def)

lemma publish_same_moves:
  assumes "tidy s" and run: "publish_same env c s = (s', es)"
  shows "all_move env s es s'"
proof -
  define s1 where "s1 = sampled_same c s"
  define cursor where "cursor = sampled_cursor c s"
  define others where "others = filter (\<lambda>ws. \<not> pending_frame (ou_view s ws)) (ou_viewers s)"
  note run = run[unfolded publish_same_def Let_def, folded s1_def cursor_def others_def]
  have s1: "tidy s1" "ou_view s1 = ou_view s" "ou_viewers s1 = ou_viewers s"
    using assms(1) tidy_cong[of s1 s] by (simp_all add: s1_def sampled_same_def)
  then have dist: "distinct (ou_viewers s1)"
    by (simp add: tidy_def)
  have start: "all_move env s1 es s' \<Longrightarrow> all_move env s es s'"
    by (simp add: all_move_def s1)
  note cur = for_viewers_moves[of "send_cursor env (flat (cs_cursor c))", OF send_cursor_moves]
  note cont = for_viewers_moves[of "sent_to env (cs_content c) cursor", OF sent_to_moves]
  show ?thesis
  proof (rule start, cases "filter (\<lambda>ws. pending_frame (ou_view s ws)) (ou_viewers s) \<noteq> []")
    case True
    obtain s2 e2 where two: "send_grouped env True False (ou_viewers s1) (cs_content c) cursor s1 = (s2, e2)"
      by (cases "send_grouped env True False (ou_viewers s1) (cs_content c) cursor s1")
    obtain s3 e3 where three: "(if screen_moved c s \<or> boundary_moved c s then for_viewers (sent_to env (cs_content c) cursor) others s2
                            else if cursor_moved c s then for_viewers (send_cursor env (flat (cs_cursor c))) others s2
                            else (s2, [])) = (s3, e3)"
      by (metis surj_pair)
    have es: "s' = s3" "es = e2 @ e3"
      using run[unfolded if_P[OF True] two prod.case three] by simp_all
    have two_moves: "all_move env s1 e2 s2" "tidy s2"
      using send_grouped_moves[OF s1(1) dist two] by simp_all
    consider "for_viewers (sent_to env (cs_content c) cursor) others s2 = (s3, e3)"
      | "for_viewers (send_cursor env (flat (cs_cursor c))) others s2 = (s3, e3)" | "s3 = s2" "e3 = []"
      using three by (metis Pair_inject)
    then have "all_move env s2 e3 s3"
      using cont[OF _ _ two_moves(2)] cur[OF _ _ two_moves(2)] by cases (auto intro: all_move_edit)
    then show "all_move env s1 es s'"
      unfolding es by (rule all_move_trans[OF two_moves(1)])
  next
    case False
    consider "send_grouped env False False (ou_viewers s1) (cs_content c) cursor s1 = (s', es)"
      | "for_viewers (send_cursor env (flat (cs_cursor c))) (ou_viewers s1) s1 = (s', es)" | "s' = s1" "es = []"
      using run[unfolded if_not_P[OF False]] by (metis Pair_inject)
    then show "all_move env s1 es s'"
      using cur[OF _ _ s1(1)] send_grouped_moves[OF s1(1) dist] by cases (auto intro: all_move_edit)
  qed
qed

lemma tidy_weaker:
  assumes "tidy s" and "\<And>w. vw_base (ou_view s' w) = None \<or> vw_base (ou_view s' w) = vw_base (ou_view s w)"
    and "ou_fresh s' = ou_fresh s" and "distinct (ou_viewers s')"
  shows "tidy s'"
proof -
  have "bases s' \<subseteq> bases s"
  proof
    fix b
    assume "b \<in> bases s'"
    then obtain w where "vw_base (ou_view s' w) = Some b"
      by (auto simp: bases_def)
    then show "b \<in> bases s"
      using assms(2)[of w] by (auto simp: bases_def)
  qed
  then show ?thesis
    using assms(1,3,4) ids_ok_mono by (auto simp: tidy_def bases_ok_def)
qed

lemma publish_capture_moves:
  assumes "tidy s" and run: "publish_capture hash env c s = (s', es)"
  shows "all_move env s es s'"
proof -
  define s1 where "s1 = s\<lparr>ou_reflow := ou_reflow s \<and> \<not> cs_reflowed c, ou_content := Some (cs_content c)\<rparr>"
  define s2 where "s2 = s1\<lparr>ou_hash := Some (hash (cs_content c))\<rparr>"
  define s3 where "s3 = s2\<lparr>ou_boundary := (if cs_boundary c = None then ou_boundary s2 else cs_boundary c),
             ou_cursor := Some (flat (cs_cursor c)),
             ou_screen := (if cs_screen c = None then ou_screen s2 else cs_screen c)\<rparr>"
  have v: "ou_view s1 = ou_view s" "ou_view s3 = ou_view s"
    by (simp_all add: s1_def s2_def s3_def)
  have t: "tidy s1" "tidy s3"
    using assms(1) tidy_cong[of s1 s] tidy_cong[of s3 s] by (simp_all add: s1_def s2_def s3_def)
  show ?thesis
  proof (cases "ou_hash s1 = Some (hash (cs_content c))")
    case True
    then have "publish_same env c s1 = (s', es)"
      using run by (simp add: publish_capture_def s1_def[symmetric] Let_def)
    then show ?thesis
      using publish_same_moves[OF t(1)] by (simp add: all_move_def v)
  next
    case False
    then have "publish_changed env c s2 = (s', es)"
      using run by (simp add: publish_capture_def s1_def[symmetric] s2_def[symmetric] Let_def)
    then have "send_grouped env False False (ou_viewers s3) (cs_content c) (flat (cs_cursor c)) s3 = (s', es)"
      by (simp add: publish_changed_def s3_def Let_def)
    moreover have "distinct (ou_viewers s3)"
      using t(2) by (simp add: tidy_def)
    ultimately have "all_move env s3 es s'"
      using send_grouped_moves[OF t(2)] by blast
    then show ?thesis
      by (simp add: all_move_def v)
  qed
qed

lemma send_cached_moves:
  assumes "tidy s" and run: "send_cached env ws s = (s', es)"
  shows "all_move env s es s'"
proof (cases "ou_content s")
  case None
  then show ?thesis
    using run by (auto simp: send_cached_def intro: all_move_edit)
next
  case (Some content)
  then have "sent_to env content (flat (ou_cursor s)) ws s = (s', es)"
    using run by (simp add: send_cached_def sent_to_def flat_def)
  then show ?thesis
    using sent_to_moves[OF assms(1)] by simp
qed

text \<open>An edit followed by an operation.\<close>

lemma edit_then:
  assumes "\<And>ws. vw_shed (ou_view s1 ws) = vw_shed (ou_view s ws)" and "all_move env s1 es s'"
  shows "all_move env s es s'"
  using all_move_trans[OF all_move_edit[OF assms(1)] assms(2)] by simp

lemma out_subscribe_moves:
  assumes "tidy s" and run: "out_subscribe env ws tail delta s = (s', es)"
  shows "all_move env s es s'"
proof -
  define s1 where "s1 = s\<lparr>ou_viewers := (if ws \<in> set (ou_viewers s) then ou_viewers s else ou_viewers s @ [ws])\<rparr>"
  define s2 where "s2 = put_view ws ((ou_view s1 ws)\<lparr>vw_tail := viewer_tail tail, vw_delta := delta, vw_base := None, vw_full := True\<rparr>) s1"
  have run: "(if ou_reflow s2 then (require_reset ResetResize ws s2, []) else send_cached env ws s2) = (s', es)"
    using run by (simp only: out_subscribe_def Let_def s1_def s2_def)
  have t: "tidy s2"
    by (rule tidy_weaker[OF assms(1)]) (use assms(1) in \<open>auto simp: s2_def s1_def tidy_def\<close>)
  have same: "vw_shed (ou_view s2 w) = vw_shed (ou_view s w)" for w
    by (simp add: s2_def s1_def)
  show ?thesis
  proof (cases "ou_reflow s2")
    case True
    then have eq: "s' = require_reset ResetResize ws s2" "es = []"
      using run by simp_all
    have "vw_shed (ou_view (require_reset ResetResize ws s2) w) = vw_shed (ou_view s w)" for w
      by (simp add: require_reset_def same)
    then show ?thesis
      unfolding eq by (rule all_move_edit)
  next
    case False
    then have "send_cached env ws s2 = (s', es)"
      using run by simp
    then show ?thesis
      by (rule edit_then[OF same send_cached_moves[OF t]])
  qed
qed

lemma relineaged_shed: "vw_shed (ou_view (relineaged m s) w) = vw_shed (ou_view s w)"
  by (auto simp: relineaged_def require_full_all_view drop_bases_def split: option.splits)

lemma broadcast_projected_moves:
  assumes "tidy s" and run: "broadcast_projected hash env p s = (s', es)"
  shows "all_move env s es s'"
proof -
  define s1 where "s1 = projected_session p s"
  define s2 where "s2 = s1\<lparr>ou_hash := Some (hash (pj_content p))\<rparr>"
  have base: "vw_base (ou_view s1 w) = None \<or> vw_base (ou_view s1 w) = vw_base (ou_view s w)" for w
    using relineaged_view[of "pj_newarch p" "s\<lparr>ou_reflow := False\<rparr>" w] by (auto simp: s1_def projected_session_def)
  have t: "tidy s1"
    by (rule tidy_weaker[OF assms(1) base]) (use assms(1) in \<open>simp_all add: s1_def projected_session_def tidy_def\<close>)
  then have t2: "tidy s2" "ou_view s2 = ou_view s1"
    using tidy_cong[of s2 s1] by (simp_all add: s2_def)
  have dist: "distinct (ou_viewers s1)" "distinct (ou_viewers s2)"
    using t t2 by (simp_all add: tidy_def)
  have same: "vw_shed (ou_view s1 w) = vw_shed (ou_view s w)" for w
    by (simp add: s1_def projected_session_def relineaged_shed)
  note run = run[unfolded broadcast_projected_def Let_def, folded s1_def, folded s2_def]
  consider only where "send_grouped env only False (ou_viewers s1) (pj_content p) (pj_cursor p) s1 = (s', es)"
    | "for_viewers (send_cursor env (pj_cursor p)) (ou_viewers s1) s1 = (s', es)" | "s' = s1" "es = []"
    | "send_grouped env False False (ou_viewers s2) (pj_content p) (pj_cursor p) s2 = (s', es)"
  proof -
    have "ou_viewers s1 = ou_viewers s2"
      by (simp add: s2_def)
    then show thesis
      using run that by (metis Pair_inject)
  qed
  then have "all_move env s1 es s'"
  proof cases
    case 1
    then show ?thesis
      using send_grouped_moves[OF t dist(1)] by blast
  next
    case 2
    have "all_move env s1 es s' \<and> tidy s' \<and> ou_viewers s' = ou_viewers s1"
      by (rule for_viewers_moves[OF _ t 2]) (rule send_cursor_moves)
    then show ?thesis
      by blast
  next
    case 3
    then show ?thesis
      by (simp add: all_move_edit)
  next
    case 4
    then show ?thesis
      using send_grouped_moves[OF t2(1) dist(2)] t2(2) by (simp add: all_move_def)
  qed
  then show ?thesis
    by (rule edit_then[OF same])
qed

lemma reset_all_shed: "vw_shed (ou_view (reset_all r s) w) = vw_shed (ou_view s w)"
  by (simp add: reset_all_view)

lemma route_changed_moves:
  assumes "tidy s" and run: "route_changed hash env p s = (s', es)"
  shows "all_move env s es s'"
proof -
  define s2 where "s2 = reset_all ResetResync (drop_bases
     (s\<lparr>ou_newarch := None, ou_content := None, ou_hash := None, ou_cursor := None, ou_screen := None, ou_boundary := None\<rparr>))"
  have same: "vw_shed (ou_view s2 w) = vw_shed (ou_view s w)" for w
    by (simp add: s2_def reset_all_shed drop_bases_def)
  have keep: "ou_viewers (reset_all r x) = ou_viewers x" for r x
    using core_fields[OF reset_all_core(1)] by simp
  have t: "tidy s2"
    by (rule tidy_weaker[OF assms(1)]) (use assms(1) in \<open>simp_all add: s2_def reset_all_view drop_bases_def tidy_def keep\<close>)
  consider "s' = s\<lparr>ou_newarch := None\<rparr>" "es = []" | "s' = s2" "es = []"
    | q where "broadcast_projected hash env q s2 = (s', es)"
    using run[unfolded route_changed_def Let_def, folded s2_def] by (cases p) (metis Pair_inject option.simps(4,5))+
  then show ?thesis
  proof cases
    case 3
    then show ?thesis
      by (rule edit_then[OF same broadcast_projected_moves[OF t]])
  next
    case 1
    show ?thesis
      unfolding 1 by (rule all_move_edit) simp
  next
    case 2
    show ?thesis
      unfolding 2 by (rule all_move_edit[OF same])
  qed
qed

lemma out_unsubscribe_shed: "vw_shed (ou_view (out_unsubscribe ws s) w) = vw_shed (ou_view s w)"
proof -
  define s1 where "s1 = (put_view ws (forget_viewer (ou_view s ws)) s)\<lparr>ou_viewers := removeAll ws (ou_viewers s)\<rparr>"
  have "vw_shed (ou_view s1 w) = vw_shed (ou_view s w)"
    by (simp add: s1_def forget_viewer_def)
  moreover have "vw_shed (ou_view (drop_session s1) w) = vw_shed (ou_view s1 w)"
    by (simp add: drop_session_def forget_viewer_def)
  ultimately show ?thesis
    by (simp add: out_unsubscribe_def s1_def[symmetric] Let_def)
qed

lemma out_drain_moves:
  assumes "tidy s" and run: "out_drain env ws s = (s', es)"
  shows "all_move env s es s'"
proof -
  define s1 where "s1 = put_view ws ((ou_view s ws)\<lparr>vw_blocked := None\<rparr>) s"
  have t: "tidy s1"
    by (rule tidy_weaker[OF assms(1)]) (use assms(1) in \<open>auto simp: s1_def tidy_def\<close>)
  have same: "vw_shed (ou_view s1 w) = vw_shed (ou_view s w)" for w
    by (simp add: s1_def)
  consider "s' = s" "es = []" | "s' = s1" "es = []" | "send_cached env ws s1 = (s', es)"
    using run[unfolded out_drain_def Let_def, folded s1_def] by (metis Pair_inject)
  then show ?thesis
  proof cases
    case 1
    show ?thesis
      unfolding 1 by (rule all_move_edit) (rule refl)
  next
    case 2
    show ?thesis
      unfolding 2 by (rule all_move_edit[OF same])
  next
    case 3
    then show ?thesis
      by (rule edit_then[OF same send_cached_moves[OF t]])
  qed
qed

lemma blocked_timeout_moves:
  assumes "blocked_timeout ws s = (s', es)"
  shows "all_move env s es s'"
proof -
  have "moves env w (ou_view s w) (effects_to w es) (ou_view s' w)" for w
    using assms moves.timeout[of "ou_view s ws" env ws] moves.edit[of "ou_view s w" "ou_view s w" env w]
    by (auto simp: blocked_timeout_def Let_def split: if_splits)
  then show ?thesis
    by (simp add: all_move_def)
qed

lemma out_step_moves:
  assumes "tidy s" and run: "out_step hash env e s = (s', es)"
  shows "all_move env s es s'"
proof (cases e)
  case (Subscribe ws tail delta)
  then show ?thesis
    using out_subscribe_moves[OF assms(1)] run by simp
next
  case (Unsubscribe ws)
  then show ?thesis
    using run by (auto intro!: all_move_edit simp: out_unsubscribe_shed)
next
  case (Resync ws)
  have t: "tidy (require_reset ResetResync ws s)"
    by (rule tidy_weaker[OF assms(1)]) (use assms(1) in \<open>auto simp: require_reset_def tidy_def\<close>)
  have same: "vw_shed (ou_view (require_reset ResetResync ws s) w) = vw_shed (ou_view s w)" for w
    by (simp add: require_reset_def)
  have "send_cached env ws (require_reset ResetResync ws s) = (s', es)"
    using run Resync by (simp add: out_resync_def)
  then show ?thesis
    by (rule edit_then[OF same send_cached_moves[OF t]])
next
  case (Drain ws)
  then show ?thesis
    using out_drain_moves[OF assms(1)] run by simp
next
  case (BlockedTimeout ws)
  then show ?thesis
    using blocked_timeout_moves run by simp
next
  case Resized
  then show ?thesis
    using run by (auto intro!: all_move_edit simp: out_resized_def reset_all_shed drop_bases_def)
next
  case ResetOutput
  then show ?thesis
    using run by (auto intro!: all_move_edit simp: reset_session_output_def reset_all_shed split: if_splits)
next
  case (Captured c)
  then show ?thesis
    using publish_capture_moves[OF assms(1)] run by simp
next
  case (Projected p)
  then show ?thesis
    using broadcast_projected_moves[OF assms(1)] run by simp
next
  case (RouteChanged p)
  then show ?thesis
    using route_changed_moves[OF assms(1)] run by simp
qed

section \<open>Slow viewers\<close>

text \<open>What a viewer gets while its state goes from \<open>before\<close> shed to \<open>after\<close> shed.\<close>

definition close_trace :: "nat \<Rightarrow> bool \<Rightarrow> out_effect list \<Rightarrow> bool \<Rightarrow> bool" where
  "close_trace ws before es after \<longleftrightarrow>
     (if before then es = [] \<and> after
      else if after then (\<exists>fs. es = fs @ [CloseSlow ws] \<and> CloseSlow ws \<notin> set fs)
      else CloseSlow ws \<notin> set es)"

lemma close_trace_trans: "close_trace ws a es b \<Longrightarrow> close_trace ws b fs c \<Longrightarrow> close_trace ws a (es @ fs) c"
  unfolding close_trace_def by (cases a; cases b; cases c) auto

lemma maybe_shed_open: "maybe_shed env ws v = (False, v1) \<Longrightarrow> v1 = v"
  by (auto simp: maybe_shed_def split: if_splits option.splits)

lemma should_skip_shed:
  assumes "should_skip env ws v = (b, v1)" and "oe_enabled env"
  shows "vw_shed v \<Longrightarrow> b \<and> v1 = v" "\<not> b \<Longrightarrow> \<not> vw_shed v1"
proof -
  show "vw_shed v \<Longrightarrow> b \<and> v1 = v"
    using assms by (simp add: should_skip_def)
  obtain g w where m: "maybe_shed env ws v = (g, w)"
    by (cases "maybe_shed env ws v")
  show "\<not> b \<Longrightarrow> \<not> vw_shed v1"
    using assms m maybe_shed_open[of env ws v w] by (auto simp: should_skip_def split: if_splits)
qed

lemma close_trace_close: "(vw_shed v \<Longrightarrow> vw_shed w) \<Longrightarrow> close_trace ws (vw_shed v) (close_effect ws v w) (vw_shed w)"
  by (auto simp: close_trace_def close_effect_def)

lemma close_trace_send:
  "\<not> vw_shed v \<Longrightarrow> e \<noteq> CloseSlow ws \<Longrightarrow> close_trace ws False (e # close_effect ws v w) (vw_shed w)"
  unfolding close_trace_def close_effect_def by (cases "vw_shed w") auto

lemma viewer_pass_trace:
  assumes "viewer_pass env only fixed s content cursor ws v = (v', es)" and "oe_enabled env"
  shows "close_trace ws (vw_shed v) es (vw_shed v')"
proof -
  define v1 where "v1 = gathered env only ws v"
  obtain b w where m: "should_skip env ws v = (b, w)"
    by (cases "should_skip env ws v")
  note S = should_skip_shed[OF m assms(2)]
  show ?thesis
  proof (cases "eligible env only ws v")
    case False
    then have eq: "v' = v1" "es = close_effect ws v v1"
      using assms(1) by (auto simp: viewer_pass_def v1_def Let_def)
    show ?thesis
      unfolding eq by (rule close_trace_close) (simp add: v1_def gathered_same)
  next
    case True
    then have v1: "v1 = w" "\<not> b"
      using gathered_eligible(1)[OF True] m by (simp_all add: v1_def eligible_def)
    then have up: "\<not> vw_shed v" "\<not> vw_shed v1"
      using S by auto
    show ?thesis
    proof (cases "accepted env ws")
      case F: False
      then have "es = close_effect ws v v1" "vw_shed v' = vw_shed v1"
        using assms(1) True by (auto simp: viewer_pass_def v1_def Let_def flushed_def)
      then show ?thesis
        using up by (simp add: close_effect_def close_trace_def)
    next
      case T: True
      then have "es = SendFrame ws (viewer_output s fixed content cursor v1) # close_effect ws v1 v'"
        using assms(1) True up by (auto simp: viewer_pass_def v1_def[symmetric] Let_def close_effect_def)
      then show ?thesis
        using up close_trace_send[OF up(2)] by simp
    qed
  qed
qed

lemma send_cursor_trace:
  assumes "send_cursor env c ws s = (s', es)" and "oe_enabled env"
  shows "close_trace ws (vw_shed (ou_view s ws)) (effects_to ws es) (vw_shed (ou_view s' ws))"
proof -
  define v where "v = ou_view s ws"
  obtain b v1 where m: "should_skip env ws v = (b, v1)"
    by (cases "should_skip env ws v")
  note S = should_skip_shed[OF m assms(2)]
  define v2 where "v2 = (if oe_status env ws = Queued then mark_blocked env ws v1 else v1)"
  consider v' where "s' = put_view ws v' s" "es = close_effect ws v v1" "vw_shed v' = vw_shed v1"
    | "s' = put_view ws v2 s" "es = close_effect ws v v1 @ SendCursor ws c # close_effect ws v1 v2" "\<not> b"
    using assms(1) m unfolding send_cursor_def v_def[symmetric] Let_def v2_def
    by (auto split: if_splits)
  then show ?thesis
  proof cases
    case 1
    have "close_trace ws (vw_shed v) (close_effect ws v v1) (vw_shed v1)"
      by (rule close_trace_close) (rule should_skip_same(6)[OF m])
    then show ?thesis
      by (simp add: 1 v_def)
  next
    case 2
    then have up: "\<not> vw_shed v" "\<not> vw_shed v1"
      using S by auto
    have "close_trace ws False (SendCursor ws c # close_effect ws v1 v2) (vw_shed v2)"
      by (rule close_trace_send[OF up(2)]) simp
    then show ?thesis
      using up by (cases "vw_shed v2") (simp_all add: 2 v_def[symmetric] close_effect_def)
  qed
qed

lemma moves_trace:
  assumes "moves env ws v es w" and "oe_enabled env"
  shows "close_trace ws (vw_shed v) es (vw_shed w)"
  using assms(1)
proof induction
  case (edit w v)
  then show ?case
    by (simp add: close_trace_def)
next
  case (pass only fixed s content cursor v v' es w)
  then show ?case
    using viewer_pass_trace[OF pass(1) assms(2)] plain_fields(5)[OF pass(2)] by simp
next
  case (cursor c s s' es)
  then show ?case
    by (rule send_cursor_trace[OF _ assms(2)])
next
  case (timeout v)
  then show ?case
    by (simp add: close_trace_def shed_socket_def)
next
  case (both v es w fs u)
  then show ?case
    by (blast intro: close_trace_trans)
qed

lemma session_ok_tidy: "session_ok hash tracked s H \<Longrightarrow> tidy s"
  by (simp add: session_ok_def links_ok_def tidy_def)

lemma out_run_trace:
  assumes "session_ok hash False s H" and "out_run hash steps s = (s', es)" and "\<forall>(env, e) \<in> set steps. oe_enabled env"
  shows "close_trace ws (vw_shed (ou_view s ws)) (effects_to ws es) (vw_shed (ou_view s' ws))"
  using assms
proof (induction steps arbitrary: s H es)
  case Nil
  then show ?case
    by (simp add: close_trace_def)
next
  case (Cons x steps)
  obtain env e where x: "x = (env, e)"
    by (cases x)
  obtain s1 e1 where one: "out_step hash env e s = (s1, e1)"
    by (cases "out_step hash env e s")
  obtain e2 where rest: "out_run hash steps s1 = (s', e2)" and es: "es = e1 @ e2"
    using Cons.prems(2) by (auto simp: x one split: prod.splits)
  have "moves env ws (ou_view s ws) (effects_to ws e1) (ou_view s1 ws)"
    using out_step_moves[OF session_ok_tidy[OF Cons.prems(1)] one] by (simp add: all_move_def)
  then have head: "close_trace ws (vw_shed (ou_view s ws)) (effects_to ws e1) (vw_shed (ou_view s1 ws))"
    using Cons.prems(3) by (auto simp: x intro: moves_trace)
  have "session_ok hash False s1 (delivered e1 H)"
    using out_step_ok[OF Cons.prems(1) one] by simp
  then have "close_trace ws (vw_shed (ou_view s1 ws)) (effects_to ws e2) (vw_shed (ou_view s' ws))"
    using Cons.IH[OF _ rest] Cons.prems(3) by simp
  then show ?case
    using close_trace_trans[OF head] by (simp add: es)
qed

section \<open>Catching up\<close>

text \<open>An open viewer: neither shed nor blocked, and its socket takes what it is sent.\<close>

definition ready :: "out_env \<Rightarrow> out_session \<Rightarrow> nat \<Rightarrow> bool" where
  "ready env s ws \<longleftrightarrow> \<not> vw_shed (ou_view s ws) \<and> vw_blocked (ou_view s ws) = None \<and> oe_status env ws = Handed"

definition settled :: "out_env \<Rightarrow> out_session \<Rightarrow> nat \<Rightarrow> bool" where
  "settled env s ws \<longleftrightarrow> ready env s ws \<and> \<not> pending_frame (ou_view s ws)"

lemma ready_skip: "ready env s ws \<Longrightarrow> should_skip env ws (ou_view s ws) = (False, ou_view s ws)"
  by (simp add: ready_def should_skip_def)

lemma viewer_pass_ready:
  assumes "viewer_pass env only fixed s content cursor ws (ou_view t ws) = (v', es)" and "ready env t ws"
  shows "\<not> vw_shed v' \<and> vw_blocked v' = None \<and> \<not> pending_frame v'"
proof (cases "only \<and> \<not> pending_frame (ou_view t ws)")
  case True
  then show ?thesis
    using assms by (auto simp: viewer_pass_def eligible_def gathered_def ready_def Let_def)
next
  case False
  then have "v' = flushed env (viewer_data fixed content (ou_view t ws)) ws (ou_view t ws)"
    using assms ready_skip[OF assms(2)] by (auto simp: viewer_pass_def eligible_def gathered_def Let_def)
  then show ?thesis
    using assms(2) by (simp add: flushed_def accepted_def ready_def pending_frame_def Let_def)
qed

lemma settled_plain: "plain (ou_view s' w) = plain v \<Longrightarrow> settled env s' w \<longleftrightarrow> \<not> vw_shed v \<and> vw_blocked v = None \<and> oe_status env w = Handed \<and> \<not> pending_frame v"
  by (simp add: settled_def ready_def plain_eq pending_frame_def)

lemma send_grouped_settles:
  assumes "tidy s" and "distinct viewers" and "send_grouped env only fixed viewers content cursor s = (s', es)"
  shows "w \<in> set viewers \<Longrightarrow> ready env s w \<Longrightarrow> settled env s' w" "settled env s w \<Longrightarrow> settled env s' w"
proof -
  have ok: "bases_ok s"
    using assms(1) by (simp add: tidy_def)
  note P = send_grouped_pass[OF ok assms(2,3)]
  show hit: "settled env s' w" if "w \<in> set viewers" "ready env s w" for w
  proof -
    obtain v' fs where vp: "viewer_pass env only fixed s content cursor w (ou_view s w) = (v', fs)"
      by (cases "viewer_pass env only fixed s content cursor w (ou_view s w)")
    have "plain (ou_view s' w) = plain v'"
      using P(4)[OF that(1)] vp by simp
    then show ?thesis
      using viewer_pass_ready[OF vp that(2)] that(2) by (simp add: settled_plain ready_def)
  qed
  show "settled env s w \<Longrightarrow> settled env s' w"
    using hit[of w] P(3)[of w] by (cases "w \<in> set viewers") (auto simp: settled_def ready_def)
qed

lemma send_cursor_settled:
  assumes "send_cursor env c ws s = (s', es)" and "settled env s w" and "settled env s ws"
  shows "settled env s' w"
proof -
  have "s' = put_view ws (ou_view s ws) s"
    using assms(1,3) ready_skip[of env s ws] by (auto simp: send_cursor_def settled_def ready_def Let_def split: if_splits)
  then show ?thesis
    using assms(2) by simp
qed

lemma for_viewers_settled:
  assumes "\<And>ws s s' es. tidy s \<Longrightarrow> ws \<in> W \<Longrightarrow> \<forall>w \<in> W. settled env s w \<Longrightarrow> f ws s = (s', es) \<Longrightarrow> tidy s' \<and> (\<forall>w \<in> W. settled env s' w)"
    and "tidy s" and "set wss \<subseteq> W" and "\<forall>w \<in> W. settled env s w" and "for_viewers f wss s = (s', es)"
  shows "\<forall>w \<in> W. settled env s' w"
  using assms(2-)
proof (induction wss arbitrary: s es)
  case Nil
  then show ?case
    by simp
next
  case (Cons ws wss)
  obtain s1 e1 where one: "f ws s = (s1, e1)"
    by (cases "f ws s")
  obtain e2 where rest: "for_viewers f wss s1 = (s', e2)"
    using Cons.prems(4) one by (auto split: prod.splits)
  have "tidy s1 \<and> (\<forall>w \<in> W. settled env s1 w)"
    using assms(1)[OF Cons.prems(1) _ Cons.prems(3) one] Cons.prems(2) by simp
  then show ?case
    using Cons.IH[OF _ _ _ rest] Cons.prems(2) by simp
qed

lemma publish_same_settles:
  assumes "tidy s" and ready: "\<forall>w \<in> set (ou_viewers s). ready env s w" and run: "publish_same env c s = (s', es)"
  shows "\<forall>w \<in> set (ou_viewers s). settled env s' w"
proof -
  define s1 where "s1 = sampled_same c s"
  define cursor where "cursor = sampled_cursor c s"
  define others where "others = filter (\<lambda>ws. \<not> pending_frame (ou_view s ws)) (ou_viewers s)"
  note run = run[unfolded publish_same_def Let_def, folded s1_def cursor_def others_def]
  have s1: "tidy s1" "ou_view s1 = ou_view s" "ou_viewers s1 = ou_viewers s"
    using assms(1) tidy_cong[of s1 s] by (simp_all add: s1_def sampled_same_def)
  then have dist: "distinct (ou_viewers s1)"
    by (simp add: tidy_def)
  have ready1: "\<forall>w \<in> set (ou_viewers s1). ready env s1 w"
    using ready by (simp add: ready_def s1)
  define W where "W = set (ou_viewers s)"
  have cur: "\<forall>w \<in> W. settled env s' w"
    if "tidy s" "set wss \<subseteq> W" "\<forall>w \<in> W. settled env s w" "for_viewers (send_cursor env d) wss s = (s', es)" for s s' es wss d
  proof (rule for_viewers_settled[OF _ that])
    show "tidy t' \<and> (\<forall>w \<in> W. settled env t' w)"
      if "tidy t" "ws \<in> W" "\<forall>w \<in> W. settled env t w" "send_cursor env d ws t = (t', fs)" for ws t t' fs
      using send_cursor_moves[OF that(1,4)] send_cursor_settled[OF that(4)] that(2,3) by blast
  qed
  have cont: "\<forall>w \<in> W. settled env s' w"
    if "tidy s" "set wss \<subseteq> W" "\<forall>w \<in> W. settled env s w" "for_viewers (sent_to env (cs_content c) cursor) wss s = (s', es)" for s s' es wss
  proof (rule for_viewers_settled[OF _ that])
    show "tidy t' \<and> (\<forall>w \<in> W. settled env t' w)"
      if t: "tidy t" "ws \<in> W" "\<forall>w \<in> W. settled env t w" "sent_to env (cs_content c) cursor ws t = (t', fs)" for ws t t' fs
    proof -
      have "send_grouped env False True [ws] (content_for (vw_tail (ou_view t ws)) (cs_content c)) cursor t = (t', fs)"
        using t(4) by (simp add: sent_to_def send_output_def)
      then show ?thesis
        using sent_to_moves[OF t(1,4)] send_grouped_settles(2)[OF t(1), of "[ws]"] t(3) by simp
    qed
  qed
  show ?thesis
    unfolding W_def[symmetric]
  proof (cases "filter (\<lambda>ws. pending_frame (ou_view s ws)) (ou_viewers s) \<noteq> []")
    case True
    obtain s2 e2 where two: "send_grouped env True False (ou_viewers s1) (cs_content c) cursor s1 = (s2, e2)"
      by (cases "send_grouped env True False (ou_viewers s1) (cs_content c) cursor s1")
    obtain s3 e3 where three: "(if screen_moved c s \<or> boundary_moved c s then for_viewers (sent_to env (cs_content c) cursor) others s2
                            else if cursor_moved c s then for_viewers (send_cursor env (flat (cs_cursor c))) others s2
                            else (s2, [])) = (s3, e3)"
      by (metis surj_pair)
    have es: "s' = s3"
      using run[unfolded if_P[OF True] two prod.case three] by simp
    have t2: "tidy s2" and w2: "\<forall>w \<in> W. settled env s2 w"
      using send_grouped_moves[OF s1(1) dist two] send_grouped_settles(1)[OF s1(1) dist two] ready1 by (simp_all add: W_def s1)
    have sub: "set others \<subseteq> W"
      by (auto simp: others_def W_def)
    consider "for_viewers (sent_to env (cs_content c) cursor) others s2 = (s3, e3)"
      | "for_viewers (send_cursor env (flat (cs_cursor c))) others s2 = (s3, e3)" | "s3 = s2"
      using three by (metis Pair_inject)
    then show "\<forall>w \<in> W. settled env s' w"
    proof cases
      case 1
      show ?thesis
        unfolding es by (rule cont[OF t2 sub w2 1])
    next
      case 2
      show ?thesis
        unfolding es by (rule cur[OF t2 sub w2 2])
    next
      case 3
      show ?thesis
        unfolding es 3 by (rule w2)
    qed
  next
    case False
    then have none: "\<forall>w \<in> W. settled env s1 w"
      using ready1 by (auto simp: settled_def W_def s1 filter_empty_conv)
    consider "send_grouped env False False (ou_viewers s1) (cs_content c) cursor s1 = (s', es)"
      | "for_viewers (send_cursor env (flat (cs_cursor c))) (ou_viewers s1) s1 = (s', es)" | "s' = s1"
      using run[unfolded if_not_P[OF False]] by (metis Pair_inject)
    then show "\<forall>w \<in> W. settled env s' w"
    proof cases
      case 1
      then show ?thesis
        using send_grouped_settles(1)[OF s1(1) dist 1] ready1 by (simp add: W_def s1)
    next
      case 2
      show ?thesis
        by (rule cur[OF s1(1) _ none 2]) (simp add: W_def s1)
    next
      case 3
      show ?thesis
        unfolding 3 by (rule none)
    qed
  qed
qed

lemma publish_capture_settles:
  assumes "session_ok hash tracked s H" and ready: "\<forall>w \<in> set (ou_viewers s). ready env s w"
    and run: "publish_capture hash env c s = (s', es)"
  shows "ou_viewers s' = ou_viewers s" "ou_content s' = Some (cs_content c)" "ou_hash s' = Some (hash (cs_content c))"
    "\<forall>w \<in> set (ou_viewers s). settled env s' w"
proof -
  define s1 where "s1 = s\<lparr>ou_reflow := ou_reflow s \<and> \<not> cs_reflowed c, ou_content := Some (cs_content c)\<rparr>"
  define s2 where "s2 = s1\<lparr>ou_hash := Some (hash (cs_content c))\<rparr>"
  define s3 where "s3 = s2\<lparr>ou_boundary := (if cs_boundary c = None then ou_boundary s2 else cs_boundary c),
             ou_cursor := Some (flat (cs_cursor c)),
             ou_screen := (if cs_screen c = None then ou_screen s2 else cs_screen c)\<rparr>"
  have tidy: "tidy s"
    by (rule session_ok_tidy[OF assms(1)])
  have l: "links_ok s1 H" "distinct (ou_viewers s1)" "tidy s1" "tidy s3" "links_ok s2 H"
    using assms(1) tidy links_ok_cong[of s1 s H] links_ok_cong[of s2 s H] tidy_cong[of s1 s] tidy_cong[of s3 s]
    by (simp_all add: session_ok_def s1_def s2_def s3_def)
  have r: "\<forall>w \<in> set (ou_viewers s1). ready env s1 w" "\<forall>w \<in> set (ou_viewers s3). ready env s3 w"
    using ready by (simp_all add: ready_def s1_def s2_def s3_def)
  have "ou_viewers s' = ou_viewers s \<and> ou_content s' = Some (cs_content c) \<and> ou_hash s' = Some (hash (cs_content c)) \<and>
     (\<forall>w \<in> set (ou_viewers s). settled env s' w)"
  proof (cases "ou_hash s1 = Some (hash (cs_content c))")
    case True
    then have same: "publish_same env c s1 = (s', es)"
      using run by (simp add: publish_capture_def s1_def[symmetric] Let_def)
    have "\<forall>w. viewer_ok hash tracked s1 w (H w)"
      using assms(1) viewer_ok_cong[of s1 _ s tracked hash] by (simp add: session_ok_def s1_def)
    then have "published hash tracked s1 s' (delivered es H)"
      using publish_same_ok[where hash = hash, OF l(1,2) True _ same] by blast
    then have "ou_viewers s' = ou_viewers s \<and> ou_content s' = Some (cs_content c) \<and> ou_hash s' = Some (hash (cs_content c))"
      using True by (simp add: published_def s1_def)
    moreover have "\<forall>w \<in> set (ou_viewers s). settled env s' w"
      using publish_same_settles[OF l(3) r(1) same] by (simp add: s1_def)
    ultimately show ?thesis
      by blast
  next
    case False
    then have changed: "publish_changed env c s2 = (s', es)"
      using run by (simp add: publish_capture_def s1_def[symmetric] s2_def[symmetric] Let_def)
    then have grouped: "send_grouped env False False (ou_viewers s3) (cs_content c) (flat (cs_cursor c)) s3 = (s', es)"
      by (simp add: publish_changed_def s3_def Let_def)
    have "published hash tracked s2 s' (delivered es H)"
      by (rule publish_changed_ok[OF l(5) _ _ changed]) (use l(2) in \<open>simp_all add: s2_def\<close>)
    then have "ou_viewers s' = ou_viewers s \<and> ou_content s' = Some (cs_content c) \<and> ou_hash s' = Some (hash (cs_content c))"
      by (simp add: published_def s2_def s1_def)
    moreover have "distinct (ou_viewers s3)"
      using l(2) by (simp add: s3_def s2_def)
    then have "\<forall>w \<in> set (ou_viewers s3). settled env s' w"
      using send_grouped_settles(1)[OF l(4) _ grouped] r(2) by blast
    ultimately show ?thesis
      by (simp add: s3_def s2_def s1_def)
  qed
  then show "ou_viewers s' = ou_viewers s" "ou_content s' = Some (cs_content c)" "ou_hash s' = Some (hash (cs_content c))"
    "\<forall>w \<in> set (ou_viewers s). settled env s' w"
    by blast+
qed

section \<open>A concrete session\<close>

definition open_env :: out_env where
  "open_env = \<lparr>oe_enabled = True, oe_max_buffered = 100, oe_max_blocked = 50, oe_now = 0, oe_buffered = (\<lambda>_. Some 0),
     oe_status = (\<lambda>_. Handed)\<rparr>"

definition slow_env :: out_env where
  "slow_env = open_env\<lparr>oe_buffered := (\<lambda>_. Some 200), oe_status := (\<lambda>_. Queued)\<rparr>"

definition plain_sample :: "jstr \<Rightarrow> int \<Rightarrow> capture_sample" where
  "plain_sample content row = \<lparr>cs_content = content, cs_cursor = Some (Some \<lparr>mc_row = row, mc_col = 0\<rparr>), cs_screen = None,
     cs_boundary = None, cs_reflowed = False\<rparr>"

definition two_viewers :: "(out_env \<times> out_event) list" where
  "two_viewers = [(open_env, Subscribe 1 None False), (open_env, Subscribe 2 (Some 1) False), (open_env, Captured (plain_sample [97] 0)),
     (open_env, Captured (plain_sample [97, 10, 98] 1))]"

lemma two_viewers_run:
  "(case out_run id two_viewers (new_session []) of (s, es) \<Rightarrow> ou_viewers s = [1, 2] \<and> list_all (\<lambda>w. \<not> pending_frame (ou_view s w) \<and> \<not> vw_shed (ou_view s w) \<and>
     vw_blocked (ou_view s w) = None) [1, 2] \<and> length es = 4)"
  by code_simp

lemma two_viewers_state:
  obtains s es where "out_run id two_viewers (new_session []) = (s, es)" "ou_viewers s = [1, 2]"
    "\<forall>w \<in> set (ou_viewers s). \<not> pending_frame (ou_view s w) \<and> \<not> vw_shed (ou_view s w) \<and> ready open_env s w"
proof -
  obtain s es where run: "out_run id two_viewers (new_session []) = (s, es)"
    by (cases "out_run id two_viewers (new_session [])")
  then show thesis
    using two_viewers_run that[of s es] by (auto simp: ready_def open_env_def)
qed

section \<open>Properties\<close>

text \<open>
  C1: Whatever is captured, projected, resized, reset, dropped, queued, drained, resynchronised and subscribed in
  any order, a viewer that is neither owed a frame nor shed holds exactly its view (the tail it asked for) of
  content with the published hash, put together from full frames and deltas; and its cursor is the remembered one as
  long as no projection is published.
\<close>

theorem viewers_hold_published:
  assumes "out_run hash steps (new_session channel) = (s, es)" and "ws \<in> set (ou_viewers s)"
    and "\<not> pending_frame (ou_view s ws)" and "\<not> vw_shed (ou_view s ws)"
  shows "\<exists>content x. receive_all (effects_to ws es) None = Some x \<and> ou_hash s = Some (hash content) \<and>
     se_lines x = split_mux_output_data (content_for (vw_tail (ou_view s ws)) content) \<and>
     ((\<forall>(env, e) \<in> set steps. \<not> is_projection e) \<longrightarrow> se_cursor x = flat (ou_cursor s))"
  using run_viewer_current[OF assms] by (simp add: up_to_date_def holds_current_def)

theorem viewers_hold_published_witness:
  "case out_run id two_viewers (new_session []) of (s, es) \<Rightarrow>
     \<exists>content x. receive_all (effects_to 2 es) None = Some x \<and> ou_hash s = Some content \<and>
       se_lines x = split_mux_output_data (content_for (vw_tail (ou_view s 2)) content) \<and> se_cursor x = flat (ou_cursor s)"
proof -
  obtain s es where run: "out_run id two_viewers (new_session []) = (s, es)" "ou_viewers s = [1, 2]"
    "\<forall>w \<in> set (ou_viewers s). \<not> pending_frame (ou_view s w) \<and> \<not> vw_shed (ou_view s w) \<and> ready open_env s w"
    using two_viewers_state by blast
  have "\<forall>(env, e) \<in> set two_viewers. \<not> is_projection e"
    by (simp add: two_viewers_def is_projection_def)
  with viewers_hold_published[OF run(1), of 2] run(2,3) show ?thesis
    by (simp add: run(1))
qed


definition slow_run :: "(out_env \<times> out_event) list" where
  "slow_run = [(open_env, Subscribe 1 None False), (slow_env, Captured (plain_sample [97] 0)), (open_env, Captured (plain_sample [98] 0)),
     (open_env, Drain 1)]"


text \<open>
  C10: Catching up. After any run, one capture brings every viewer up to date when each is neither blocked nor shed
  and its socket takes what it is sent: nobody is owed a frame any more, and everybody holds its view of content with
  the hash of the captured content, whether it was pending, current, or reached only by a cursor before.
\<close>

theorem capture_brings_viewers_up:
  assumes "out_run hash steps (new_session channel) = (s, es)" and "\<forall>w \<in> set (ou_viewers s). ready env s w"
    and "publish_capture hash env c s = (s', fs)" and "w \<in> set (ou_viewers s)"
  shows "\<not> pending_frame (ou_view s' w) \<and> (\<exists>content x. receive_all (effects_to w (es @ fs)) None = Some x \<and>
     hash content = hash (cs_content c) \<and> se_lines x = split_mux_output_data (content_for (vw_tail (ou_view s' w)) content))"
proof -
  have ok: "session_ok hash False s (delivered es (\<lambda>_. None))"
    by (rule out_run_ok[OF new_session_ok assms(1)]) simp
  note P = publish_capture_settles[OF ok assms(2,3)]
  have "viewer_ok hash False s' w (delivered fs (delivered es (\<lambda>_. None)) w)"
    using publish_capture_ok[OF ok assms(3)] by (simp add: session_ok_def)
  then show ?thesis
    using P assms(4) by (auto simp: viewer_ok_def holds_current_def settled_def ready_def delivered_def Let_def)
qed

theorem capture_brings_viewers_up_witness:
  "case out_run id two_viewers (new_session []) of (s, es) \<Rightarrow>
     (case publish_capture id open_env (plain_sample [99] 0) s of (s', fs) \<Rightarrow>
        \<not> pending_frame (ou_view s' 1) \<and> map_option se_lines (receive_all (effects_to 1 (es @ fs)) None) =
          Some (split_mux_output_data (content_for (vw_tail (ou_view s' 1)) [99])))"
proof -
  obtain s es where run: "out_run id two_viewers (new_session []) = (s, es)" "ou_viewers s = [1, 2]"
    "\<forall>w \<in> set (ou_viewers s). \<not> pending_frame (ou_view s w) \<and> \<not> vw_shed (ou_view s w) \<and> ready open_env s w"
    using two_viewers_state by blast
  obtain s' fs where pub: "publish_capture id open_env (plain_sample [99] 0) s = (s', fs)"
    by (cases "publish_capture id open_env (plain_sample [99] 0) s")
  have "\<forall>w \<in> set (ou_viewers s). ready open_env s w"
    using run(3) by blast
  moreover have "cs_content (plain_sample [99] 0) = [99]"
    by (simp add: plain_sample_def)
  ultimately show ?thesis
    using capture_brings_viewers_up[OF run(1) _ pub, of 1] unfolding run(1) pub prod.case by (auto simp: run(2))
qed

text \<open>
  C14: Grouping is invisible. A pass that serves all viewers in groups of equal tail, reset and delta base, with one
  serialised frame and one shared next base per group, gives each viewer the same frames, closes and
  bookkeeping as a pass over that viewer alone; only the identity of its new base may differ.
\<close>

theorem grouped_pass_is_individual:
  assumes "bases_ok s" and "distinct viewers" and "w \<in> set viewers"
  shows "let (s1, e1) = send_grouped env only fixed viewers content cursor s;
      (s2, e2) = send_grouped env only fixed [w] content cursor s
    in effects_to w e1 = effects_to w e2 \<and> plain (ou_view s1 w) = plain (ou_view s2 w)"
proof -
  obtain s1 e1 where one: "send_grouped env only fixed viewers content cursor s = (s1, e1)"
    by (cases "send_grouped env only fixed viewers content cursor s")
  obtain s2 e2 where two: "send_grouped env only fixed [w] content cursor s = (s2, e2)"
    by (cases "send_grouped env only fixed [w] content cursor s")
  have "(plain (ou_view s1 w), effects_to w e1) = (plain (ou_view s2 w), effects_to w e2)"
    using send_grouped_pass(4)[OF assms(1,2) one assms(3)] send_grouped_pass(4)[OF assms(1) _ two, of w] by simp
  then show ?thesis
    by (simp add: one two)
qed

definition shared_base :: out_session where
  "shared_base = (new_session [])\<lparr>ou_viewers := [1, 2, 3], ou_fresh := 1, ou_view := (\<lambda>w. new_viewer
     \<lparr>vw_delta := w \<noteq> 3, vw_base := (if w \<noteq> 3 then Some (0, [[97], [98]]) else None)\<rparr>)\<rparr>"

theorem grouped_pass_is_individual_witness:
  "let (s1, e1) = send_grouped open_env False False [1, 2, 3] [97, 10, 99] None shared_base;
      (s2, e2) = send_grouped open_env False False [2] [97, 10, 99] None shared_base
    in effects_to 2 e1 = effects_to 2 e2 \<and> plain (ou_view s1 2) = plain (ou_view s2 2)"
  by (rule grouped_pass_is_individual) (auto simp: bases_ok_def ids_ok_def bases_def shared_base_def inj_on_def split: if_splits)

section \<open>Two ways to miss an update\<close>

definition some_meta :: frame_meta where
  "some_meta = \<lparr>nm_pane = \<lparr>pk_server = [], pk_pane = [], pk_birth = 0\<rparr>, nm_source_epoch = 1, nm_geometry_generation = 1,
     nm_route_generation = 1, nm_metadata_revision = None, nm_cols = 80, nm_rows = 24, nm_revision = 1, nm_durable_revision = 1,
     nm_next_line = 0, nm_live_start = 0, nm_source = FromPipe, nm_degraded = False, nm_markers = []\<rparr>"

definition snapshot_at :: "int \<Rightarrow> projection_snapshot" where
  "snapshot_at row = \<lparr>pj_content = [97], pj_cursor = Some \<lparr>mc_row = row, mc_col = 0\<rparr>, pj_screen = None,
     pj_boundary = \<lparr>hb_generation = [], hb_live_start = 0, hb_wal_sequence = [48], hb_wal_offset = 0\<rparr>, pj_newarch = some_meta\<rparr>"

definition dropping_env :: out_env where
  "dropping_env = open_env\<lparr>oe_status := (\<lambda>_. Dropped)\<rparr>"

text \<open>
  A cursor that moves while another viewer is owed a frame never reaches the viewers that are not: the projection pass
  serves the pending viewers only, remembers the cursor for all, and sees no move the next time.
\<close>

lemma projected_cursor_lost:
  "case out_run id [(open_env, Subscribe 2 None False), (open_env, Projected (snapshot_at 0)), (dropping_env, Subscribe 1 None False),
       (open_env, Projected (snapshot_at 1)), (open_env, Projected (snapshot_at 1))] (new_session []) of (s, es) \<Rightarrow>
     \<not> pending_frame (ou_view s 2) \<and> \<not> vw_shed (ou_view s 2) \<and>
     map_option se_cursor (receive_all (effects_to 2 es) None) = Some (Some \<lparr>mc_row = 0, mc_col = 0\<rparr>) \<and>
     flat (ou_cursor s) = Some \<lparr>mc_row = 1, mc_col = 0\<rparr>"
  by code_simp

text \<open>
  A drain between a resize and its capture answers the pending resize with the old wrapping, marked as a resize,
  and the viewer no longer waits for the reflowed capture.
\<close>

lemma drain_consumes_resize:
  "case out_run id [(open_env, Subscribe 1 None False), (open_env\<lparr>oe_status := (\<lambda>_. Queued)\<rparr>, Captured (plain_sample [97] 0)),
       (open_env, Resized), (open_env, Drain 1)] (new_session []) of (s, es) \<Rightarrow>
     ou_reflow s \<and> \<not> pending_frame (ou_view s 1) \<and>
     map (\<lambda>e. case e of SendFrame _ (Full f) \<Rightarrow> (ff_data f, ff_reset f) | _ \<Rightarrow> ([], None)) es = [([97], None), ([97], Some ResetResize)]"
  by code_simp

end
