(* ===== verification/Spec2Isabelle.thy ===== *)
theory Spec2Isabelle
  imports Terminal_Scroll Text_Codec Mux_Protocol Content_Gate History_Window Row_Matcher_Sound History_Stitch Watchdog Input_Router Retention_Lane Canonical_Json Sgr_Style Stream_Contract Control_Replay V2_Storage V2_Decode V2_Replay V2_Authority Newarch_Wire Stitch_Rows Stream_Stitch Stitch_Sound History_Calibrator Calibrator_Sound Mux_Output Fanout_Sound Fanout_Invariant Fanout_Runs
begin

text \<open>
  Verification of thumbmux, a mirror of tmux panes in a browser. The server captures panes or reads their pipes,
  keeps their history, and sends the screen of a session to its viewers as full frames and deltas over one
  WebSocket; the client rebuilds the rows, pages through the archive and writes input back. The model covers
  the rules both sides share, what the server sends each viewer, and its decisions about history, storage and replay.

  Parts, each a theory or a few, and the code they model (paths under \<open>src/\<close>):

    \<^item> \<open>Prelude\<close>, \<open>Text_Codec\<close>: JavaScript strings as 16-bit units, numbers as exact rationals, values of
      \<open>JSON.parse\<close>, checks in order (\<open>first_failure\<close>), UTF-8, JSON text and FNV-1a, used by every part.
    \<^item> \<open>Mux_Protocol\<close>, \<open>Newarch_Wire\<close>: \<open>core/src/protocol.ts\<close>, the frames between server and client.
    \<^item> \<open>Terminal_Scroll\<close>: \<open>core/src/terminal-scroll.ts\<close>, overlap of captures and reader anchors.
    \<^item> \<open>Content_Gate\<close>, \<open>History_Window\<close>: \<open>svelte/src/content-update-gate.ts\<close>,
      \<open>live-boundary-admission.ts\<close> and \<open>history-window.ts\<close>, what a view shows and pages through.
    \<^item> \<open>Row_Matcher\<close>, \<open>Row_Matcher_Sound\<close>: \<open>server/src/history-row-matcher.ts\<close>;
      \<open>History_Calibrator\<close>, \<open>Calibrator_Sound\<close>: \<open>server/src/history-calibrator.ts\<close> on top of it, and the timer of
      \<open>pipe-history-runtime.ts\<close> that wakes it.
    \<^item> \<open>History_Stitch\<close>, \<open>Retention_Lane\<close>, \<open>Watchdog\<close>, \<open>Input_Router\<close>: \<open>server/src/history-stitch.ts\<close>,
      \<open>retention-lane.ts\<close>, \<open>history-watchdog.ts\<close>, \<open>input-router.ts\<close>.
    \<^item> \<open>Mux_Output\<close> (model), \<open>Fanout_Sound\<close>, \<open>Fanout_Invariant\<close>, \<open>Fanout_Runs\<close> (proofs): the output fan-out of
      \<open>server/src/ws-mux.ts\<close>, from a published capture or projection to the frames each viewer is sent.
    \<^item> \<open>Canonical_Json\<close>, \<open>Sgr_Style\<close>, \<open>Stream_Contract\<close>, \<open>Control_Replay\<close>, \<open>V2_Storage\<close>, \<open>V2_Decode\<close>,
      \<open>V2_Replay\<close>, \<open>V2_Authority\<close>: \<open>server/src/stream-contract.ts\<close>, by subject.
    \<^item> \<open>Stitch_Rows\<close>, \<open>Stream_Stitch\<close>, \<open>Stitch_Sound\<close>: \<open>server/src/stream-stitch.ts\<close>.

  How they correspond to the code. A record or class is a \<open>record\<close>, an enum or tagged union a \<open>datatype\<close>, a
  function or method one definition with the guards and early returns of its body in their order, and an
  exception or refusal a value of a sum or option. A stateful class is a state record and one function per method;
  an \<open>async\<close> method is cut at its \<open>await\<close>s into steps, and what a host call answers is an argument of the step that
  resumes on it, so that every interleaving of the other methods is a sequence of steps. A callback or port is an
  effect in the result. Numbers from outside are exact rationals with the infinities and NaN, counters the code
  computes are integers, and values under bitwise operators are 32-bit words; \<open>isSafeInteger\<close> is written out.
  SHA-256, clocks, host callbacks and the hash of row keys are parameters. Strings at the storage contract are
  well-formed Unicode where a theory says so.

  What the lemmas show. Equivalence with a reference: overlap search, Z function, occurrences, certification
  routes, grouped against single sends, canonical texts, interned identities. Refinement: the history window and the seam order against
  their abstract specifications, the stitch against the true scrollback. Invariants over every run: windows, gates,
  watchdogs, lanes, calibrators, fan-out sessions, control journals, decode chains. Safety: what may be matched, stitched, published,
  resumed, routed. Bounds: storage ledgers, capture rates. Termination and liveness: the retention pass, the next
  capture of a pane, viewers catching up, the report of a lost acknowledgement. Round trips: deltas over the wire, cell styles.
  A property with hypotheses has a witness beside it that meets them on concrete data.

  Bounds and fuel. No function of the model needs fuel: loops are structural recursions, functions with a
  proved measure, or folds over finite lists; the state machines are run step by step on arbitrary finite histories.
  The limits in the code (capture sizes, candidate counts, marker counts, page and storage budgets) are definitions
  with the code's values.

  Not modelled, and why: the user interface, HTTP handlers, subprocess drivers, SQL and file-system formats are glue
  around systems outside the model; the terminal emulator and materializer would each need a development of their own;
  agent transcript heuristics and rendering are regular expressions over text with no state shared with
  the parts above. Of the mux, the capture lane, polling, pipes, archive ingestion, renaming and the session list are asynchronous
  calls around the fan-out and are left out. Timers of the browser and the runtime appear only where a component decides by them.
\<close>

end
